(* ===== verification/Prelude.thy ===== *)
theory Prelude
  imports Main "HOL-Library.Word" "HOL-Library.AList" "HOL-Library.List_Lexorder"
    "HOL-Library.Char_ord"
begin

text \<open>
  Prelude of the NeoNet development: the machine types, the error values, the two combinators
  every fallible operation is written with, the interface to the crates the sources call
  (\<open>blake3\<close>, \<open>ed25519-dalek\<close>, \<open>chacha20poly1305\<close>, \<open>hex\<close>, \<open>postcard\<close>, \<open>serde_json\<close>, tokio's
  integer codec), and the generic lemmas the components share.

  Byte arrays (\<open>[u8; 32]\<close> and the like) and byte vectors are lists of 8-bit words. A Rust
  \<open>String\<close> is a HOL string whose characters are the code points U+0000 to U+00FF; where the
  sources count bytes, \<open>utf8_len\<close> does. A \<open>usize\<close> that counts elements in memory is a \<open>nat\<close>.
\<close>

type_synonym byte = "8 word"
type_synonym bytes = "byte list"
type_synonym u16 = "16 word"
type_synonym u32 = "32 word"
type_synonym u64 = "64 word"

section \<open>Automation\<close>

named_theorems bind_simps \<open>evaluation of the error combinators\<close>
named_theorems store_simps \<open>evaluation of the file store\<close>
named_theorems router_simps \<open>evaluation of router and queue operations\<close>
named_theorems handler_defs \<open>definitions that a handler unfolds to\<close>

unbundle bit_operations_syntax

section \<open>Errors\<close>

text \<open>\<open>std::io::ErrorKind\<close>, as far as the sources construct or receive it.\<close>

datatype io_kind =
    InvalidInput | InvalidData | PermissionDenied | NotFound | Unsupported | TimedOut
  | BrokenPipe | UnexpectedEof | IsADirectory | NotADirectory | FilesystemLoop
  | StorageFull | Other

datatype io_error = IoError (err_kind: io_kind) (err_text: string)

text \<open>Errors the operating system reports; their text is not the program's.\<close>

definition os_error :: "io_kind \<Rightarrow> io_error" where
  "os_error k = IoError k ''os error''"

lemma os_error_kind [simp]: "err_kind (os_error k) = k"
  by (simp add: os_error_def)

section \<open>Sequencing of fallible operations\<close>

text \<open>The question-mark operator: \<open>bind\<close> on results, and on operations that also change a
  state. In the second an error keeps the state reached so far, as a Rust function that returns
  early keeps the effects it has had.\<close>

fun bindR :: "'e + 'a \<Rightarrow> ('a \<Rightarrow> 'e + 'b) \<Rightarrow> 'e + 'b" where
  "bindR (Inl e) f = Inl e"
| "bindR (Inr a) f = f a"

type_synonym ('s, 'e, 'a) op = "'s \<Rightarrow> 's \<times> ('e + 'a)"

definition ret :: "'a \<Rightarrow> ('s, 'e, 'a) op" where
  "ret a s = (s, Inr a)"

definition raise :: "'e \<Rightarrow> ('s, 'e, 'a) op" where
  "raise e s = (s, Inl e)"

definition lift_result :: "'e + 'a \<Rightarrow> ('s, 'e, 'a) op" where
  "lift_result r s = (s, r)"

definition bindS :: "('s, 'e, 'a) op \<Rightarrow> ('a \<Rightarrow> ('s, 'e, 'b) op) \<Rightarrow> ('s, 'e, 'b) op" where
  "bindS m f s = (case m s of (s', Inl e) \<Rightarrow> (s', Inl e) | (s', Inr a) \<Rightarrow> f a s')"

definition map_err :: "('e \<Rightarrow> 'f) \<Rightarrow> 'e + 'a \<Rightarrow> 'f + 'a" where
  "map_err g r = (case r of Inl e \<Rightarrow> Inl (g e) | Inr a \<Rightarrow> Inr a)"

definition map_errS :: "('e \<Rightarrow> 'f) \<Rightarrow> ('s, 'e, 'a) op \<Rightarrow> ('s, 'f, 'a) op" where
  "map_errS g m s = (case m s of (s', r) \<Rightarrow> (s', map_err g r))"

definition ok_or :: "'e \<Rightarrow> 'a option \<Rightarrow> 'e + 'a" where
  "ok_or e o' = (case o' of None \<Rightarrow> Inl e | Some a \<Rightarrow> Inr a)"

text \<open>\<open>collect::<Result<Vec<_>, _>>\<close>: the first error wins.\<close>

fun mapR :: "('a \<Rightarrow> 'e + 'b) \<Rightarrow> 'a list \<Rightarrow> 'e + 'b list" where
  "mapR f [] = Inr []"
| "mapR f (x # xs) = bindR (f x) (\<lambda>y. bindR (mapR f xs) (\<lambda>ys. Inr (y # ys)))"

fun is_ok :: "'e + 'a \<Rightarrow> bool" where
  "is_ok (Inl _) = False"
| "is_ok (Inr _) = True"

lemma bindR_eq_Inr [bind_simps]: "bindR r f = Inr b \<longleftrightarrow> (\<exists>a. r = Inr a \<and> f a = Inr b)"
  by (cases r) auto

lemma bindR_eq_Inl [bind_simps]:
  "bindR r f = Inl e \<longleftrightarrow> r = Inl e \<or> (\<exists>a. r = Inr a \<and> f a = Inl e)"
  by (cases r) auto

lemma bindS_Inl [bind_simps]: "m s = (s', Inl e) \<Longrightarrow> bindS m f s = (s', Inl e)"
  by (simp add: bindS_def)

lemma bindS_Inr [bind_simps]: "m s = (s', Inr a) \<Longrightarrow> bindS m f s = f a s'"
  by (simp add: bindS_def)

lemma bindS_ok_iff:
  "bindS m f s = (t, Inr b) \<longleftrightarrow> (\<exists>a s'. m s = (s', Inr a) \<and> f a s' = (t, Inr b))"
  by (auto simp: bindS_def split: prod.splits sum.splits)

lemma bindS_err_iff:
  "bindS m f s = (t, Inl e) \<longleftrightarrow>
     m s = (t, Inl e) \<or> (\<exists>a s'. m s = (s', Inr a) \<and> f a s' = (t, Inl e))"
  by (auto simp: bindS_def split: prod.splits sum.splits)

lemma ret_apply [bind_simps]: "ret a s = (s, Inr a)"
  by (simp add: ret_def)

lemma raise_apply [bind_simps]: "raise e s = (s, Inl e)"
  by (simp add: raise_def)

lemma lift_result_apply [bind_simps]: "lift_result r s = (s, r)"
  by (simp add: lift_result_def)

lemma map_err_eq_Inr [bind_simps]: "map_err g r = Inr a \<longleftrightarrow> r = Inr a"
  by (simp add: map_err_def split: sum.splits)

lemma map_err_eq_Inl [bind_simps]: "map_err g r = Inl f \<longleftrightarrow> (\<exists>e. r = Inl e \<and> f = g e)"
  by (auto simp: map_err_def split: sum.splits)

lemma ok_or_eq_Inr [bind_simps]: "ok_or e x = Inr a \<longleftrightarrow> x = Some a"
  by (simp add: ok_or_def split: option.splits)

lemma ok_or_eq_Inl [bind_simps]: "ok_or e x = Inl f \<longleftrightarrow> x = None \<and> f = e"
  by (auto simp: ok_or_def split: option.splits)

lemma is_ok_iff: "is_ok r \<longleftrightarrow> (\<exists>a. r = Inr a)"
  by (cases r) auto

lemma mapR_ok_length: "mapR f xs = Inr ys \<Longrightarrow> length ys = length xs"
  by (induction xs arbitrary: ys) (auto simp: bind_simps)

lemma mapR_ok_nth: "mapR f xs = Inr ys \<Longrightarrow> i < length xs \<Longrightarrow> f (xs ! i) = Inr (ys ! i)"
proof (induction xs arbitrary: ys i)
  case Nil
  then show ?case by simp
next
  case (Cons x xs)
  then show ?case by (cases i) (auto simp: bind_simps)
qed

lemma mapR_all_ok: "(\<And>x. x \<in> set xs \<Longrightarrow> f x = Inr (g x)) \<Longrightarrow> mapR f xs = Inr (map g xs)"
  by (induction xs) simp_all

section \<open>The crates\<close>

text \<open>A serialisation format at one type: \<open>postcard\<close> or \<open>serde_json\<close>. Encoding may fail,
  decoding may reject.\<close>

record 'a codec =
  enc :: "'a \<Rightarrow> bytes option"
  dec :: "bytes \<Rightarrow> 'a option"

text \<open>What the code relies on: a value that was encoded decodes to itself.\<close>

definition codec_ok :: "'a codec \<Rightarrow> bool" where
  "codec_ok c \<longleftrightarrow> (\<forall>v b. enc c v = Some b \<longrightarrow> dec c b = Some v)"

definition codec_ok_at :: "'a codec \<Rightarrow> 'a \<Rightarrow> bool" where
  "codec_ok_at c v \<longleftrightarrow> (\<forall>b. enc c v = Some b \<longrightarrow> dec c b = Some v)"

lemma codec_okD: "codec_ok c \<Longrightarrow> enc c v = Some b \<Longrightarrow> dec c b = Some v"
  by (simp add: codec_ok_def)

lemma codec_ok_atI [intro]: "codec_ok c \<Longrightarrow> codec_ok_at c v"
  by (simp add: codec_ok_def codec_ok_at_def)

record crates =
  blake3 :: "bytes \<Rightarrow> bytes"
  hash_hex :: "bytes \<Rightarrow> string"
  hex_encode :: "bytes \<Rightarrow> string"
  hex_decode :: "string \<Rightarrow> bytes option"
  ed_public :: "bytes \<Rightarrow> bytes"
  ed_key_ok :: "bytes \<Rightarrow> bool"
  ed_sign :: "bytes \<Rightarrow> bytes \<Rightarrow> bytes"
  ed_verify :: "bytes \<Rightarrow> bytes \<Rightarrow> bytes \<Rightarrow> bool"
  aead_seal :: "bytes \<Rightarrow> bytes \<Rightarrow> bytes \<Rightarrow> bytes \<Rightarrow> bytes option"
  aead_open :: "bytes \<Rightarrow> bytes \<Rightarrow> bytes \<Rightarrow> bytes \<Rightarrow> bytes option"
  put_u32 :: "u32 \<Rightarrow> bytes"
  get_u32 :: "bytes \<Rightarrow> u32"
  utf8_lossy :: "bytes \<Rightarrow> string"

text \<open>Documented behaviour of the crates, used as named hypotheses. \<open>ed_complete\<close>: what the
  holder of a key signs verifies under its public key. \<open>aead_complete\<close>: opening inverts sealing
  under the same key, nonce and associated data. \<open>hex_codec\<close>: decoding inverts encoding. \<open>u32_codec\<close>: four bytes each way.\<close>

definition ed_complete :: "crates \<Rightarrow> bool" where
  "ed_complete C \<longleftrightarrow> (\<forall>sk m. ed_key_ok C (ed_public C sk) \<and>
     ed_verify C (ed_public C sk) m (ed_sign C sk m))"

definition aead_complete :: "crates \<Rightarrow> bool" where
  "aead_complete C \<longleftrightarrow> (\<forall>k n a m c. aead_seal C k n a m = Some c \<longrightarrow> aead_open C k n a c = Some m)"

text \<open>\<open>aead_bound\<close>: a ciphertext that opens under some associated data is refused under any other
  of the same length.\<close>

definition aead_bound :: "crates \<Rightarrow> bool" where
  "aead_bound C \<longleftrightarrow> (\<forall>k n a a' c m. aead_open C k n a c = Some m \<longrightarrow> length a' = length a \<longrightarrow> a' \<noteq> a \<longrightarrow>
     aead_open C k n a' c = None)"

definition hex_codec :: "crates \<Rightarrow> bool" where
  "hex_codec C \<longleftrightarrow> (\<forall>b. hex_decode C (hex_encode C b) = Some b)"

definition u32_codec :: "crates \<Rightarrow> bool" where
  "u32_codec C \<longleftrightarrow> (\<forall>w. length (put_u32 C w) = 4 \<and> get_u32 C (put_u32 C w) = w)"

lemma ed_complete_verify: "ed_complete C \<Longrightarrow> ed_verify C (ed_public C sk) m (ed_sign C sk m)"
  and ed_complete_key: "ed_complete C \<Longrightarrow> ed_key_ok C (ed_public C sk)"
  by (simp_all add: ed_complete_def)

section \<open>Strings\<close>

definition char_utf8_len :: "char \<Rightarrow> nat" where
  "char_utf8_len c = (if of_char c < (128 :: nat) then 1 else 2)"

definition utf8_len :: "string \<Rightarrow> nat" where
  "utf8_len s = sum_list (map char_utf8_len s)"

definition utf8_bytes :: "string \<Rightarrow> bytes" where
  "utf8_bytes s = concat (map (\<lambda>c. let n = (of_char c :: nat) in
     if n < 128 then [of_nat n] else [of_nat (192 + n div 64), of_nat (128 + n mod 64)]) s)"

definition is_ascii_alphanumeric :: "char \<Rightarrow> bool" where
  "is_ascii_alphanumeric c \<longleftrightarrow> (let n = (of_char c :: nat) in
     (48 \<le> n \<and> n \<le> 57) \<or> (65 \<le> n \<and> n \<le> 90) \<or> (97 \<le> n \<and> n \<le> 122))"

text \<open>\<open>char::is_whitespace\<close> on code points up to U+00FF.\<close>

definition is_whitespace :: "char \<Rightarrow> bool" where
  "is_whitespace c \<longleftrightarrow> (let n = (of_char c :: nat) in
     (9 \<le> n \<and> n \<le> 13) \<or> n = 32 \<or> n = 133 \<or> n = 160)"

definition trim_matches :: "(char \<Rightarrow> bool) \<Rightarrow> string \<Rightarrow> string" where
  "trim_matches p s = rev (dropWhile p (rev (dropWhile p s)))"

text \<open>\<open>String::from_utf8\<close>; bytes of a code point beyond U+00FF are not represented and count as
  invalid.\<close>

fun utf8_decode :: "bytes \<Rightarrow> string option" where
  "utf8_decode [] = Some []"
| "utf8_decode [b] = (if unat b < 128 then Some [char_of (unat b)] else None)"
| "utf8_decode (b # c # bs) =
     (if unat b < 128 then map_option ((#) (char_of (unat b))) (utf8_decode (c # bs))
      else if (unat b = 194 \<or> unat b = 195) \<and> 128 \<le> unat c \<and> unat c < 192
      then map_option ((#) (char_of ((unat b - 192) * 64 + (unat c - 128)))) (utf8_decode bs)
      else None)"

text \<open>\<open>str::split(c)\<close>: the pieces between the separators, at least one.\<close>

fun split_on :: "char \<Rightarrow> string \<Rightarrow> string list" where
  "split_on c [] = [[]]"
| "split_on c (x # xs) = (if x = c then [] # split_on c xs
     else (case split_on c xs of [] \<Rightarrow> [[x]] | p # ps \<Rightarrow> (x # p) # ps))"

fun join_with :: "string \<Rightarrow> string list \<Rightarrow> string" where
  "join_with sep [] = []"
| "join_with sep [p] = p"
| "join_with sep (p # ps) = p @ sep @ join_with sep ps"

lemma utf8_decode_cons:
  "unat b < 128 \<Longrightarrow> utf8_decode (b # bs) = map_option ((#) (char_of (unat b))) (utf8_decode bs)"
  by (cases bs) simp_all

lemma byte_nat: "k < 256 \<Longrightarrow> unat (of_nat k :: byte) = k"
  by (simp add: unat_of_nat take_bit_eq_mod)

lemma utf8_bytes_cons: "utf8_bytes (c # s) = utf8_bytes [c] @ utf8_bytes s"
  by (simp add: utf8_bytes_def)

lemma utf8_bytes_append [simp]: "utf8_bytes (s @ t) = utf8_bytes s @ utf8_bytes t"
  by (simp add: utf8_bytes_def)

lemma utf8_roundtrip [simp]: "utf8_decode (utf8_bytes s @ bs) = map_option ((@) s) (utf8_decode bs)"
proof (induction s)
  case Nil
  show ?case by (cases "utf8_decode bs") (simp_all add: utf8_bytes_def)
next
  case (Cons c s)
  let ?n = "of_char c :: nat"
  have n: "?n < 256" by simp
  have mo: "map_option ((#) c) (map_option ((@) s) x) = map_option ((@) (c # s)) x" for x
    by (cases x) simp_all
  show ?case
  proof (cases "?n < 128")
    case True
    then have "unat (of_nat ?n :: byte) = ?n" by (simp add: unat_of_nat)
    with True have "utf8_decode (utf8_bytes [c] @ utf8_bytes s @ bs)
        = map_option ((#) c) (utf8_decode (utf8_bytes s @ bs))"
      by (simp add: utf8_bytes_def utf8_decode_cons Let_def)
    then show ?thesis using Cons.IH mo by (subst utf8_bytes_cons) simp
  next
    case False
    let ?b = "of_nat (192 + ?n div 64) :: byte" and ?c = "of_nat (128 + ?n mod 64) :: byte"
    have d: "?n div 64 = 2 \<or> ?n div 64 = 3" using n False by linarith
    have b: "unat ?b = 192 + ?n div 64" "unat ?c = 128 + ?n mod 64"
      by (rule byte_nat, use d in linarith)+
    have "utf8_bytes [c] = [?b, ?c]" using False by (simp add: utf8_bytes_def Let_def)
    moreover have "(unat ?b - 192) * 64 + (unat ?c - 128) = ?n" unfolding b by simp
    ultimately have "utf8_decode (utf8_bytes [c] @ utf8_bytes s @ bs)
        = map_option ((#) c) (utf8_decode (utf8_bytes s @ bs))"
      using b d by auto
    then show ?thesis using Cons.IH mo by (subst utf8_bytes_cons) simp
  qed
qed

lemma split_on_nonempty [simp]: "split_on c s \<noteq> []"
  by (cases s) (auto split: list.splits)

lemma split_on_pieces: "p \<in> set (split_on c s) \<Longrightarrow> c \<notin> set p"
proof (induction s arbitrary: p)
  case Nil
  then show ?case by simp
next
  case (Cons x xs)
  then show ?case
    by (auto split: if_splits list.splits)
qed

lemma split_on_free: "c \<notin> set p \<Longrightarrow> split_on c p = [p]"
  by (induction p) auto

lemma split_on_append: "c \<notin> set p \<Longrightarrow> split_on c (p @ c # s) = p # split_on c s"
  by (induction p) auto

lemma split_join:
  assumes "ps \<noteq> []" and "\<forall>p \<in> set ps. c \<notin> set p"
  shows "split_on c (join_with [c] ps) = ps"
  using assms
proof (induction "[c]" ps rule: join_with.induct)
  case 1
  then show ?case by simp
next
  case (2 p)
  then show ?case by (simp add: split_on_free)
next
  case (3 p q ps)
  then show ?case using split_on_append [of c p] by simp
qed

lemma split_on_mid: "split_on c (a @ c # b) = split_on c a @ split_on c b"
  by (induction a) (auto split: list.splits)

lemma join_split: "join_with [c] (split_on c s) = s"
proof (induction s)
  case Nil
  then show ?case by simp
next
  case (Cons x xs)
  obtain p ps where sp: "split_on c xs = p # ps" by (cases "split_on c xs") auto
  with Cons.IH show ?case by (cases ps) auto
qed

text \<open>\<open>str::lines\<close>: the pieces before line feeds, each without a carriage return at its end, and what
  follows the last line feed.\<close>

definition strip_cr :: "string \<Rightarrow> string" where
  "strip_cr l = (if l \<noteq> [] \<and> last l = CHR 0x0D then butlast l else l)"

definition str_lines :: "string \<Rightarrow> string list" where
  "str_lines t = (let ps = split_on (CHR 0x0A) t in
     map strip_cr (butlast ps) @ (if last ps = [] then [] else [last ps]))"

section \<open>Decimal numbers\<close>

fun dec_digits :: "nat \<Rightarrow> string" where
  "dec_digits n = (if n < 10 then [char_of (48 + n)]
     else dec_digits (n div 10) @ [char_of (48 + n mod 10)])"

declare dec_digits.simps [simp del]

definition undec :: "string \<Rightarrow> nat" where
  "undec s = foldl (\<lambda>a c. 10 * a + (of_char c - 48)) 0 s"

lemma undec_digits: "undec (dec_digits n) = n"
proof (induction n rule: dec_digits.induct)
  case (1 n)
  show ?case
  proof (cases "n < 10")
    case True
    then show ?thesis by (simp add: dec_digits.simps undec_def of_char_of)
  next
    case False
    then have "undec (dec_digits n) = 10 * undec (dec_digits (n div 10)) + n mod 10"
      by (subst dec_digits.simps) (simp add: undec_def of_char_of)
    then show ?thesis using 1 False by simp
  qed
qed

text \<open>\<open>str::parse::<u64>\<close>: an optional plus sign and at least one digit; too large a number is an
  error.\<close>

definition is_digit :: "char \<Rightarrow> bool" where
  "is_digit c \<longleftrightarrow> (let n = (of_char c :: nat) in 48 \<le> n \<and> n \<le> 57)"

definition parse_nat :: "nat \<Rightarrow> string \<Rightarrow> nat option" where
  "parse_nat bound s = (let t = (if take 1 s = ''+'' then tl s else s) in
     if t \<noteq> [] \<and> list_all is_digit t \<and> undec t < bound then Some (undec t) else None)"

lemma dec_digits_digit: "c \<in> set (dec_digits n) \<Longrightarrow> is_digit c"
proof (induction n rule: dec_digits.induct)
  case (1 n)
  have d: "is_digit (char_of (48 + k))" if "k < 10" for k :: nat
    using that by (simp add: is_digit_def Let_def of_char_of)
  show ?case
  proof (cases "n < 10")
    case True
    then show ?thesis using 1(2) d by (simp add: dec_digits.simps [of n])
  next
    case False
    then consider "c \<in> set (dec_digits (n div 10))" | "c = char_of (48 + n mod 10)"
      using 1(2) by (subst (asm) dec_digits.simps) auto
    then show ?thesis using 1(1) False d by cases simp_all
  qed
qed

lemma dec_digits_nonempty [simp]: "dec_digits n \<noteq> []"
  by (subst dec_digits.simps) simp

lemma parse_dec_digits: "n < bound \<Longrightarrow> parse_nat bound (dec_digits n) = Some n"
proof -
  assume "n < bound"
  have "take 1 (dec_digits n) \<noteq> ''+''"
  proof
    assume "take 1 (dec_digits n) = ''+''"
    then have "CHR ''+'' \<in> set (dec_digits n)"
      by (cases "dec_digits n") auto
    from dec_digits_digit [OF this] show False by (simp add: is_digit_def)
  qed
  with \<open>n < bound\<close> show ?thesis
    by (auto simp: parse_nat_def Let_def undec_digits list_all_iff dec_digits_digit)
qed

section \<open>Association lists and lists\<close>

lemma map_of_update [simp]: "map_of (AList.update k v al) = (map_of al)(k \<mapsto> v)"
  by (rule AList.update_conv')

lemma map_of_delete [simp]: "map_of (AList.delete k al) = (map_of al)(k := None)"
  by (rule AList.delete_conv')

text \<open>The last \<open>n\<close> elements.\<close>

definition lastn :: "nat \<Rightarrow> 'a list \<Rightarrow> 'a list" where
  "lastn n xs = drop (length xs - n) xs"

lemma lastn_length [simp]: "length (lastn n xs) = min n (length xs)"
  by (simp add: lastn_def)

lemma lastn_all: "length xs \<le> n \<Longrightarrow> lastn n xs = xs"
  by (simp add: lastn_def)

lemma lastn_append: "lastn n (lastn n xs @ ys) = lastn n (xs @ ys)"
proof (cases "length xs \<le> n")
  case True
  then show ?thesis by (simp add: lastn_all)
next
  case False
  then show ?thesis by (auto simp: lastn_def add.commute)
qed

lemma lastn_snoc_full: "length xs = n \<Longrightarrow> 0 < n \<Longrightarrow> lastn n (xs @ [x]) = tl xs @ [x]"
  by (cases xs) (simp_all add: lastn_def)

lemma distinct_snoc_insert: "distinct xs \<Longrightarrow> distinct (if x \<in> set xs then xs else xs @ [x])"
  by simp

lemma grows_by:
  assumes "ys = xs \<or> ys = xs @ [d]" and "P d"
  shows "set xs \<subseteq> set ys \<and> (\<forall>x \<in> set ys - set xs. P x)"
  using assms by auto

lemma find_Some_mem: "find p xs = Some x \<Longrightarrow> x \<in> set xs \<and> p x"
  by (auto simp: find_Some_iff)

lemma find_None_all: "find p xs = None \<longleftrightarrow> (\<forall>x \<in> set xs. \<not> p x)"
  by (auto simp: find_None_iff)

section \<open>Concrete crates for closed examples\<close>

text \<open>A table codec and a simple set of crates that satisfy the named hypotheses. Properties
  that assume documented behaviour of the crates are applied to these in their witnesses. They
  do not model the crates.\<close>

definition table_codec :: "'a list \<Rightarrow> 'a codec" where
  "table_codec xs = \<lparr>enc = (\<lambda>v. map_option (\<lambda>i. replicate i 1) (find (\<lambda>i. xs ! i = v) [0..<length xs])),
     dec = (\<lambda>b. if length b < length xs then Some (xs ! length b) else None)\<rparr>"

lemma table_codec_ok: "codec_ok (table_codec xs)"
  by (auto simp: codec_ok_def table_codec_def dest: find_Some_mem)

definition demo_crates :: crates where
  "demo_crates = \<lparr>blake3 = (\<lambda>b. b), hash_hex = map (\<lambda>w. char_of (unat w)),
     hex_encode = map (\<lambda>w. char_of (unat w)),
     hex_decode = (\<lambda>s. Some (map (\<lambda>c. of_nat (of_char c)) s)), ed_public = (\<lambda>sk. sk), ed_key_ok = (\<lambda>_. True),
     ed_sign = (\<lambda>sk m. sk @ m), ed_verify = (\<lambda>pk m s. s = pk @ m),
     aead_seal = (\<lambda>k n a m. Some (k @ n @ a @ m)),
     aead_open = (\<lambda>k n a c. if take (length (k @ n @ a)) c = k @ n @ a
        then Some (drop (length (k @ n @ a)) c) else None),
     put_u32 = (\<lambda>w. [ucast (drop_bit 24 w), ucast (drop_bit 16 w), ucast (drop_bit 8 w), ucast w]),
     get_u32 = (\<lambda>bs. (case bs of
       [a, b, c, d] \<Rightarrow> push_bit 24 (ucast a) OR push_bit 16 (ucast b) OR push_bit 8 (ucast c) OR ucast d
     | _ \<Rightarrow> 0)),
     utf8_lossy = map (\<lambda>w. char_of (unat w))\<rparr>"

lemma demo_ed_complete: "ed_complete demo_crates"
  by (simp add: ed_complete_def demo_crates_def)

lemma demo_hex_codec: "hex_codec demo_crates"
proof -
  have "(of_nat (of_char (char_of (unat w) :: char)) :: byte) = w" for w :: byte
  proof -
    have "unat w < 256" using unsigned_less [of w, where 'a = nat] by simp
    then show ?thesis by (simp add: of_char_of)
  qed
  then show ?thesis by (simp add: hex_codec_def demo_crates_def comp_def)
qed

lemma demo_aead_complete: "aead_complete demo_crates"
  by (auto simp: aead_complete_def demo_crates_def)

lemma demo_aead_bound: "aead_bound demo_crates"
proof -
  have "take (length (k @ n @ a)) c = k @ n @ a \<Longrightarrow> length a' = length a \<Longrightarrow> a' \<noteq> a \<Longrightarrow>
      take (length (k @ n @ a')) c \<noteq> k @ n @ a'" for k n a a' c :: bytes
    by (metis append_same_eq length_append same_append_eq)
  then show ?thesis by (auto simp: aead_bound_def demo_crates_def split: if_splits)
qed

lemma demo_u32_codec: "u32_codec demo_crates"
proof -
  have "push_bit 24 (ucast (ucast (drop_bit 24 w) :: byte)) OR push_bit 16 (ucast (ucast (drop_bit 16 w) :: byte))
      OR push_bit 8 (ucast (ucast (drop_bit 8 w) :: byte)) OR ucast (ucast w :: byte) = w" for w :: u32
  proof (rule bit_word_eqI)
    fix n
    assume "n < LENGTH(32)"
    then consider "n < 8" | "8 \<le> n" "n < 16" | "16 \<le> n" "n < 24" | "24 \<le> n" "n < 32" by fastforce
    then show "bit (push_bit 24 (ucast (ucast (drop_bit 24 w) :: byte)) OR
        push_bit 16 (ucast (ucast (drop_bit 16 w) :: byte)) OR
        push_bit 8 (ucast (ucast (drop_bit 8 w) :: byte)) OR ucast (ucast w :: byte) :: u32) n = bit w n"
      by cases (auto simp: bit_simps)
  qed
  then show ?thesis by (simp add: u32_codec_def demo_crates_def)
qed

end
