(* ===== verification/Store.thy ===== *)
theory Store
  imports Prelude
begin

text \<open>
  \<open>std::fs\<close> as the node's state directory uses it: regular files, directories, whole-file reads
  and writes, renames, and write faults. The order of \<open>st_files\<close> is the order in which a
  directory is enumerated. A fault is a property of the environment: \<open>Refused\<close> leaves the file
  alone, \<open>Torn n\<close> leaves its first \<open>n\<close> new bytes behind. Paths are lists of components from the
  file system's root; symbolic links are modelled where the code meets them, in \<open>Burrow\<close>.

  On top of it: the write-to-temporary-then-rename idiom of the sources, documents that are kept
  in one file, and the \<open>persisted\<close> interface those documents offer to the components.
\<close>

type_synonym path = "string list"

datatype fault = Refused | Torn nat

record store =
  st_files :: "(path \<times> bytes) list"
  st_dirs :: "path list"
  st_wfault :: "path \<Rightarrow> fault option"
  st_rfault :: "path \<Rightarrow> bool"

definition is_dir :: "store \<Rightarrow> path \<Rightarrow> bool" where
  "is_dir s p \<longleftrightarrow> p = [] \<or> p \<in> set (st_dirs s)"

definition file_at :: "store \<Rightarrow> path \<Rightarrow> bytes option" where
  "file_at s p = map_of (st_files s) p"

text \<open>\<open>Path::exists\<close>\<close>

definition fs_exists :: "store \<Rightarrow> path \<Rightarrow> bool" where
  "fs_exists s p \<longleftrightarrow> is_dir s p \<or> file_at s p \<noteq> None"

text \<open>\<open>fs::read\<close>\<close>

definition fs_read :: "path \<Rightarrow> store \<Rightarrow> io_error + bytes" where
  "fs_read p s = (if is_dir s p then Inl (os_error IsADirectory)
     else if st_rfault s p then Inl (os_error PermissionDenied)
     else ok_or (os_error NotFound) (file_at s p))"

text \<open>\<open>fs::write\<close>: creates or truncates; the parent directory must exist.\<close>

definition put_file :: "path \<Rightarrow> bytes \<Rightarrow> store \<Rightarrow> store" where
  "put_file p b s = s\<lparr>st_files := AList.update p b (st_files s)\<rparr>"

definition fs_write :: "path \<Rightarrow> bytes \<Rightarrow> (store, io_error, unit) op" where
  "fs_write p b s =
     (if is_dir s p then (s, Inl (os_error IsADirectory))
      else if \<not> is_dir s (butlast p) then (s, Inl (os_error NotFound))
      else (case st_wfault s p of
          None \<Rightarrow> (put_file p b s, Inr ())
        | Some Refused \<Rightarrow> (s, Inl (os_error PermissionDenied))
        | Some (Torn n) \<Rightarrow> (put_file p (take n b) s, Inl (os_error StorageFull))))"

text \<open>\<open>fs::rename\<close> of a file: replaces the target in one step or fails without effect.\<close>

definition fs_rename :: "path \<Rightarrow> path \<Rightarrow> (store, io_error, unit) op" where
  "fs_rename p q s =
     (case file_at s p of
        None \<Rightarrow> (s, Inl (os_error NotFound))
      | Some b \<Rightarrow>
          if is_dir s q then (s, Inl (os_error IsADirectory))
          else if \<not> is_dir s (butlast q) then (s, Inl (os_error NotFound))
          else if st_wfault s q \<noteq> None then (s, Inl (os_error PermissionDenied))
          else (s\<lparr>st_files := AList.update q b (AList.delete p (st_files s))\<rparr>, Inr ()))"

text \<open>\<open>fs::create_dir_all\<close>\<close>

definition prefixes_of :: "path \<Rightarrow> path list" where
  "prefixes_of p = map (\<lambda>n. take n p) [1..<Suc (length p)]"

definition fs_mkdirs :: "path \<Rightarrow> (store, io_error, unit) op" where
  "fs_mkdirs p s =
     (if is_dir s p then (s, Inr ())
      else if list_ex (\<lambda>q. file_at s q \<noteq> None) (prefixes_of p) then (s, Inl (os_error NotADirectory))
      else if st_wfault s p \<noteq> None then (s, Inl (os_error PermissionDenied))
      else (s\<lparr>st_dirs := st_dirs s @ filter (\<lambda>q. \<not> is_dir s q) (prefixes_of p)\<rparr>, Inr ()))"

text \<open>\<open>fs::read_dir\<close>: the names of the entries, files and then directories, each in its order.\<close>

definition fs_list_dir :: "path \<Rightarrow> store \<Rightarrow> io_error + string list" where
  "fs_list_dir p s = (if \<not> is_dir s p then Inl (os_error NotFound)
     else Inr (map last (filter (\<lambda>q. q \<noteq> [] \<and> butlast q = p) (map fst (st_files s) @ st_dirs s))))"

text \<open>\<open>PathBuf::join\<close> with a string, the resulting path as the operating system reads it: a
  leading slash replaces the base, \<open>.\<close> and empty components vanish, \<open>..\<close> goes up.\<close>

fun walk_path :: "path \<Rightarrow> string list \<Rightarrow> path" where
  "walk_path base [] = base"
| "walk_path base (c # cs) =
     (if c = [] \<or> c = ''.'' then walk_path base cs
      else if c = ''..'' then walk_path (butlast base) cs
      else walk_path (base @ [c]) cs)"

definition path_join :: "path \<Rightarrow> string \<Rightarrow> path" where
  "path_join base s = (if take 1 s = ''/'' then walk_path [] (split_on (CHR ''/'') s)
     else walk_path base (split_on (CHR ''/'') s))"

text \<open>\<open>Path::with_extension\<close>: the part of the file name after its last dot is replaced; a name
  without a dot, or whose only dot comes first, gets the extension appended.\<close>

definition with_extension :: "string \<Rightarrow> string \<Rightarrow> string" where
  "with_extension ext name =
     (let tail = takeWhile (\<lambda>c. c \<noteq> CHR ''.'') (rev name);
          n = length name - length tail - 1 in
      if CHR ''.'' \<notin> set name \<or> n = 0 then name @ ''.'' @ ext
      else take n name @ ''.'' @ ext)"

definition plain_name :: "string \<Rightarrow> bool" where
  "plain_name c \<longleftrightarrow> c \<noteq> [] \<and> c \<noteq> ''.'' \<and> c \<noteq> ''..'' \<and> CHR ''/'' \<notin> set c"

lemma path_join_plain: "plain_name c \<Longrightarrow> path_join base c = base @ [c]"
  by (cases c) (auto simp: plain_name_def path_join_def split_on_free)

text \<open>The idiom \<open>fs::write(&tmp, bytes)?; fs::rename(tmp, path)\<close>.\<close>

definition write_then_rename :: "path \<Rightarrow> path \<Rightarrow> bytes \<Rightarrow> (store, io_error, unit) op" where
  "write_then_rename tmp p b = bindS (fs_write tmp b) (\<lambda>_. fs_rename tmp p)"

text \<open>Appending through an open file handle (\<open>write_all\<close>).\<close>

definition fs_append :: "path \<Rightarrow> bytes \<Rightarrow> (store, io_error, unit) op" where
  "fs_append p b s = (case file_at s p of
       None \<Rightarrow> (s, Inl (os_error NotFound))
     | Some c \<Rightarrow> (case st_wfault s p of
          None \<Rightarrow> (put_file p (c @ b) s, Inr ())
        | Some Refused \<Rightarrow> (s, Inl (os_error PermissionDenied))
        | Some (Torn n) \<Rightarrow> (put_file p (c @ take n b) s, Inl (os_error StorageFull))))"

text \<open>The length of a file's content, as \<open>metadata\<close> reports it.\<close>

definition file_len :: "path \<Rightarrow> store \<Rightarrow> io_error + nat" where
  "file_len p s = ok_or (os_error NotFound) (map_option length (file_at s p))"

section \<open>Facts about the store\<close>

lemma fs_append_ok: "fs_append p b s = (s', Inr u) \<Longrightarrow> \<exists>c. file_at s p = Some c \<and> s' = put_file p (c @ b) s"
  by (auto simp: fs_append_def split: option.splits fault.splits)

lemma is_dir_put_file [store_simps]: "is_dir (put_file p b s) q = is_dir s q"
  by (simp add: is_dir_def put_file_def)

lemma file_at_put_file [store_simps]:
  "file_at (put_file p b s) q = (if q = p then Some b else file_at s q)"
  by (simp add: file_at_def put_file_def)

lemma faults_put_file [store_simps]:
  "st_wfault (put_file p b s) = st_wfault s" "st_rfault (put_file p b s) = st_rfault s"
  "st_dirs (put_file p b s) = st_dirs s"
  by (simp_all add: put_file_def)

lemma fs_write_ok: "fs_write p b s = (s', Inr u) \<Longrightarrow> s' = put_file p b s"
  by (auto simp: fs_write_def split: if_splits option.splits fault.splits)

lemma fs_write_frame: "fs_write p b s = (s', r) \<Longrightarrow> q \<noteq> p \<Longrightarrow> file_at s' q = file_at s q"
  by (auto simp: fs_write_def store_simps split: if_splits option.splits fault.splits)

lemma fs_write_env:
  "fs_write p b s = (s', r) \<Longrightarrow> is_dir s' = is_dir s \<and> st_wfault s' = st_wfault s \<and>
     st_rfault s' = st_rfault s \<and> st_dirs s' = st_dirs s"
  by (auto simp: fs_write_def fun_eq_iff store_simps split: if_splits option.splits fault.splits)

lemma fs_append_frame: "fs_append p b s = (s', r) \<Longrightarrow> q \<noteq> p \<Longrightarrow> file_at s' q = file_at s q"
  by (auto simp: fs_append_def store_simps split: if_splits option.splits fault.splits)

lemma fs_append_env:
  "fs_append p b s = (s', r) \<Longrightarrow> is_dir s' = is_dir s \<and> st_wfault s' = st_wfault s \<and>
     st_rfault s' = st_rfault s"
  by (auto simp: fs_append_def fun_eq_iff store_simps split: if_splits option.splits fault.splits)

lemma fs_rename_ok:
  assumes "fs_rename p q s = (s', Inr u)" and "p \<noteq> q"
  shows "file_at s' r = (if r = q then file_at s p else if r = p then None else file_at s r)"
  using assms by (auto simp: fs_rename_def file_at_def split: if_splits option.splits)

lemma fs_rename_target: "fs_rename p q s = (s', Inr u) \<Longrightarrow> \<not> is_dir s q"
  by (auto simp: fs_rename_def split: if_splits option.splits)

lemma fs_rename_err: "fs_rename p q s = (s', Inl e) \<Longrightarrow> s' = s"
  by (auto simp: fs_rename_def split: if_splits option.splits)

lemma fs_rename_env:
  "fs_rename p q s = (s', r) \<Longrightarrow> is_dir s' = is_dir s \<and> st_wfault s' = st_wfault s \<and>
     st_rfault s' = st_rfault s \<and> st_dirs s' = st_dirs s"
  by (auto simp: fs_rename_def is_dir_def fun_eq_iff split: if_splits option.splits)

lemma fs_mkdirs_files: "fs_mkdirs p s = (s', r) \<Longrightarrow> file_at s' = file_at s"
  by (auto simp: fs_mkdirs_def file_at_def fun_eq_iff split: if_splits)

lemma fs_mkdirs_faults:
  "fs_mkdirs p s = (s', r) \<Longrightarrow> st_wfault s' = st_wfault s \<and> st_rfault s' = st_rfault s"
  by (auto simp: fs_mkdirs_def split: if_splits)

lemma fs_mkdirs_err: "fs_mkdirs p s = (s', Inl e) \<Longrightarrow> s' = s"
  by (auto simp: fs_mkdirs_def split: if_splits)

lemma prefixes_of_self: "p \<noteq> [] \<Longrightarrow> p \<in> set (prefixes_of p)"
  by (auto simp: prefixes_of_def Suc_le_eq intro!: image_eqI [of _ _ "length p"])

lemma fs_mkdirs_dir: "fs_mkdirs p s = (s', Inr u) \<Longrightarrow> is_dir s' p"
  using prefixes_of_self [of p] by (auto simp: fs_mkdirs_def is_dir_def split: if_splits)

lemma fs_mkdirs_mono: "fs_mkdirs p s = (s', r) \<Longrightarrow> is_dir s q \<Longrightarrow> is_dir s' q"
  by (auto simp: fs_mkdirs_def is_dir_def split: if_splits)

lemma fs_mkdirs_id [store_simps]: "is_dir s p \<Longrightarrow> fs_mkdirs p s = (s, Inr ())"
  by (simp add: fs_mkdirs_def)

lemma write_then_rename_env:
  assumes "write_then_rename tmp p b s = (s', r)"
  shows "is_dir s' = is_dir s \<and> st_wfault s' = st_wfault s \<and> st_rfault s' = st_rfault s
    \<and> st_dirs s' = st_dirs s"
proof -
  obtain t r1 where w: "fs_write tmp b s = (t, r1)" by (cases "fs_write tmp b s")
  show ?thesis
  proof (cases r1)
    case (Inl e)
    with assms w show ?thesis
      using fs_write_env [OF w] by (simp add: write_then_rename_def bindS_def)
  next
    case (Inr u)
    with assms w have "fs_rename tmp p t = (s', r)"
      by (simp add: write_then_rename_def bindS_def)
    then show ?thesis using fs_write_env [OF w] fs_rename_env [of tmp p t s' r] by simp
  qed
qed

text \<open>Whatever happens, files other than the temporary keep their content, except that a success
  installs the new content at the target.\<close>

lemma write_then_rename_ok:
  assumes "write_then_rename tmp p b s = (s', Inr u)" and "tmp \<noteq> p"
  shows "file_at s' q = (if q = p then Some b else if q = tmp then None else file_at s q)"
proof -
  from assms(1) obtain t where w: "fs_write tmp b s = (t, Inr ())"
    and rn: "fs_rename tmp p t = (s', Inr u)"
    by (auto simp: write_then_rename_def bindS_ok_iff)
  from fs_write_ok [OF w] have "t = put_file tmp b s" .
  with fs_rename_ok [OF rn assms(2)] show ?thesis by (auto simp: store_simps)
qed

lemma write_then_rename_err:
  assumes "write_then_rename tmp p b s = (s', Inl e)" and "q \<noteq> tmp"
  shows "file_at s' q = file_at s q"
proof -
  from assms(1) consider "fs_write tmp b s = (s', Inl e)"
    | t where "fs_write tmp b s = (t, Inr ())" "fs_rename tmp p t = (s', Inl e)"
    by (auto simp: write_then_rename_def bindS_err_iff)
  then show ?thesis
  proof cases
    case 1
    then show ?thesis using assms(2) by (rule fs_write_frame)
  next
    case 2
    from fs_rename_err [OF 2(2)] fs_write_frame [OF 2(1) assms(2)] show ?thesis by simp
  qed
qed

definition writable :: "path \<Rightarrow> store \<Rightarrow> bool" where
  "writable p s \<longleftrightarrow> \<not> is_dir s p \<and> is_dir s (butlast p) \<and> st_wfault s p = None"

lemma fs_write_total: "writable p s \<Longrightarrow> fs_write p b s = (put_file p b s, Inr ())"
  by (simp add: writable_def fs_write_def)

lemma write_then_rename_total:
  assumes "writable tmp s" and "writable p s"
  shows "\<exists>s'. write_then_rename tmp p b s = (s', Inr ())"
  using assms
  by (auto simp: write_then_rename_def bindS_def fs_write_total fs_rename_def writable_def
      store_simps)

section \<open>Files left alone\<close>

text \<open>A file that an operation leaves alone: same content, and readable as before.\<close>

definition same_file :: "path \<Rightarrow> store \<Rightarrow> store \<Rightarrow> bool" where
  "same_file q s s' \<longleftrightarrow> file_at s' q = file_at s q \<and> (\<forall>b. fs_read q s' = Inr b \<longleftrightarrow> fs_read q s = Inr b)"

lemma same_file_refl [simp]: "same_file q s s"
  by (simp add: same_file_def)

lemma same_file_trans: "same_file q s t \<Longrightarrow> same_file q t u \<Longrightarrow> same_file q s u"
  by (simp add: same_file_def)

lemma same_file_env:
  "file_at s' q = file_at s q \<Longrightarrow> is_dir s' = is_dir s \<Longrightarrow> st_rfault s' = st_rfault s \<Longrightarrow> same_file q s s'"
  by (simp add: same_file_def fs_read_def)

lemma same_file_mkdirs:
  assumes "fs_mkdirs r s = (s', x)"
  shows "same_file q s s'"
proof (cases "is_dir s r \<or> st_wfault s r \<noteq> None \<or> list_ex (\<lambda>q. file_at s q \<noteq> None) (prefixes_of r)")
  case True
  then show ?thesis using assms by (auto simp: fs_mkdirs_def split: if_splits)
next
  case False
  then have "is_dir s' q \<longleftrightarrow> is_dir s q \<or> q \<in> set (prefixes_of r)" and "st_rfault s' = st_rfault s"
    and "q \<in> set (prefixes_of r) \<Longrightarrow> file_at s q = None"
    using assms by (auto simp: fs_mkdirs_def is_dir_def list_ex_iff)
  with fs_mkdirs_files [OF assms] show ?thesis
    by (auto simp: same_file_def fs_read_def ok_or_def split: option.splits)
qed

lemma same_file_write: "fs_write p b s = (s', x) \<Longrightarrow> q \<noteq> p \<Longrightarrow> same_file q s s'"
  by (intro same_file_env) (auto dest: fs_write_env fs_write_frame)

lemma same_file_append: "fs_append p b s = (s', x) \<Longrightarrow> q \<noteq> p \<Longrightarrow> same_file q s s'"
  by (intro same_file_env) (auto dest: fs_append_env fs_append_frame)

lemma same_file_wtr:
  assumes "write_then_rename tmp p b s = (s', x)" and "tmp \<noteq> p" and "q \<noteq> tmp"
    and "q \<noteq> p \<or> (\<exists>e. x = Inl e)"
  shows "same_file q s s'"
proof (intro same_file_env)
  show "file_at s' q = file_at s q"
    using assms write_then_rename_ok [of tmp p b s s'] write_then_rename_err [of tmp p b s s' _ q]
    by (cases x) auto
qed (use write_then_rename_env [OF assms(1)] in simp_all)

lemma bindS_cases:
  assumes "bindS m f s = (s', r)"
  obtains e where "m s = (s', Inl e)" "r = Inl e"
  | a t where "m s = (t, Inr a)" "f a t = (s', r)"
  using assms by (auto simp: bindS_def split: prod.splits sum.splits)

lemma map_errS_state: "map_errS g m s = (s', r) \<Longrightarrow> \<exists>r'. m s = (s', r')"
  by (auto simp: map_errS_def split: prod.splits)

section \<open>What an operation keeps\<close>

text \<open>An operation preserves a relation when every run of it relates the state before and after.
  For a reflexive and transitive relation the rules below prove this for whatever is composed from
  the file operations; \<open>same_faults\<close> and \<open>same_file\<close> are such relations.\<close>

definition preserves :: "('s \<Rightarrow> 's \<Rightarrow> bool) \<Rightarrow> ('s, 'e, 'a) op \<Rightarrow> bool" where
  "preserves R m \<longleftrightarrow> (\<forall>s s' r. m s = (s', r) \<longrightarrow> R s s')"

lemma preservesI: "(\<And>s s' r. m s = (s', r) \<Longrightarrow> R s s') \<Longrightarrow> preserves R m"
  by (simp add: preserves_def)

lemma preservesD: "preserves R m \<Longrightarrow> m s = (s', r) \<Longrightarrow> R s s'"
  unfolding preserves_def by blast

lemma preserves_bindS:
  assumes "transp R" and "preserves R m" and "\<And>a. preserves R (f a)"
  shows "preserves R (bindS m f)"
proof (rule preservesI)
  fix s s' r assume "bindS m f s = (s', r)"
  then show "R s s'"
  proof (cases rule: bindS_cases)
    case (2 a t)
    from preservesD [OF assms(2) 2(1)] preservesD [OF assms(3) 2(2)] assms(1) show ?thesis
      by (auto dest: transpD)
  qed (use assms(2) in \<open>auto dest: preservesD\<close>)
qed

lemma preserves_pure:
  assumes "reflp R"
  shows "preserves R (ret a)" "preserves R (raise e)" "preserves R (lift_result x)" "preserves R (\<lambda>s. (s, f s))"
  using assms by (simp_all add: preserves_def ret_def raise_def lift_result_def reflpD)

definition same_faults :: "store \<Rightarrow> store \<Rightarrow> bool" where
  "same_faults s s' \<longleftrightarrow> st_wfault s' = st_wfault s \<and> st_rfault s' = st_rfault s"

lemma same_faults_preorder: "reflp same_faults" "transp same_faults"
  by (auto simp: reflp_def transp_def same_faults_def)

lemma same_file_preorder: "reflp (same_file q)" "transp (same_file q)"
  by (auto simp: reflp_def transp_def intro: same_file_trans)

lemma same_faults_fs:
  "preserves same_faults (fs_write p b)" "preserves same_faults (fs_rename p q)" "preserves same_faults (fs_mkdirs p)"
  "preserves same_faults (fs_append p b)" "preserves same_faults (write_then_rename p q b)"
  unfolding preserves_def same_faults_def
  by (auto dest: fs_write_env fs_rename_env fs_mkdirs_faults fs_append_env write_then_rename_env)

lemma same_file_fs:
  "preserves (same_file q) (fs_mkdirs p)"
  "q \<noteq> p \<Longrightarrow> preserves (same_file q) (fs_write p b)"
  "q \<noteq> p \<Longrightarrow> preserves (same_file q) (fs_append p b)"
  "tmp \<noteq> p \<Longrightarrow> q \<noteq> tmp \<Longrightarrow> q \<noteq> p \<Longrightarrow> preserves (same_file q) (write_then_rename tmp p b)"
  unfolding preserves_def
  by (blast intro: same_file_mkdirs same_file_write same_file_append same_file_wtr)+

lemmas same_faults_rules = preserves_bindS [OF same_faults_preorder(2)]
  preserves_pure [OF same_faults_preorder(1)] same_faults_fs

lemmas same_file_rules = preserves_bindS [OF same_file_preorder(2)]
  preserves_pure [OF same_file_preorder(1)] same_file_fs

section \<open>Documents kept in one file\<close>

text \<open>Loading falls back to a default when the file is missing or does not decode
  (\<open>unwrap_or_default\<close>); saving goes through a temporary.\<close>

definition load_doc :: "'v codec \<Rightarrow> 'v \<Rightarrow> path \<Rightarrow> store \<Rightarrow> 'v" where
  "load_doc c d p s = (case fs_read p s of
       Inl _ \<Rightarrow> d
     | Inr b \<Rightarrow> (case dec c b of None \<Rightarrow> d | Some v \<Rightarrow> v))"

definition codec_error :: io_error where
  "codec_error = IoError InvalidData ''codec error''"

definition encode_doc :: "'v codec \<Rightarrow> 'v \<Rightarrow> io_error + bytes" where
  "encode_doc c v = ok_or codec_error (enc c v)"

definition save_doc :: "'v codec \<Rightarrow> path \<Rightarrow> path \<Rightarrow> 'v \<Rightarrow> (store, io_error, unit) op" where
  "save_doc c tmp p v = bindS (lift_result (encode_doc c v)) (write_then_rename tmp p)"

lemma load_doc_cong:
  "file_at s' p = file_at s p \<Longrightarrow> is_dir s' p = is_dir s p \<Longrightarrow> st_rfault s' p = st_rfault s p \<Longrightarrow>
   load_doc c d p s' = load_doc c d p s"
  by (simp add: load_doc_def fs_read_def)

lemma load_doc_same:
  assumes "same_file p s s'"
  shows "load_doc c d p s' = load_doc c d p s"
proof (cases "fs_read p s")
  case (Inl e)
  then obtain e' where "fs_read p s' = Inl e'"
    using assms by (cases "fs_read p s'") (auto simp: same_file_def)
  with Inl show ?thesis by (simp add: load_doc_def)
next
  case (Inr b)
  then have "fs_read p s' = Inr b" using assms by (simp add: same_file_def)
  with Inr show ?thesis by (simp add: load_doc_def)
qed

lemma save_doc_ok:
  assumes "save_doc c tmp p v s = (s', Inr u)"
  obtains b where "enc c v = Some b" "write_then_rename tmp p b s = (s', Inr u)"
  using assms by (auto simp: save_doc_def bindS_ok_iff lift_result_def encode_doc_def bind_simps)

lemma save_doc_env:
  assumes "save_doc c tmp p v s = (s', r)"
  shows "is_dir s' = is_dir s \<and> st_wfault s' = st_wfault s \<and> st_rfault s' = st_rfault s
    \<and> st_dirs s' = st_dirs s"
proof (cases "enc c v")
  case None
  with assms show ?thesis
    by (simp add: save_doc_def bindS_def lift_result_def encode_doc_def ok_or_def)
next
  case (Some b)
  with assms have "write_then_rename tmp p b s = (s', r)"
    by (simp add: save_doc_def bindS_def lift_result_def encode_doc_def ok_or_def)
  then show ?thesis by (rule write_then_rename_env)
qed

lemma save_doc_err:
  assumes "save_doc c tmp p v s = (s', Inl e)" and "q \<noteq> tmp"
  shows "file_at s' q = file_at s q"
proof (cases "enc c v")
  case None
  with assms show ?thesis
    by (simp add: save_doc_def bindS_def lift_result_def encode_doc_def ok_or_def)
next
  case (Some b)
  with assms have "write_then_rename tmp p b s = (s', Inl e)"
    by (simp add: save_doc_def bindS_def lift_result_def encode_doc_def ok_or_def)
  then show ?thesis using assms(2) by (rule write_then_rename_err)
qed

lemma save_doc_frame:
  assumes "save_doc c tmp p v s = (s', r)" and "tmp \<noteq> p" and "q \<noteq> tmp" and "q \<noteq> p"
  shows "file_at s' q = file_at s q"
proof (cases r)
  case (Inl e)
  with assms(1) have "save_doc c tmp p v s = (s', Inl e)" by simp
  then show ?thesis using assms(3) by (rule save_doc_err)
next
  case (Inr u)
  with assms(1) obtain b where "write_then_rename tmp p b s = (s', Inr u)"
    by (auto elim: save_doc_ok)
  from write_then_rename_ok [OF this assms(2)] assms(3,4) show ?thesis by simp
qed

lemma save_doc_reads:
  assumes "save_doc c tmp p v s = (s', Inr u)" and "tmp \<noteq> p" and "\<not> st_rfault s p"
  obtains b where "enc c v = Some b" "fs_read p s' = Inr b" "file_at s' p = Some b"
proof -
  from assms(1) obtain b where b: "enc c v = Some b" "write_then_rename tmp p b s = (s', Inr u)"
    by (rule save_doc_ok)
  from write_then_rename_ok [OF b(2) assms(2)] have f: "file_at s' p = Some b" by simp
  from b(2) obtain t where "fs_write tmp b s = (t, Inr ())" "fs_rename tmp p t = (s', Inr u)"
    by (auto simp: write_then_rename_def bindS_ok_iff)
  then have "\<not> is_dir s p"
    using fs_write_env [of tmp b s] fs_rename_target [of tmp p t] by simp
  with f assms(3) write_then_rename_env [OF b(2)] have "fs_read p s' = Inr b"
    by (simp add: fs_read_def ok_or_def)
  with b(1) f show ?thesis using that by blast
qed

lemma save_doc_total:
  assumes "enc c v = Some b" and "writable tmp s" and "writable p s"
  shows "\<exists>s'. save_doc c tmp p v s = (s', Inr ())"
  using write_then_rename_total [OF assms(2,3), of b] assms(1)
  by (simp add: save_doc_def bindS_def lift_result_def encode_doc_def ok_or_def)

lemma same_file_doc:
  "tmp \<noteq> p \<Longrightarrow> q \<noteq> tmp \<Longrightarrow> q \<noteq> p \<Longrightarrow> preserves (same_file q) (save_doc c tmp p v)"
  unfolding save_doc_def by (intro same_file_rules) auto

lemma same_faults_doc: "preserves same_faults (save_doc c tmp p v)"
  unfolding save_doc_def by (intro same_faults_rules)

section \<open>The interface of a persisted document\<close>

text \<open>What a component that keeps a document relies on: a save that succeeds is what the next
  load returns, a save that fails changes nothing, and without faults a save succeeds.\<close>

locale persisted =
  fixes load :: "'s \<Rightarrow> 'v"
    and save :: "'v \<Rightarrow> 's \<Rightarrow> 's \<times> (io_error + unit)"
    and sound :: "'v \<Rightarrow> bool"
    and readable :: "'s \<Rightarrow> bool"
    and healthy :: "'s \<Rightarrow> bool"
    and storable :: "'v \<Rightarrow> bool"
  assumes load_save: "save v s = (s', Inr u) \<Longrightarrow> sound v \<Longrightarrow> readable s \<Longrightarrow> load s' = v"
    and load_fail: "save v s = (s', Inl e) \<Longrightarrow> load s' = load s"
    and readable_save: "save v s = (s', r) \<Longrightarrow> readable s' = readable s"
    and healthy_save: "save v s = (s', r) \<Longrightarrow> healthy s \<Longrightarrow> healthy s'"
    and save_total: "healthy s \<Longrightarrow> storable v \<Longrightarrow> \<exists>s'. save v s = (s', Inr ())"
begin

definition modify :: "('v \<Rightarrow> 'v) \<Rightarrow> 's \<Rightarrow> 's \<times> (io_error + unit)" where
  "modify f s = save (f (load s)) s"

lemma modify_ok:
  "modify f s = (s', Inr u) \<Longrightarrow> sound (f (load s)) \<Longrightarrow> readable s \<Longrightarrow> load s' = f (load s)"
  unfolding modify_def by (rule load_save)

lemma modify_err: "modify f s = (s', Inl e) \<Longrightarrow> load s' = load s"
  unfolding modify_def by (rule load_fail)

text \<open>A modification is all or nothing.\<close>

lemma modify_atomic:
  assumes "modify f s = (s', r)" and "sound (f (load s))" and "readable s"
  shows "load s' = load s \<or> load s' = f (load s)"
  using assms by (cases r) (auto dest: modify_ok modify_err)

text \<open>Any number of modifications, each of which may fail, keeps what every single one keeps.\<close>

fun modify_all :: "('v \<Rightarrow> 'v) list \<Rightarrow> 's \<Rightarrow> 's" where
  "modify_all [] s = s"
| "modify_all (f # fs) s = modify_all fs (fst (modify f s))"

lemma modify_all_invariant:
  assumes "\<And>v. sound v" and "readable s" and "P (load s)"
    and "\<And>f v. f \<in> set fs \<Longrightarrow> P v \<Longrightarrow> P (f v)"
  shows "P (load (modify_all fs s))"
  using assms(2-)
proof (induction fs arbitrary: s)
  case Nil
  then show ?case by simp
next
  case (Cons f fs)
  obtain s' r where m: "modify f s = (s', r)" by (cases "modify f s")
  from m have "readable s'"
    using Cons.prems(1) readable_save [of "f (load s)" s s' r] by (simp add: modify_def)
  moreover have "P (load s')"
    using modify_atomic [OF m assms(1) Cons.prems(1)] Cons.prems(2,3) by auto
  ultimately have "P (load (modify_all fs s'))"
    using Cons.IH Cons.prems(3) by (meson list.set_intros(2))
  then show ?case by (simp add: m)
qed

end

text \<open>A persisted set: the operators and revocations a core keeps. Insertion never removes.\<close>

locale persisted_set = persisted load save sound readable healthy storable
  for load :: "'s \<Rightarrow> 'k set"
    and save :: "'k set \<Rightarrow> 's \<Rightarrow> 's \<times> (io_error + unit)"
    and sound :: "'k set \<Rightarrow> bool"
    and readable :: "'s \<Rightarrow> bool"
    and healthy :: "'s \<Rightarrow> bool"
    and storable :: "'k set \<Rightarrow> bool" +
  fixes add :: "'k \<Rightarrow> 's \<Rightarrow> 's \<times> (io_error + unit)"
  assumes add_def': "add k s = save (insert k (load s)) s"
begin

lemma add_member:
  "add k s = (s', Inr u) \<Longrightarrow> sound (insert k (load s)) \<Longrightarrow> readable s \<Longrightarrow> load s' = insert k (load s)"
  by (simp add: add_def' load_save)

lemma add_failed: "add k s = (s', Inl e) \<Longrightarrow> load s' = load s"
  by (simp add: add_def' load_fail)

lemma add_mono:
  assumes "add k s = (s', r)" and "sound (insert k (load s))" and "readable s"
  shows "load s \<subseteq> load s'"
  using assms by (cases r) (auto dest: add_member add_failed)

end

text \<open>Documents of the store implement the interface.\<close>

definition doc_readable :: "path \<Rightarrow> store \<Rightarrow> bool" where
  "doc_readable p s \<longleftrightarrow> \<not> st_rfault s p"

definition doc_healthy :: "path \<Rightarrow> path \<Rightarrow> store \<Rightarrow> bool" where
  "doc_healthy tmp p s \<longleftrightarrow> writable tmp s \<and> writable p s"

definition doc_storable :: "'v codec \<Rightarrow> 'v \<Rightarrow> bool" where
  "doc_storable c v \<longleftrightarrow> enc c v \<noteq> None"

lemma doc_load_save:
  assumes "save_doc c tmp p v s = (s', Inr u)" and "tmp \<noteq> p" and "codec_ok_at c v"
    and "doc_readable p s"
  shows "load_doc c d p s' = v"
proof -
  obtain b where "enc c v = Some b" "fs_read p s' = Inr b"
    using assms by (auto simp: doc_readable_def elim: save_doc_reads)
  with assms(3) show ?thesis by (simp add: load_doc_def codec_ok_at_def)
qed

lemma doc_load_fail:
  assumes "save_doc c tmp p v s = (s', Inl e)" and "tmp \<noteq> p"
  shows "load_doc c d p s' = load_doc c d p s"
proof -
  have "p \<noteq> tmp" using assms(2) by simp
  from save_doc_err [OF assms(1) this] save_doc_env [OF assms(1)] show ?thesis
    by (intro load_doc_cong) simp_all
qed

lemma doc_persisted:
  assumes "tmp \<noteq> p"
  shows "persisted (load_doc c d p) (save_doc c tmp p) (codec_ok_at c) (doc_readable p)
    (doc_healthy tmp p) (doc_storable c)"
proof unfold_locales
  fix v s s' u
  assume "save_doc c tmp p v s = (s', Inr u)" "codec_ok_at c v" "doc_readable p s"
  then show "load_doc c d p s' = v" using assms by (auto intro: doc_load_save)
next
  fix v s s' e
  assume "save_doc c tmp p v s = (s', Inl e)"
  then show "load_doc c d p s' = load_doc c d p s" using assms by (rule doc_load_fail)
next
  fix v s s' r
  assume "save_doc c tmp p v s = (s', r)"
  from save_doc_env [OF this] show "doc_readable p s' = doc_readable p s"
    and "doc_healthy tmp p s \<Longrightarrow> doc_healthy tmp p s'"
    by (simp_all add: doc_readable_def doc_healthy_def writable_def)
next
  fix s v
  assume "doc_healthy tmp p s" "doc_storable c v"
  then show "\<exists>s'. save_doc c tmp p v s = (s', Inr ())"
    by (auto simp: doc_healthy_def doc_storable_def intro: save_doc_total)
qed

text \<open>An empty store with no faults, for closed examples.\<close>

definition fresh_store :: "path \<Rightarrow> store" where
  "fresh_store home = \<lparr>st_files = [], st_dirs = prefixes_of home, st_wfault = (\<lambda>_. None),
     st_rfault = (\<lambda>_. False)\<rparr>"

end
