(* ===== verification/Identity.thy ===== *)
theory Identity
  imports Store
begin

text \<open>
  \<open>src/identity/mod.rs\<close> and \<open>src/bootstrap/mod.rs\<close>: the Ed25519 identity a device keeps in its
  state directory, its public half and fingerprint, and the bootstrap file that pins the keys of
  core nodes to addresses.
\<close>

section \<open>Identities\<close>

datatype identity_error = IdIo io_error | InvalidFile string

record public_identity =
  public_key :: bytes

definition verifying_key :: "crates \<Rightarrow> public_identity \<Rightarrow> identity_error + bytes" where
  "verifying_key C i = (if ed_key_ok C (public_key i) then Inr (public_key i)
     else Inl (InvalidFile ''signature error''))"

definition fingerprint :: "crates \<Rightarrow> public_identity \<Rightarrow> string" where
  "fingerprint C i = hash_hex C (blake3 C (public_key i))"

record identity =
  signing_key :: bytes
  key_path :: path

text \<open>\<open>Identity::load_or_generate\<close>; \<open>seed\<close> is what the random generator would give.\<close>

definition load_or_generate :: "bytes \<Rightarrow> path \<Rightarrow> (store, identity_error, identity) op" where
  "load_or_generate seed dir = bindS (map_errS IdIo (fs_mkdirs dir)) (\<lambda>_ s.
     let p = dir @ [''identity.key''] in
     if fs_exists s p then
       (case fs_read p s of
          Inl e \<Rightarrow> (s, Inl (IdIo e))
        | Inr b \<Rightarrow>
            if length b \<noteq> 32
            then (s, Inl (InvalidFile ''private key must contain exactly 32 bytes''))
            else (s, Inr \<lparr>signing_key = b, key_path = p\<rparr>))
     else bindS (map_errS IdIo (write_then_rename (dir @ [''identity.key.tmp'']) p seed))
            (\<lambda>_. ret \<lparr>signing_key = seed, key_path = p\<rparr>) s)"

definition public_of :: "crates \<Rightarrow> identity \<Rightarrow> public_identity" where
  "public_of C i = \<lparr>public_key = ed_public C (signing_key i)\<rparr>"

definition sign_with :: "crates \<Rightarrow> identity \<Rightarrow> bytes \<Rightarrow> bytes" where
  "sign_with C i m = ed_sign C (signing_key i) m"

text \<open>Verification of a signature against an identity's key, the way every caller does it:
  the key must decode, and the signature must verify.\<close>

definition verifies :: "crates \<Rightarrow> public_identity \<Rightarrow> bytes \<Rightarrow> bytes \<Rightarrow> bool" where
  "verifies C i m sig \<longleftrightarrow> ed_key_ok C (public_key i) \<and> ed_verify C (public_key i) m sig"

lemma verifies_own: "ed_complete C \<Longrightarrow> verifies C (public_of C i) m (sign_with C i m)"
  by (simp add: verifies_def public_of_def sign_with_def ed_complete_def)

lemma map_errS_ok: "map_errS g m s = (s', Inr a) \<longleftrightarrow> m s = (s', Inr a)"
  by (auto simp: map_errS_def bind_simps split: prod.splits)

lemma map_errS_err: "map_errS g m s = (s', Inl f) \<longleftrightarrow> (\<exists>e. m s = (s', Inl e) \<and> f = g e)"
  by (auto simp: map_errS_def bind_simps split: prod.splits)

text \<open>A successful start leaves a key file that holds exactly the key in use.\<close>

lemma load_or_generate_ok:
  assumes "load_or_generate seed dir s = (s', Inr i)" and "length seed = 32"
    and "\<not> st_rfault s (dir @ [''identity.key''])"
  shows "fs_read (key_path i) s' = Inr (signing_key i)" "length (signing_key i) = 32"
    "key_path i = dir @ [''identity.key'']" "is_dir s' dir"
proof -
  let ?p = "dir @ [''identity.key'']" and ?t = "dir @ [''identity.key.tmp'']"
  from assms(1) obtain s1 where mk: "fs_mkdirs dir s = (s1, Inr ())"
    by (auto simp: load_or_generate_def bindS_ok_iff map_errS_ok)
  have rf: "\<not> st_rfault s1 ?p" using fs_mkdirs_faults [OF mk] assms(3) by simp
  have d1: "is_dir s1 dir" using mk by (rule fs_mkdirs_dir)
  have "fs_read (key_path i) s' = Inr (signing_key i) \<and> length (signing_key i) = 32 \<and>
      key_path i = ?p \<and> is_dir s' dir"
  proof (cases "fs_exists s1 ?p")
    case True
    with assms(1) mk d1 show ?thesis
      by (auto simp: load_or_generate_def bindS_def map_errS_def map_err_def Let_def
          split: sum.splits if_splits)
  next
    case False
    with assms(1) mk have w: "write_then_rename ?t ?p seed s1 = (s', Inr ())"
      and i: "i = \<lparr>signing_key = seed, key_path = ?p\<rparr>"
      by (auto simp: load_or_generate_def bindS_ok_iff map_errS_ok Let_def ret_def)
    have "file_at s' ?p = Some seed"
      using write_then_rename_ok [OF w] by simp
    moreover have "\<not> is_dir s' ?p" "\<not> st_rfault s' ?p" "is_dir s' dir"
      using write_then_rename_env [OF w] False rf d1 by (auto simp: fs_exists_def)
    ultimately show ?thesis using i assms(2) by (simp add: fs_read_def ok_or_def)
  qed
  then show "fs_read (key_path i) s' = Inr (signing_key i)" "length (signing_key i) = 32"
    "key_path i = dir @ [''identity.key'']" "is_dir s' dir" by auto
qed

text \<open>A start never touches an existing key file, nor any other file but its temporary.\<close>

lemma load_or_generate_keeps:
  assumes "load_or_generate seed dir s = (s', r)" and "file_at s p = Some b"
    and "p \<noteq> dir @ [''identity.key.tmp'']"
  shows "file_at s' p = Some b"
proof -
  let ?p = "dir @ [''identity.key'']" and ?t = "dir @ [''identity.key.tmp'']"
  obtain s1 r1 where mk: "fs_mkdirs dir s = (s1, r1)" by (cases "fs_mkdirs dir s")
  have f1: "file_at s1 p = Some b" using fs_mkdirs_files [OF mk] assms(2) by simp
  show ?thesis
  proof (cases "r1 = Inr () \<and> \<not> fs_exists s1 ?p")
    case False
    with assms(1) mk f1 show ?thesis
      by (auto simp: load_or_generate_def bindS_def map_errS_def map_err_def Let_def
          split: sum.splits if_splits)
  next
    case True
    then have "p \<noteq> ?p" using f1 by (auto simp: fs_exists_def)
    obtain r2 where w: "write_then_rename ?t ?p seed s1 = (s', r2)"
      using assms(1) mk True
      by (auto simp: load_or_generate_def bindS_def map_errS_def map_err_def Let_def ret_def
          split: sum.splits prod.splits)
    show ?thesis
    proof (cases r2)
      case (Inl e)
      with write_then_rename_err [of ?t ?p seed s1 s' e p] w f1 assms(3) show ?thesis by simp
    next
      case (Inr u)
      with write_then_rename_ok [of ?t ?p seed s1 s' u p] w f1 assms(3) \<open>p \<noteq> ?p\<close>
      show ?thesis by simp
    qed
  qed
qed

text \<open>C31: a device that has started once keeps its identity. Whatever the random generator gives
  later, the next start reads the same key back and changes no file.\<close>

theorem identity_survives_restart:
  assumes "load_or_generate seed dir s = (s', Inr i)" and "length seed = 32"
    and "\<not> st_rfault s (dir @ [''identity.key''])"
  shows "load_or_generate seed' dir s' = (s', Inr i)"
proof -
  note ok = load_or_generate_ok [OF assms]
  then have "fs_exists s' (dir @ [''identity.key''])"
    by (auto simp: fs_exists_def fs_read_def bind_simps split: if_splits)
  with ok show ?thesis
    by (cases i) (simp add: load_or_generate_def bindS_def map_errS_def map_err_def store_simps)
qed

text \<open>Witness: a first start in an empty home.\<close>

lemma identity_survives_restart_witness:
  "let s = fresh_store [''h'']; s' = fst (load_or_generate (replicate 32 7) [''h'', ''id''] s) in
     load_or_generate (replicate 32 9) [''h'', ''id''] s' =
       (s', Inr \<lparr>signing_key = replicate 32 7, key_path = [''h'', ''id'', ''identity.key'']\<rparr>)"
proof -
  let ?s = "fresh_store [''h'']"
  let ?r = "load_or_generate (replicate 32 7) [''h'', ''id''] ?s"
  have "snd ?r = Inr \<lparr>signing_key = replicate 32 7, key_path = [''h'', ''id'', ''identity.key'']\<rparr>"
    by code_simp
  then have "?r = (fst ?r, Inr \<lparr>signing_key = replicate 32 7,
      key_path = [''h'', ''id'', ''identity.key'']\<rparr>)"
    by (metis prod.collapse)
  from identity_survives_restart [OF this, of "replicate 32 9"] show ?thesis
    by (simp add: fresh_store_def)
qed

section \<open>Bootstrap entries\<close>

type_synonym socket_addr = "string \<times> u16"

record bootstrap_entry =
  be_address :: socket_addr
  pinned_public_key :: bytes

datatype bootstrap_error = BootIo io_error | Format string | InvalidKey

definition trusts :: "bootstrap_entry \<Rightarrow> public_identity \<Rightarrow> bool" where
  "trusts e i \<longleftrightarrow> pinned_public_key e = public_key i"

text \<open>The \<open>hex_key\<close> module: a key is written as a hex string and read back with a length check.\<close>

definition hex_key_serialize :: "crates \<Rightarrow> bytes \<Rightarrow> string" where
  "hex_key_serialize C k = hex_encode C k"

definition hex_key_deserialize :: "crates \<Rightarrow> string \<Rightarrow> string + bytes" where
  "hex_key_deserialize C s = (case hex_decode C s of
       None \<Rightarrow> Inl ''invalid hex''
     | Some k \<Rightarrow> if length k = 32 then Inr k
         else Inl ''expected 64 hex characters (32 bytes)'')"

definition parse_entry :: "crates \<Rightarrow> socket_addr \<times> string \<Rightarrow> bootstrap_error + bootstrap_entry" where
  "parse_entry C r = map_err Format (bindR (hex_key_deserialize C (snd r))
     (\<lambda>k. Inr \<lparr>be_address = fst r, pinned_public_key = k\<rparr>))"

text \<open>The JSON document is a list of addresses with hex strings.\<close>

definition load_bootstrap ::
    "crates \<Rightarrow> (socket_addr \<times> string) list codec \<Rightarrow> path \<Rightarrow> store \<Rightarrow> bootstrap_error + bootstrap_entry list"
  where
  "load_bootstrap C J p s = bindR (map_err BootIo (fs_read p s)) (\<lambda>b.
     bindR (ok_or (Format ''invalid JSON'') (dec J b)) (mapR (parse_entry C)))"

definition save_bootstrap ::
    "crates \<Rightarrow> (socket_addr \<times> string) list codec \<Rightarrow> path \<Rightarrow> bootstrap_entry list \<Rightarrow>
     (store, bootstrap_error, unit) op"
  where
  "save_bootstrap C J p es =
     bindS (lift_result (ok_or (Format ''not serializable'')
         (enc J (map (\<lambda>e. (be_address e, hex_key_serialize C (pinned_public_key e))) es))))
       (\<lambda>b. map_errS BootIo (fs_write p b))"

lemma hex_key_roundtrip:
  "hex_codec C \<Longrightarrow> length k = 32 \<Longrightarrow> hex_key_deserialize C (hex_key_serialize C k) = Inr k"
  by (simp add: hex_key_deserialize_def hex_key_serialize_def hex_codec_def)

lemma parse_entry_key: "parse_entry C r = Inr e \<Longrightarrow> length (pinned_public_key e) = 32"
  by (auto simp: parse_entry_def bind_simps hex_key_deserialize_def
      split: option.splits if_splits)

lemma load_bootstrap_keys:
  assumes "load_bootstrap C J p s = Inr es" and "e \<in> set es"
  shows "length (pinned_public_key e) = 32"
proof -
  from assms(1) obtain raw where r: "mapR (parse_entry C) raw = Inr es"
    by (auto simp: load_bootstrap_def bind_simps)
  from assms(2) obtain n where "n < length es" "e = es ! n" by (auto simp: in_set_conv_nth)
  with mapR_ok_length [OF r] mapR_ok_nth [OF r, of n] show ?thesis
    by (auto intro: parse_entry_key)
qed



end
