(* ===== verification/CoreNode.thy ===== *)
theory CoreNode
  imports Identity
begin

text \<open>
  \<open>src/core/mod.rs\<close> and \<open>src/core/replication.rs\<close>: the in-memory primitives of a core node: an
  index of immutable chunks by hash, access lists, revocations, gated reads and the plan of a
  reconciliation.
\<close>

record acl =
  readers :: "public_identity set"

definition acl_allows :: "acl \<Rightarrow> public_identity \<Rightarrow> bool" where
  "acl_allows a i \<longleftrightarrow> i \<in> readers a"

record chunk_index =
  ci_chunks :: "bytes \<rightharpoonup> bytes"

definition ci_empty :: chunk_index where
  "ci_empty = \<lparr>ci_chunks = Map.empty\<rparr>"

text \<open>\<open>ChunkIndex::insert\<close>: the data must hash to its key; an entry that exists stays.\<close>

definition ci_insert :: "crates \<Rightarrow> bytes \<Rightarrow> bytes \<Rightarrow> chunk_index \<Rightarrow> chunk_index \<times> bool" where
  "ci_insert C h d ci =
     (if blake3 C d \<noteq> h then (ci, False)
      else (ci\<lparr>ci_chunks := (case ci_chunks ci h of
              None \<Rightarrow> (ci_chunks ci)(h \<mapsto> d) | Some _ \<Rightarrow> ci_chunks ci)\<rparr>, True))"

definition ci_get :: "chunk_index \<Rightarrow> bytes \<Rightarrow> bytes option" where
  "ci_get ci h = ci_chunks ci h"

record revocation_state =
  rv_revoked :: "public_identity set"
  rv_epoch :: u64

definition rv_init :: revocation_state where
  "rv_init = \<lparr>rv_revoked = {}, rv_epoch = 0\<rparr>"

definition revoke :: "public_identity \<Rightarrow> revocation_state \<Rightarrow> revocation_state" where
  "revoke i r = r\<lparr>rv_revoked := insert i (rv_revoked r), rv_epoch := rv_epoch r + 1\<rparr>"

definition is_revoked :: "revocation_state \<Rightarrow> public_identity \<Rightarrow> bool" where
  "is_revoked r i \<longleftrightarrow> i \<in> rv_revoked r"

record core_node =
  cn_identity :: public_identity
  cn_chunks :: chunk_index
  cn_revocations :: revocation_state

definition core_new :: "public_identity \<Rightarrow> core_node" where
  "core_new i = \<lparr>cn_identity = i, cn_chunks = ci_empty, cn_revocations = rv_init\<rparr>"

definition read_chunk :: "core_node \<Rightarrow> public_identity \<Rightarrow> acl \<Rightarrow> bytes \<Rightarrow> io_error + bytes" where
  "read_chunk n i a h =
     (if is_revoked (cn_revocations n) i \<or> \<not> acl_allows a i
      then Inl (IoError PermissionDenied ''access denied'')
      else ok_or (IoError NotFound ''chunk not found'') (ci_get (cn_chunks n) h))"

text \<open>\<open>replication::plan\<close>\<close>

definition reconcile_plan :: "chunk_index \<Rightarrow> bytes list \<Rightarrow> bytes list" where
  "reconcile_plan ci remote = filter (\<lambda>h. ci_get ci h = None) remote"

section \<open>The operations of a core node and its invariant\<close>

datatype core_op = InsertChunk bytes bytes | RevokeId public_identity

fun core_step :: "crates \<Rightarrow> core_op \<Rightarrow> core_node \<Rightarrow> core_node" where
  "core_step C (InsertChunk h d) n = n\<lparr>cn_chunks := fst (ci_insert C h d (cn_chunks n))\<rparr>"
| "core_step C (RevokeId i) n = n\<lparr>cn_revocations := revoke i (cn_revocations n)\<rparr>"

definition core_run :: "crates \<Rightarrow> core_op list \<Rightarrow> core_node \<Rightarrow> core_node" where
  "core_run C ops n = fold (core_step C) ops n"

definition content_addressed :: "crates \<Rightarrow> chunk_index \<Rightarrow> bool" where
  "content_addressed C ci \<longleftrightarrow> (\<forall>h d. ci_get ci h = Some d \<longrightarrow> blake3 C d = h)"

lemma ci_insert_content:
  "content_addressed C ci \<Longrightarrow> content_addressed C (fst (ci_insert C h d ci))"
  by (auto simp: content_addressed_def ci_insert_def ci_get_def split: option.splits)

lemma ci_insert_keeps: "ci_get ci h = Some d \<Longrightarrow> ci_get (fst (ci_insert C k e ci)) h = Some d"
  by (auto simp: ci_insert_def ci_get_def split: option.splits)

lemma ci_insert_present:
  "snd (ci_insert C h d ci) \<Longrightarrow> \<exists>e. ci_get (fst (ci_insert C h d ci)) h = Some e"
  by (auto simp: ci_insert_def ci_get_def split: option.splits if_splits)

lemma core_step_content:
  "content_addressed C (cn_chunks n) \<Longrightarrow> content_addressed C (cn_chunks (core_step C x n))"
  by (cases x) (simp_all add: ci_insert_content)

lemma core_step_revoked:
  "is_revoked (cn_revocations n) i \<Longrightarrow> is_revoked (cn_revocations (core_step C x n)) i"
  by (cases x) (simp_all add: is_revoked_def revoke_def)

lemma core_run_content:
  "content_addressed C (cn_chunks n) \<Longrightarrow> content_addressed C (cn_chunks (core_run C ops n))"
  unfolding core_run_def by (induction ops arbitrary: n) (simp_all add: core_step_content)

lemma core_run_revoked:
  "is_revoked (cn_revocations n) i \<Longrightarrow> is_revoked (cn_revocations (core_run C ops n)) i"
  unfolding core_run_def by (induction ops arbitrary: n) (simp_all add: core_step_revoked)

lemma content_addressed_empty: "content_addressed C (cn_chunks (core_new i))"
  by (simp add: content_addressed_def core_new_def ci_empty_def ci_get_def)

text \<open>C21: in every state a core reaches, whatever it serves hashes to what was asked for, and it
  serves only readers who are on the list and not revoked.\<close>

theorem core_read_safe:
  assumes "read_chunk (core_run C ops (core_new me)) i a h = Inr d"
  shows "blake3 C d = h \<and> i \<in> readers a \<and> RevokeId i \<notin> set ops"
proof -
  let ?n = "core_run C ops (core_new me)"
  have "blake3 C d = h"
    using assms core_run_content [OF content_addressed_empty, of C ops me]
    by (auto simp: read_chunk_def content_addressed_def bind_simps split: if_splits)
  moreover have "RevokeId i \<notin> set ops"
  proof
    assume "RevokeId i \<in> set ops"
    then obtain xs ys where "ops = xs @ RevokeId i # ys" by (meson split_list)
    then have "is_revoked (cn_revocations ?n) i"
      using core_run_revoked [of "core_step C (RevokeId i) (core_run C xs (core_new me))" i C ys]
      by (simp add: core_run_def is_revoked_def revoke_def)
    with assms show False by (simp add: read_chunk_def)
  qed
  ultimately show ?thesis
    using assms by (auto simp: read_chunk_def acl_allows_def split: if_splits)
qed

text \<open>Witness: a reader fetches a chunk from a core that has revoked somebody else.\<close>

lemma core_read_safe_witness:
  "blake3 demo_crates [1, 2] = [1, 2] \<and> \<lparr>public_key = [7]\<rparr> \<in> readers \<lparr>readers = {\<lparr>public_key = [7]\<rparr>}\<rparr>
     \<and> RevokeId \<lparr>public_key = [7]\<rparr> \<notin> set [InsertChunk [1, 2] [1, 2], RevokeId \<lparr>public_key = [8]\<rparr>]"
  by (rule core_read_safe [of demo_crates _ "\<lparr>public_key = [0]\<rparr>"])
    (simp add: core_run_def core_new_def read_chunk_def demo_crates_def ci_insert_def ci_empty_def
      ci_get_def revoke_def rv_init_def is_revoked_def acl_allows_def ok_or_def)

text \<open>A reconciliation: insert what a peer supplies for the planned hashes.\<close>

definition reconcile :: "crates \<Rightarrow> (bytes \<times> bytes) list \<Rightarrow> chunk_index \<Rightarrow> chunk_index" where
  "reconcile C supplied ci = fold (\<lambda>(h, d) c. fst (ci_insert C h d c)) supplied ci"

lemma reconcile_keeps: "ci_get ci h = Some d \<Longrightarrow> ci_get (reconcile C xs ci) h = Some d"
  unfolding reconcile_def by (induction xs arbitrary: ci) (auto simp: ci_insert_keeps)

lemma reconcile_present:
  assumes "(h, d) \<in> set xs" and "blake3 C d = h"
  shows "ci_get (reconcile C xs ci) h \<noteq> None"
proof -
  from assms(1) obtain us vs where xs: "xs = us @ (h, d) # vs" by (meson split_list)
  let ?c = "fst (ci_insert C h d (reconcile C us ci))"
  have "\<exists>e. ci_get ?c h = Some e" using assms(2) by (intro ci_insert_present) (simp add: ci_insert_def)
  then have "\<exists>e. ci_get (reconcile C vs ?c) h = Some e" using reconcile_keeps by blast
  then show ?thesis by (simp add: xs reconcile_def)
qed

text \<open>After copying correct data for every planned hash, nothing is left to plan, and no chunk
  that was held before has changed.\<close>

theorem reconcile_completes:
  assumes "\<forall>h \<in> set (reconcile_plan ci remote). \<exists>d. (h, d) \<in> set supplied \<and> blake3 C d = h"
  shows "reconcile_plan (reconcile C supplied ci) remote = []
    \<and> (\<forall>h d. ci_get ci h = Some d \<longrightarrow> ci_get (reconcile C supplied ci) h = Some d)"
proof -
  have "ci_get (reconcile C supplied ci) h \<noteq> None" if "h \<in> set remote" for h
  proof (cases "ci_get ci h")
    case None
    with that assms show ?thesis by (auto simp: reconcile_plan_def dest: reconcile_present)
  next
    case (Some d)
    then show ?thesis by (simp add: reconcile_keeps)
  qed
  then show ?thesis by (auto simp: reconcile_plan_def reconcile_keeps filter_empty_conv)
qed

text \<open>Witness: a core that holds one chunk is supplied with the other one a peer has.\<close>

lemma reconcile_completes_witness:
  "let ci = fst (ci_insert demo_crates [1] [1] ci_empty); c' = reconcile demo_crates [([5], [5])] ci in
     reconcile_plan ci [[1], [5]] = [[5]] \<and> reconcile_plan c' [[1], [5]] = [] \<and> ci_get c' [1] = Some [1]"
proof -
  let ?c = "fst (ci_insert demo_crates [1] [1] ci_empty)"
  have p: "reconcile_plan ?c [[1], [5]] = [[5]]" "ci_get ?c [1] = Some [1]"
    by (simp_all add: reconcile_plan_def ci_get_def ci_insert_def ci_empty_def demo_crates_def)
  have "\<forall>h \<in> set (reconcile_plan ?c [[1], [5]]). \<exists>d. (h, d) \<in> set [([5], [5])] \<and> blake3 demo_crates d = h"
    unfolding p by (simp add: demo_crates_def)
  from reconcile_completes [OF this] p show ?thesis by (simp add: Let_def)
qed

end
