(* ===== verification/Protocol.thy ===== *)
theory Protocol
  imports Identity
begin

text \<open>
  \<open>src/protocol/mod.rs\<close>: protocol versions and feature negotiation, the HELLO message, and the
  challenge signature. A signature covers the verifier's own HELLO and challenge and is checked
  against the key in the signer's HELLO. A HELLO that cannot be serialised is a panic in the code
  (\<open>expect\<close>); here it is the value \<open>None\<close>.
\<close>

definition PROTOCOL_MAJOR :: u16 where "PROTOCOL_MAJOR = 1"
definition PROTOCOL_MINOR :: u16 where "PROTOCOL_MINOR = 0"

record protocol_version =
  v_major :: u16
  v_minor :: u16

record hello =
  h_version :: protocol_version
  h_features :: "string list"
  h_identity :: public_identity
  h_session :: bytes

record challenge =
  c_nonce :: bytes

record signature_message =
  s_signature :: bytes

record negotiated_protocol =
  n_version :: protocol_version
  n_features :: "string list"

datatype protocol_error = MajorMismatch u16 u16 | InvalidSignature

definition new_hello :: "crates \<Rightarrow> identity \<Rightarrow> string list \<Rightarrow> bytes \<Rightarrow> hello" where
  "new_hello C i fs sid = \<lparr>h_version = \<lparr>v_major = PROTOCOL_MAJOR, v_minor = PROTOCOL_MINOR\<rparr>,
     h_features = fs, h_identity = public_of C i, h_session = sid\<rparr>"

definition negotiate ::
    "protocol_version \<Rightarrow> string list \<Rightarrow> protocol_version \<Rightarrow> string list \<Rightarrow>
     protocol_error + negotiated_protocol" where
  "negotiate l lfs r rfs =
     (if v_major l \<noteq> v_major r then Inl (MajorMismatch (v_major l) (v_major r))
      else Inr \<lparr>n_version = \<lparr>v_major = v_major l, v_minor = min (v_minor l) (v_minor r)\<rparr>,
        n_features = sort (filter (\<lambda>f. list_ex (\<lambda>g. g = f) rfs) lfs)\<rparr>)"

definition challenge_payload :: "hello codec \<Rightarrow> hello \<Rightarrow> challenge \<Rightarrow> bytes option" where
  "challenge_payload H h c = map_option (\<lambda>b. b @ c_nonce c) (enc H h)"

definition sign_challenge ::
    "crates \<Rightarrow> hello codec \<Rightarrow> identity \<Rightarrow> hello \<Rightarrow> challenge \<Rightarrow> signature_message option" where
  "sign_challenge C H i h c =
     map_option (\<lambda>p. \<lparr>s_signature = sign_with C i p\<rparr>) (challenge_payload H h c)"

definition verify_challenge ::
    "crates \<Rightarrow> hello codec \<Rightarrow> hello \<Rightarrow> challenge \<Rightarrow> public_identity \<Rightarrow> signature_message \<Rightarrow>
     (protocol_error + unit) option" where
  "verify_challenge C H h c signer m =
     (if \<not> is_ok (verifying_key C signer) then Some (Inl InvalidSignature)
      else map_option (\<lambda>p. if ed_verify C (public_key signer) p (s_signature m)
             then Inr () else Inl InvalidSignature) (challenge_payload H h c))"

lemma verify_challenge_ok:
  "verify_challenge C H h c signer m = Some (Inr u) \<longleftrightarrow>
     (\<exists>p. challenge_payload H h c = Some p \<and> verifies C signer p (s_signature m))"
  by (auto simp: verify_challenge_def verifying_key_def verifies_def split: if_splits)

lemma sign_verify:
  assumes "ed_complete C" and "sign_challenge C H i h c = Some m"
  shows "verify_challenge C H h c (public_of C i) m = Some (Inr ())"
  using assms by (auto simp: verify_challenge_ok sign_challenge_def verifies_own)

section \<open>Negotiation\<close>

lemma negotiate_features:
  "negotiate l lfs r rfs = Inr n \<Longrightarrow> set (n_features n) = set lfs \<inter> set rfs"
  by (auto simp: negotiate_def list_ex_iff split: if_splits)

lemma common_features_comm:
  assumes "distinct lfs" and "distinct rfs"
  shows "sort (filter (\<lambda>f. list_ex (\<lambda>g. g = f) rfs) lfs)
    = sort (filter (\<lambda>f. list_ex (\<lambda>g. g = f) lfs) rfs)"
  using assms by (intro sorted_distinct_set_unique) (auto simp: list_ex_iff)

text \<open>C33: negotiation is symmetric. Two peers that list each feature once agree on the same version
  and the same feature list, whichever of them computes it; they fail together, each naming both
  major versions.\<close>

theorem negotiate_agrees:
  assumes "distinct lfs" and "distinct rfs"
  shows "(case negotiate l lfs r rfs of
      Inr n \<Rightarrow> negotiate r rfs l lfs = Inr n
    | Inl e \<Rightarrow> e = MajorMismatch (v_major l) (v_major r) \<and> v_major l \<noteq> v_major r \<and>
        negotiate r rfs l lfs = Inl (MajorMismatch (v_major r) (v_major l)))"
proof (cases "v_major l = v_major r")
  case True
  with common_features_comm [OF assms] show ?thesis by (simp add: negotiate_def min.commute)
next
  case False
  then show ?thesis by (auto simp: negotiate_def)
qed

lemma negotiate_agrees_witness:
  "negotiate \<lparr>v_major = 1, v_minor = 2\<rparr> [''a'', ''b''] \<lparr>v_major = 1, v_minor = 1\<rparr> [''b'', ''c'']
     = Inr \<lparr>n_version = \<lparr>v_major = 1, v_minor = 1\<rparr>, n_features = [''b'']\<rparr> \<and>
   negotiate \<lparr>v_major = 1, v_minor = 1\<rparr> [''b'', ''c''] \<lparr>v_major = 1, v_minor = 2\<rparr> [''a'', ''b'']
     = Inr \<lparr>n_version = \<lparr>v_major = 1, v_minor = 1\<rparr>, n_features = [''b'']\<rparr>"
proof -
  have d: "distinct [''a'', ''b'']" "distinct [''b'', ''c'']" by simp_all
  have n: "negotiate \<lparr>v_major = 1, v_minor = 2\<rparr> [''a'', ''b''] \<lparr>v_major = 1, v_minor = 1\<rparr> [''b'', ''c'']
     = Inr \<lparr>n_version = \<lparr>v_major = 1, v_minor = 1\<rparr>, n_features = [''b'']\<rparr>"
    by (simp add: negotiate_def)
  with negotiate_agrees [OF d, of "\<lparr>v_major = 1, v_minor = 2\<rparr>" "\<lparr>v_major = 1, v_minor = 1\<rparr>"]
  show ?thesis by simp
qed

end
