(* ===== verification/Transport.thy ===== *)
theory Transport
  imports Protocol
begin

text \<open>
  \<open>src/transport/mod.rs\<close>: length-prefixed frames and the mutual handshake HELLO, CHALLENGE,
  SIGNATURE, with the pinned variant and the bootstrap variant that selects the pin by the peer's
  address. A connection is its two byte streams: \<open>inp\<close> is what the peer sends before it closes,
  \<open>outp\<close> what was written so far; writing to a connection the peer has closed fails.
\<close>

section \<open>Frames\<close>

definition MAX_FRAME :: nat where "MAX_FRAME = 1024 * 1024"

record duplex =
  inp :: bytes
  outp :: bytes
  wr_open :: bool

definition frame_bytes :: "crates \<Rightarrow> bytes \<Rightarrow> bytes" where
  "frame_bytes C p = put_u32 C (of_nat (length p)) @ p"

definition write_frame :: "crates \<Rightarrow> bytes \<Rightarrow> (duplex, io_error, unit) op" where
  "write_frame C p d =
     (if length p > MAX_FRAME then (d, Inl (IoError InvalidInput ''frame too large''))
      else if \<not> wr_open d then (d, Inl (os_error BrokenPipe))
      else (d\<lparr>outp := outp d @ frame_bytes C p\<rparr>, Inr ()))"

text \<open>One frame off a byte stream; \<open>vec![0; len]\<close> is allocated only after the length check.\<close>

definition split_frame :: "crates \<Rightarrow> bytes \<Rightarrow> io_error + bytes \<times> bytes" where
  "split_frame C b =
     (if length b < 4 then Inl (os_error UnexpectedEof)
      else let n = unat (get_u32 C (take 4 b)); rest = drop 4 b in
        if n > MAX_FRAME then Inl (IoError InvalidData ''frame too large'')
        else if length rest < n then Inl (os_error UnexpectedEof)
        else Inr (take n rest, drop n rest))"

definition read_frame :: "crates \<Rightarrow> (duplex, io_error, bytes) op" where
  "read_frame C d = (case split_frame C (inp d) of
       Inl e \<Rightarrow> (d, Inl e)
     | Inr (p, rest) \<Rightarrow> (d\<lparr>inp := rest\<rparr>, Inr p))"

text \<open>The framing contract its clients use: what was framed comes back with the rest of the
  stream untouched, every frame is bounded, and reading makes progress.\<close>

locale framing =
  fixes render :: "'p \<Rightarrow> 'b list"
    and fits :: "'p \<Rightarrow> bool"
    and take_frame :: "'b list \<Rightarrow> 'e + 'p \<times> 'b list"
    and weight :: "'p \<Rightarrow> nat"
    and limit :: nat
  assumes take_render: "fits p \<Longrightarrow> take_frame (render p @ rest) = Inr (p, rest)"
    and take_bounded: "take_frame b = Inr (p, rest) \<Longrightarrow> weight p \<le> limit"
    and take_shorter: "take_frame b = Inr (p, rest) \<Longrightarrow> length rest < length b"
begin

text \<open>All frames of a stream, up to the first that is not one.\<close>

function take_all :: "'b list \<Rightarrow> 'p list" where
  "take_all b = (case take_frame b of Inl _ \<Rightarrow> [] | Inr (p, rest) \<Rightarrow> p # take_all rest)"
  by pat_completeness auto
termination
  by (relation "measure length") (auto dest: take_shorter)

declare take_all.simps [simp del]

lemma take_all_bounded: "p \<in> set (take_all b) \<Longrightarrow> weight p \<le> limit"
proof (induction b rule: take_all.induct)
  case (1 b)
  show ?case
  proof (cases "take_frame b")
    case (Inl e)
    with 1 show ?thesis by (subst (asm) (2) take_all.simps) simp
  next
    case (Inr r)
    obtain q rest where r: "r = (q, rest)" by (cases r)
    from Inr r have t: "take_frame b = Inr (q, rest)" by simp
    then have "take_all b = q # take_all rest" by (subst take_all.simps) simp
    with "1.prems" "1.IH" [OF t refl] take_bounded [OF t] show ?thesis by auto
  qed
qed

lemma take_all_render:
  assumes "\<And>p. p \<in> set ps \<Longrightarrow> fits p" and "take_all tail = []"
  shows "take_all (concat (map render ps) @ tail) = ps"
  using assms(1)
proof (induction ps)
  case Nil
  then show ?case by (simp add: assms(2))
next
  case (Cons p ps)
  then show ?case by (subst take_all.simps) (simp add: take_render)
qed

end

definition frame_fits :: "crates \<Rightarrow> bytes \<Rightarrow> bool" where
  "frame_fits C p \<longleftrightarrow> u32_codec C \<and> length p \<le> MAX_FRAME"

lemma split_frame_bytes:
  assumes "frame_fits C p"
  shows "split_frame C (frame_bytes C p @ rest) = Inr (p, rest)"
proof -
  have "length p < 2 ^ 32" using assms by (simp add: frame_fits_def MAX_FRAME_def)
  then have "unat (of_nat (length p) :: u32) = length p" by (simp add: unat_of_nat)
  then show ?thesis
    using assms by (simp add: split_frame_def frame_bytes_def frame_fits_def u32_codec_def Let_def)
qed

interpretation frames: framing "frame_bytes C" "frame_fits C" "split_frame C" length MAX_FRAME
  for C
proof unfold_locales
  fix p rest
  assume "frame_fits C p"
  then show "split_frame C (frame_bytes C p @ rest) = Inr (p, rest)" by (rule split_frame_bytes)
next
  fix b p rest
  assume "split_frame C b = Inr (p, rest)"
  then show "length p \<le> MAX_FRAME" and "length rest < length b"
    by (auto simp: split_frame_def Let_def split: if_splits)
qed

lemma write_frame_ok:
  "frame_fits C p \<Longrightarrow> wr_open d \<Longrightarrow>
     write_frame C p d = (d\<lparr>outp := outp d @ frame_bytes C p\<rparr>, Inr ())"
  by (simp add: write_frame_def frame_fits_def)

lemma read_frame_ok:
  "frame_fits C p \<Longrightarrow> inp d = frame_bytes C p @ rest \<Longrightarrow> read_frame C d = (d\<lparr>inp := rest\<rparr>, Inr p)"
  by (simp add: read_frame_def frames.take_render)


section \<open>The handshake\<close>

record handshake_codecs =
  pc_hello :: "hello codec"
  pc_challenge :: "challenge codec"
  pc_signature :: "signature_message codec"

record handshake_result =
  hs_remote :: hello
  hs_negotiated :: negotiated_protocol

definition panicked :: io_error where
  "panicked = IoError Other ''panicked''"

definition send_encoded :: "crates \<Rightarrow> 'a codec \<Rightarrow> 'a \<Rightarrow> (duplex, io_error, unit) op" where
  "send_encoded C K v = bindS (lift_result (ok_or codec_error (enc K v))) (write_frame C)"

definition recv_decoded :: "crates \<Rightarrow> 'a codec \<Rightarrow> (duplex, io_error, 'a) op" where
  "recv_decoded C K = bindS (read_frame C) (\<lambda>b. lift_result (ok_or codec_error (dec K b)))"

definition verify_error :: "(protocol_error + unit) option \<Rightarrow> io_error + unit" where
  "verify_error r = (case r of None \<Rightarrow> Inl panicked
     | Some v \<Rightarrow> map_err (\<lambda>_. IoError PermissionDenied ''invalid signature'') v)"

definition check_pin :: "public_identity option \<Rightarrow> hello \<Rightarrow> io_error + unit" where
  "check_pin pinned remote = (case pinned of
       None \<Rightarrow> Inr ()
     | Some p \<Rightarrow> if public_key p \<noteq> public_key (h_identity remote)
         then Inl (IoError PermissionDenied ''remote identity does not match pinned public key'')
         else Inr ())"

text \<open>\<open>handshake_inner\<close>; \<open>sid\<close> and \<open>nonce\<close> are the random session id and challenge.\<close>

definition handshake_inner ::
    "crates \<Rightarrow> handshake_codecs \<Rightarrow> identity \<Rightarrow> string list \<Rightarrow> bytes \<Rightarrow> bytes \<Rightarrow>
     public_identity option \<Rightarrow> (duplex, io_error, handshake_result) op" where
  "handshake_inner C K i fs sid nonce pinned =
     (let lh = new_hello C i fs sid; lc = \<lparr>c_nonce = nonce\<rparr> in
      bindS (send_encoded C (pc_hello K) lh) (\<lambda>_.
      bindS (recv_decoded C (pc_hello K)) (\<lambda>rh.
      bindS (send_encoded C (pc_challenge K) lc) (\<lambda>_.
      bindS (recv_decoded C (pc_challenge K)) (\<lambda>rc.
      bindS (lift_result (ok_or panicked (sign_challenge C (pc_hello K) i rh rc))) (\<lambda>ls.
      bindS (send_encoded C (pc_signature K) ls) (\<lambda>_.
      bindS (recv_decoded C (pc_signature K)) (\<lambda>rs.
      bindS (lift_result (verify_error (verify_challenge C (pc_hello K) lh lc (h_identity rh) rs))) (\<lambda>_.
      bindS (lift_result (check_pin pinned rh)) (\<lambda>_.
      bindS (lift_result (map_err (\<lambda>_. IoError Unsupported ''incompatible protocol major version'')
          (negotiate (h_version lh) (h_features lh) (h_version rh) (h_features rh)))) (\<lambda>n.
      ret \<lparr>hs_remote = rh, hs_negotiated = n\<rparr>)))))))))))"

definition handshake where
  "handshake C K i fs sid nonce = handshake_inner C K i fs sid nonce None"

definition handshake_with_pinned_identity where
  "handshake_with_pinned_identity C K i fs sid nonce pin = handshake_inner C K i fs sid nonce (Some pin)"

text \<open>\<open>peer\<close> is the address the socket reports, or its error.\<close>

definition handshake_tcp_with_bootstrap ::
    "crates \<Rightarrow> handshake_codecs \<Rightarrow> identity \<Rightarrow> string list \<Rightarrow> bytes \<Rightarrow> bytes \<Rightarrow>
     io_error + socket_addr \<Rightarrow> bootstrap_entry list \<Rightarrow> (duplex, io_error, handshake_result) op" where
  "handshake_tcp_with_bootstrap C K i fs sid nonce peer bs =
     bindS (lift_result peer) (\<lambda>a.
     bindS (lift_result (ok_or (IoError PermissionDenied ''no bootstrap trust entry for peer'')
         (find (\<lambda>e. be_address e = a) bs))) (\<lambda>e.
     handshake_with_pinned_identity C K i fs sid nonce \<lparr>public_key = pinned_public_key e\<rparr>))"

section \<open>What a completed handshake proves\<close>

text \<open>The evidence a local node has about its peer: a signature, by the key the peer presented,
  over this node's own HELLO and this session's fresh challenge.\<close>

definition authenticated ::
    "crates \<Rightarrow> handshake_codecs \<Rightarrow> hello \<Rightarrow> challenge \<Rightarrow> hello \<Rightarrow> bool" where
  "authenticated C K lh lc rh \<longleftrightarrow> (\<exists>p sig. challenge_payload (pc_hello K) lh lc = Some p \<and>
     verifies C (h_identity rh) p sig)"

lemma handshake_inner_ok:
  assumes "handshake_inner C K i fs sid nonce pinned d = (d', Inr r)"
  defines "lh \<equiv> new_hello C i fs sid"
  shows "authenticated C K lh \<lparr>c_nonce = nonce\<rparr> (hs_remote r)"
    "negotiate (h_version lh) fs (h_version (hs_remote r)) (h_features (hs_remote r))
       = Inr (hs_negotiated r)"
    "\<And>p. pinned = Some p \<Longrightarrow> h_identity (hs_remote r) = p"
proof -
  from assms(1) obtain rs where
    v: "verify_error (verify_challenge C (pc_hello K) lh \<lparr>c_nonce = nonce\<rparr> (h_identity (hs_remote r)) rs)
        = Inr ()"
    and pin: "check_pin pinned (hs_remote r) = Inr ()"
    and n: "negotiate (h_version lh) (h_features lh) (h_version (hs_remote r))
        (h_features (hs_remote r)) = Inr (hs_negotiated r)"
    by (auto simp: handshake_inner_def Let_def bindS_ok_iff lift_result_def ret_def bind_simps lh_def)
  show "authenticated C K lh \<lparr>c_nonce = nonce\<rparr> (hs_remote r)"
    using v by (auto simp: authenticated_def verify_error_def bind_simps verify_challenge_ok
        split: option.splits)
  show "negotiate (h_version lh) fs (h_version (hs_remote r)) (h_features (hs_remote r))
       = Inr (hs_negotiated r)"
    using n by (simp add: lh_def new_hello_def)
  show "h_identity (hs_remote r) = p" if "pinned = Some p" for p
    using pin that by (auto simp: check_pin_def split: if_splits)
qed

text \<open>C3: dialling through a bootstrap list ends in a session only with the identity that the list
  pins to the peer's address, authenticated by a signature over this session's HELLO and
  challenge; an address without an entry never gets past the lookup, and nothing is sent to it.\<close>

theorem bootstrap_handshake_pins:
  assumes "handshake_tcp_with_bootstrap C K i fs sid nonce peer bs d = (d', res)"
  shows "(\<forall>r. res = Inr r \<longrightarrow> (\<exists>a e. peer = Inr a \<and> find (\<lambda>e. be_address e = a) bs = Some e \<and>
           trusts e (h_identity (hs_remote r)) \<and>
           authenticated C K (new_hello C i fs sid) \<lparr>c_nonce = nonce\<rparr> (hs_remote r)))
    \<and> (\<forall>a. peer = Inr a \<longrightarrow> (\<forall>e \<in> set bs. be_address e \<noteq> a) \<longrightarrow>
           d' = d \<and> res = Inl (IoError PermissionDenied ''no bootstrap trust entry for peer''))"
proof (intro conjI allI impI)
  fix r
  assume "res = Inr r"
  with assms obtain a e where "peer = Inr a" "find (\<lambda>e. be_address e = a) bs = Some e"
    and h: "handshake_inner C K i fs sid nonce (Some \<lparr>public_key = pinned_public_key e\<rparr>) d = (d', Inr r)"
    by (auto simp: handshake_tcp_with_bootstrap_def handshake_with_pinned_identity_def
        bindS_ok_iff lift_result_def bind_simps)
  moreover have "trusts e (h_identity (hs_remote r))"
    using handshake_inner_ok(3) [OF h] by (simp add: trusts_def)
  ultimately show "\<exists>a e. peer = Inr a \<and> find (\<lambda>e. be_address e = a) bs = Some e \<and>
           trusts e (h_identity (hs_remote r)) \<and>
           authenticated C K (new_hello C i fs sid) \<lparr>c_nonce = nonce\<rparr> (hs_remote r)"
    using handshake_inner_ok(1) [OF h] by blast
next
  fix a
  assume p: "peer = Inr a" and "\<forall>e \<in> set bs. be_address e \<noteq> a"
  then have "find (\<lambda>e. be_address e = a) bs = None" by (simp add: find_None_all)
  with p assms have "(d', res) = (d, Inl (IoError PermissionDenied ''no bootstrap trust entry for peer''))"
    by (simp add: handshake_tcp_with_bootstrap_def bindS_def lift_result_def ok_or_def)
  then show "d' = d" and "res = Inl (IoError PermissionDenied ''no bootstrap trust entry for peer'')"
    by simp_all
qed

section \<open>Two parties\<close>

text \<open>The byte streams of a session: what a node writes, given its peer's HELLO and challenge.\<close>

definition hello_fits :: "crates \<Rightarrow> 'a codec \<Rightarrow> 'a \<Rightarrow> bool" where
  "hello_fits C K v \<longleftrightarrow> (\<exists>b. enc K v = Some b \<and> frame_fits C b)"

definition render :: "crates \<Rightarrow> 'a codec \<Rightarrow> 'a \<Rightarrow> bytes" where
  "render C K v = frame_bytes C (the (enc K v))"

definition session_bytes ::
    "crates \<Rightarrow> handshake_codecs \<Rightarrow> hello \<Rightarrow> challenge \<Rightarrow> signature_message \<Rightarrow> bytes" where
  "session_bytes C K h c s =
     render C (pc_hello K) h @ render C (pc_challenge K) c @ render C (pc_signature K) s"

lemma send_encoded_ok:
  "hello_fits C K v \<Longrightarrow> wr_open d \<Longrightarrow>
     send_encoded C K v d = (d\<lparr>outp := outp d @ render C K v\<rparr>, Inr ())"
  by (auto simp: hello_fits_def send_encoded_def bindS_def lift_result_def ok_or_def
      write_frame_ok render_def)

lemma recv_decoded_ok:
  assumes "hello_fits C K v" and "codec_ok K" and "inp d = render C K v @ rest"
  shows "recv_decoded C K d = (d\<lparr>inp := rest\<rparr>, Inr v)"
proof -
  from assms(1) obtain b where b: "enc K v = Some b" "frame_fits C b"
    by (auto simp: hello_fits_def)
  with assms(3) have "read_frame C d = (d\<lparr>inp := rest\<rparr>, Inr b)"
    by (intro read_frame_ok) (simp_all add: render_def)
  with codec_okD [OF assms(2) b(1)] show ?thesis
    by (simp add: recv_decoded_def bindS_def lift_result_def ok_or_def)
qed

lemma handshake_run:
  fixes K :: handshake_codecs
  assumes "ed_complete C" and "codec_ok (pc_hello K)" "codec_ok (pc_challenge K)"
      "codec_ok (pc_signature K)"
    and "lh = new_hello C i fs sid" and "lc = \<lparr>c_nonce = nonce\<rparr>"
    and "hello_fits C (pc_hello K) lh" "hello_fits C (pc_challenge K) lc"
    and "hello_fits C (pc_hello K) rh" "hello_fits C (pc_challenge K) rc"
    and "sign_challenge C (pc_hello K) i rh rc = Some ls" "hello_fits C (pc_signature K) ls"
    and "hello_fits C (pc_signature K) rs"
    and "verify_challenge C (pc_hello K) lh lc (h_identity rh) rs = Some (Inr ())"
    and "check_pin pinned rh = Inr ()"
    and "negotiate (h_version lh) fs (h_version rh) (h_features rh) = Inr n"
    and "inp d = session_bytes C K rh rc rs" and "wr_open d"
  shows "handshake_inner C K i fs sid nonce pinned d =
    (d\<lparr>inp := [], outp := outp d @ session_bytes C K lh lc ls\<rparr>,
     Inr \<lparr>hs_remote = rh, hs_negotiated = n\<rparr>)"
proof -
  have f: "h_features lh = fs" by (simp add: assms(5) new_hello_def)
  let ?d1 = "d\<lparr>outp := outp d @ render C (pc_hello K) lh\<rparr>"
  let ?d2 = "?d1\<lparr>inp := render C (pc_challenge K) rc @ render C (pc_signature K) rs\<rparr>"
  let ?d3 = "?d2\<lparr>outp := outp ?d2 @ render C (pc_challenge K) lc\<rparr>"
  let ?d4 = "?d3\<lparr>inp := render C (pc_signature K) rs\<rparr>"
  let ?d5 = "?d4\<lparr>outp := outp ?d4 @ render C (pc_signature K) ls\<rparr>"
  have "send_encoded C (pc_hello K) lh d = (?d1, Inr ())"
    using assms by (intro send_encoded_ok) simp_all
  moreover have "recv_decoded C (pc_hello K) ?d1 = (?d2, Inr rh)"
    using assms by (intro recv_decoded_ok) (simp_all add: session_bytes_def)
  moreover have "send_encoded C (pc_challenge K) lc ?d2 = (?d3, Inr ())"
    using assms by (intro send_encoded_ok) simp_all
  moreover have "recv_decoded C (pc_challenge K) ?d3 = (?d4, Inr rc)"
    using assms by (intro recv_decoded_ok) simp_all
  moreover have "send_encoded C (pc_signature K) ls ?d4 = (?d5, Inr ())"
    using assms by (intro send_encoded_ok) simp_all
  moreover have "recv_decoded C (pc_signature K) ?d5 = (?d5\<lparr>inp := []\<rparr>, Inr rs)"
    using assms by (intro recv_decoded_ok) simp_all
  ultimately show ?thesis
    using assms(11,14-16) f unfolding handshake_inner_def assms(5,6) [symmetric] Let_def
    by (simp add: bindS_def lift_result_def ok_or_def verify_error_def map_err_def ret_def
        session_bytes_def)
qed

text \<open>C27: two honest nodes complete the handshake with each other. Each reads exactly what the
  other writes, each ends with the other's HELLO, and both end with the same negotiated protocol.\<close>

theorem handshake_mutual:
  fixes K :: handshake_codecs
  assumes crates: "ed_complete C" "codec_ok (pc_hello K)" "codec_ok (pc_challenge K)"
      "codec_ok (pc_signature K)"
    and a: "ha = new_hello C ia fsa sida" "ca = \<lparr>c_nonce = na\<rparr>" "distinct fsa"
      "hello_fits C (pc_hello K) ha" "hello_fits C (pc_challenge K) ca"
      "sign_challenge C (pc_hello K) ia hb cb = Some sa" "hello_fits C (pc_signature K) sa"
    and b: "hb = new_hello C ib fsb sidb" "cb = \<lparr>c_nonce = nb\<rparr>" "distinct fsb"
      "hello_fits C (pc_hello K) hb" "hello_fits C (pc_challenge K) cb"
      "sign_challenge C (pc_hello K) ib ha ca = Some sb" "hello_fits C (pc_signature K) sb"
  defines "da \<equiv> \<lparr>inp = session_bytes C K hb cb sb, outp = [], wr_open = True\<rparr>"
    and "db \<equiv> \<lparr>inp = session_bytes C K ha ca sa, outp = [], wr_open = True\<rparr>"
  shows "\<exists>n. handshake C K ia fsa sida na da
        = (\<lparr>inp = [], outp = inp db, wr_open = True\<rparr>, Inr \<lparr>hs_remote = hb, hs_negotiated = n\<rparr>)
      \<and> handshake C K ib fsb sidb nb db
        = (\<lparr>inp = [], outp = inp da, wr_open = True\<rparr>, Inr \<lparr>hs_remote = ha, hs_negotiated = n\<rparr>)"
proof -
  have ids: "h_identity ha = public_of C ia" "h_identity hb = public_of C ib"
    using a(1) b(1) by (simp_all add: new_hello_def)
  have "verify_challenge C (pc_hello K) ha ca (h_identity hb) sb = Some (Inr ())"
    and "verify_challenge C (pc_hello K) hb cb (h_identity ha) sa = Some (Inr ())"
    using sign_verify [OF crates(1)] a(6) b(6) ids by simp_all
  moreover obtain n where "negotiate (h_version ha) fsa (h_version hb) fsb = Inr n"
      "negotiate (h_version hb) fsb (h_version ha) fsa = Inr n"
    using a(1) b(1) common_features_comm [OF a(3) b(3)] by (simp add: negotiate_def new_hello_def)
  moreover have "h_features ha = fsa" "h_features hb = fsb"
    using a(1) b(1) by (simp_all add: new_hello_def)
  ultimately have "handshake_inner C K ia fsa sida na None da =
      (da\<lparr>inp := [], outp := outp da @ session_bytes C K ha ca sa\<rparr>,
       Inr \<lparr>hs_remote = hb, hs_negotiated = n\<rparr>)"
    and "handshake_inner C K ib fsb sidb nb None db =
      (db\<lparr>inp := [], outp := outp db @ session_bytes C K hb cb sb\<rparr>,
       Inr \<lparr>hs_remote = ha, hs_negotiated = n\<rparr>)"
    using crates a b
    by (intro handshake_run [where lc = ca and rc = cb and rs = sb and ls = sa]
        handshake_run [where lc = cb and rc = ca and rs = sa and ls = sb];
        simp add: check_pin_def da_def db_def)+
  then show ?thesis by (auto simp: handshake_def da_def db_def)
qed

text \<open>The handshake cannot tell a peer from a mirror. A connection that plays a node's own bytes
  back to it completes, and the node believes it speaks to a peer with its own identity; no secret
  key is needed for that.\<close>

theorem handshake_reflection:
  fixes K :: handshake_codecs
  assumes crates: "ed_complete C" "codec_ok (pc_hello K)" "codec_ok (pc_challenge K)"
      "codec_ok (pc_signature K)"
    and a: "ha = new_hello C i fs sid" "ca = \<lparr>c_nonce = nonce\<rparr>"
      "hello_fits C (pc_hello K) ha" "hello_fits C (pc_challenge K) ca"
      "sign_challenge C (pc_hello K) i ha ca = Some sa" "hello_fits C (pc_signature K) sa"
    and echo: "inp d = session_bytes C K ha ca sa" "wr_open d"
  shows "\<exists>d' r. handshake C K i fs sid nonce d = (d', Inr r) \<and>
    outp d' = outp d @ inp d \<and> h_identity (hs_remote r) = public_of C i"
proof -
  have idh: "h_identity ha = public_of C i" "h_features ha = fs"
    using a(1) by (simp_all add: new_hello_def)
  have "verify_challenge C (pc_hello K) ha ca (h_identity ha) sa = Some (Inr ())"
    using sign_verify [OF crates(1) a(5)] idh by simp
  moreover obtain n where "negotiate (h_version ha) fs (h_version ha) (h_features ha) = Inr n"
    by (simp add: negotiate_def)
  ultimately have "handshake_inner C K i fs sid nonce None d =
      (d\<lparr>inp := [], outp := outp d @ session_bytes C K ha ca sa\<rparr>,
       Inr \<lparr>hs_remote = ha, hs_negotiated = n\<rparr>)"
    using crates a echo
    by (intro handshake_run [where lc = ca and rc = ca and rs = sa and ls = sa])
      (simp_all add: check_pin_def)
  with echo(1) idh(1) show ?thesis by (simp add: handshake_def)
qed

section \<open>A closed session\<close>

text \<open>Two concrete nodes, for the closed instances of the properties above.\<close>

definition demo_ia :: identity where "demo_ia = \<lparr>signing_key = [10], key_path = []\<rparr>"
definition demo_ib :: identity where "demo_ib = \<lparr>signing_key = [20], key_path = []\<rparr>"
definition demo_ha :: hello where "demo_ha = new_hello demo_crates demo_ia [''files/1''] [1]"
definition demo_hb :: hello where "demo_hb = new_hello demo_crates demo_ib [''core/1'', ''files/1''] [2]"
definition demo_ca :: challenge where "demo_ca = \<lparr>c_nonce = [3]\<rparr>"
definition demo_cb :: challenge where "demo_cb = \<lparr>c_nonce = [4]\<rparr>"
definition demo_sa :: signature_message where "demo_sa = \<lparr>s_signature = [10, 1, 4]\<rparr>"
definition demo_sb :: signature_message where "demo_sb = \<lparr>s_signature = [20, 3]\<rparr>"
definition demo_s0 :: signature_message where "demo_s0 = \<lparr>s_signature = [10, 3]\<rparr>"

definition demo_codecs :: handshake_codecs where
  "demo_codecs = \<lparr>pc_hello = table_codec [demo_ha, demo_hb],
     pc_challenge = table_codec [demo_ca, demo_cb],
     pc_signature = table_codec [demo_sa, demo_sb, demo_s0]\<rparr>"

lemma demo_differ: "demo_ha \<noteq> demo_hb" "demo_ca \<noteq> demo_cb" "demo_sa \<noteq> demo_sb"
  "demo_sa \<noteq> demo_s0" "demo_sb \<noteq> demo_s0"
  by (simp_all add: demo_ha_def demo_hb_def new_hello_def demo_ca_def demo_cb_def demo_sa_def
      demo_sb_def demo_s0_def)

lemma demo_enc:
  "enc (pc_hello demo_codecs) demo_ha = Some []" "enc (pc_hello demo_codecs) demo_hb = Some [1]"
  "enc (pc_challenge demo_codecs) demo_ca = Some []"
  "enc (pc_challenge demo_codecs) demo_cb = Some [1]"
  "enc (pc_signature demo_codecs) demo_sa = Some []"
  "enc (pc_signature demo_codecs) demo_sb = Some [1]"
  "enc (pc_signature demo_codecs) demo_s0 = Some [1, 1]"
  using demo_differ
  by (simp_all add: demo_codecs_def table_codec_def upt_rec numeral_2_eq_2)

lemma demo_fits:
  "hello_fits demo_crates (pc_hello demo_codecs) demo_ha"
  "hello_fits demo_crates (pc_hello demo_codecs) demo_hb"
  "hello_fits demo_crates (pc_challenge demo_codecs) demo_ca"
  "hello_fits demo_crates (pc_challenge demo_codecs) demo_cb"
  "hello_fits demo_crates (pc_signature demo_codecs) demo_sa"
  "hello_fits demo_crates (pc_signature demo_codecs) demo_sb"
  "hello_fits demo_crates (pc_signature demo_codecs) demo_s0"
  by (simp_all add: hello_fits_def demo_enc frame_fits_def demo_u32_codec MAX_FRAME_def)

lemma demo_codecs_ok:
  "codec_ok (pc_hello demo_codecs)" "codec_ok (pc_challenge demo_codecs)"
  "codec_ok (pc_signature demo_codecs)"
  by (simp_all add: demo_codecs_def table_codec_ok)

lemma demo_signed:
  "sign_challenge demo_crates (pc_hello demo_codecs) demo_ia demo_hb demo_cb = Some demo_sa"
  "sign_challenge demo_crates (pc_hello demo_codecs) demo_ib demo_ha demo_ca = Some demo_sb"
  "sign_challenge demo_crates (pc_hello demo_codecs) demo_ia demo_ha demo_ca = Some demo_s0"
  by (simp_all add: sign_challenge_def challenge_payload_def demo_enc demo_sa_def demo_sb_def
      demo_s0_def demo_ca_def demo_cb_def sign_with_def demo_ia_def demo_ib_def demo_crates_def)

lemma handshake_mutual_witness:
  "\<exists>n. handshake demo_crates demo_codecs demo_ia [''files/1''] [1] [3]
        \<lparr>inp = session_bytes demo_crates demo_codecs demo_hb demo_cb demo_sb, outp = [], wr_open = True\<rparr>
      = (\<lparr>inp = [], outp = session_bytes demo_crates demo_codecs demo_ha demo_ca demo_sa,
           wr_open = True\<rparr>, Inr \<lparr>hs_remote = demo_hb, hs_negotiated = n\<rparr>)"
  using handshake_mutual [OF demo_ed_complete demo_codecs_ok demo_ha_def demo_ca_def _
      demo_fits(1,3) demo_signed(1) demo_fits(5) demo_hb_def demo_cb_def _ demo_fits(2,4)
      demo_signed(2) demo_fits(6)]
  by auto

lemma handshake_reflection_witness:
  "\<exists>d' r. handshake demo_crates demo_codecs demo_ia [''files/1''] [1] [3]
        \<lparr>inp = session_bytes demo_crates demo_codecs demo_ha demo_ca demo_s0, outp = [], wr_open = True\<rparr>
      = (d', Inr r) \<and> h_identity (hs_remote r) = public_of demo_crates demo_ia"
  using handshake_reflection [OF demo_ed_complete demo_codecs_ok demo_ha_def demo_ca_def
      demo_fits(1,3) demo_signed(3) demo_fits(7),
      of "\<lparr>inp = session_bytes demo_crates demo_codecs demo_ha demo_ca demo_s0, outp = [], wr_open = True\<rparr>"]
  by auto

lemma demo_pinned_run:
  "snd (handshake_tcp_with_bootstrap demo_crates demo_codecs demo_ia [''files/1''] [1] [3]
      (Inr (''a'', 1)) [\<lparr>be_address = (''a'', 1), pinned_public_key = [20]\<rparr>]
      \<lparr>inp = session_bytes demo_crates demo_codecs demo_hb demo_cb demo_sb, outp = [], wr_open = True\<rparr>)
    = Inr \<lparr>hs_remote = demo_hb, hs_negotiated = \<lparr>n_version = \<lparr>v_major = 1, v_minor = 0\<rparr>,
        n_features = [''files/1'']\<rparr>\<rparr>"
proof -
  have idb: "h_identity demo_hb = public_of demo_crates demo_ib"
    by (simp add: demo_hb_def new_hello_def)
  have v: "verify_challenge demo_crates (pc_hello demo_codecs) demo_ha demo_ca (h_identity demo_hb)
      demo_sb = Some (Inr ())"
    unfolding idb by (rule sign_verify [OF demo_ed_complete demo_signed(2)])
  have p: "check_pin (Some \<lparr>public_key = [20]\<rparr>) demo_hb = Inr ()"
    by (simp add: check_pin_def idb public_of_def demo_ib_def demo_crates_def)
  have n: "negotiate (h_version demo_ha) [''files/1''] (h_version demo_hb) (h_features demo_hb)
      = Inr \<lparr>n_version = \<lparr>v_major = 1, v_minor = 0\<rparr>, n_features = [''files/1'']\<rparr>"
    by (simp add: negotiate_def demo_ha_def demo_hb_def new_hello_def PROTOCOL_MAJOR_def
        PROTOCOL_MINOR_def)
  show ?thesis
    by (simp add: handshake_tcp_with_bootstrap_def bindS_def lift_result_def ok_or_def
        handshake_with_pinned_identity_def
        handshake_run [OF demo_ed_complete demo_codecs_ok demo_ha_def demo_ca_def demo_fits(1,3,2,4)
          demo_signed(1) demo_fits(5,6) v p n])
qed

lemma bootstrap_handshake_pins_witness:
  "\<exists>e. find (\<lambda>e. be_address e = (''a'', 1)) [\<lparr>be_address = (''a'', 1), pinned_public_key = [20]\<rparr>]
       = Some e \<and> trusts e (h_identity demo_hb) \<and>
     authenticated demo_crates demo_codecs demo_ha demo_ca demo_hb"
proof -
  let ?bs = "[\<lparr>be_address = (''a'', 1 :: u16), pinned_public_key = [20]\<rparr>]"
  let ?d = "\<lparr>inp = session_bytes demo_crates demo_codecs demo_hb demo_cb demo_sb, outp = [], wr_open = True\<rparr>"
  let ?x = "handshake_tcp_with_bootstrap demo_crates demo_codecs demo_ia [''files/1''] [1] [3]
      (Inr (''a'', 1)) ?bs ?d"
  have "?x = (fst ?x, snd ?x)" by simp
  from bootstrap_handshake_pins [OF this] demo_pinned_run show ?thesis
    unfolding demo_ha_def [symmetric] demo_ca_def [symmetric] by fastforce
qed


end
