(* ===== verification/Messaging.thy ===== *)
theory Messaging
  imports Transport
begin

text \<open>
  \<open>src/messaging.rs\<close>: the message envelope and its size checks, the wire frame, sending and
  receiving over an authenticated stream, the bounded offline queue and the router.

  Channels are tokio's and stay abstract: a channel is a number, \<open>alive ch\<close> tells whether its
  receiver still exists (an awaited \<open>send\<close> fails exactly when it does not), and
  \<open>accepts cap n\<close> whether a \<open>try_send\<close> succeeds on a channel of capacity \<open>cap\<close> that holds \<open>n\<close>
  messages. What was handed to a channel is part of an operation's result. The iteration order of
  the relay set is the order of the list that represents it.
\<close>

definition MAX_MESSAGE_SIZE :: nat where "MAX_MESSAGE_SIZE = 1024 * 1024"

record message =
  m_id :: bytes
  m_sender :: public_identity
  m_recipient :: public_identity
  m_payload :: bytes

datatype messaging_frame = MFMessage message

definition validate_size :: "message codec \<Rightarrow> message \<Rightarrow> io_error + unit" where
  "validate_size K m = bindR (ok_or codec_error (enc K m)) (\<lambda>b.
     if length b > MAX_MESSAGE_SIZE then Inl (IoError InvalidInput ''message too large'') else Inr ())"

text \<open>\<open>Message::new\<close>; \<open>mid\<close> is the random id.\<close>

definition message_new ::
    "message codec \<Rightarrow> bytes \<Rightarrow> public_identity \<Rightarrow> public_identity \<Rightarrow> bytes \<Rightarrow> io_error + message" where
  "message_new K mid sender recipient payload =
     (let m = \<lparr>m_id = mid, m_sender = sender, m_recipient = recipient, m_payload = payload\<rparr> in
      bindR (validate_size K m) (\<lambda>_. Inr m))"

definition mframe_encode :: "messaging_frame codec \<Rightarrow> messaging_frame \<Rightarrow> io_error + bytes" where
  "mframe_encode F f = bindR (ok_or codec_error (enc F f)) (\<lambda>b.
     if length b > MAX_MESSAGE_SIZE then Inl (IoError InvalidInput ''message frame too large'')
     else Inr b)"

definition mframe_decode :: "messaging_frame codec \<Rightarrow> bytes \<Rightarrow> io_error + messaging_frame" where
  "mframe_decode F b =
     (if length b > MAX_MESSAGE_SIZE then Inl (IoError InvalidData ''message frame too large'')
      else ok_or codec_error (dec F b))"

definition send_message ::
    "crates \<Rightarrow> message codec \<Rightarrow> messaging_frame codec \<Rightarrow> message \<Rightarrow> (duplex, io_error, unit) op" where
  "send_message C K F m =
     bindS (lift_result (validate_size K m)) (\<lambda>_.
     bindS (lift_result (mframe_encode F (MFMessage m))) (write_frame C))"

definition receive_message ::
    "crates \<Rightarrow> message codec \<Rightarrow> messaging_frame codec \<Rightarrow> public_identity \<Rightarrow>
     (duplex, io_error, message) op" where
  "receive_message C K F auth =
     bindS (read_frame C) (\<lambda>b.
     bindS (lift_result (mframe_decode F b)) (\<lambda>f. case f of MFMessage m \<Rightarrow>
     bindS (lift_result (validate_size K m)) (\<lambda>_.
       if m_sender m \<noteq> auth
       then raise (IoError PermissionDenied ''message sender does not match authenticated peer'')
       else ret m)))"

lemma mframe_roundtrip:
  "codec_ok F \<Longrightarrow> mframe_encode F f = Inr b \<Longrightarrow> mframe_decode F b = Inr f"
  by (auto simp: mframe_encode_def mframe_decode_def bind_simps ok_or_def codec_ok_def
      split: option.splits if_splits)

lemma mframe_encode_fits: "mframe_encode F f = Inr b \<Longrightarrow> length b \<le> MAX_FRAME"
  by (auto simp: mframe_encode_def bind_simps MAX_MESSAGE_SIZE_def MAX_FRAME_def split: if_splits)

text \<open>C17: a message sent over a stream arrives unchanged when the receiver authenticated the peer
  as its sender, and is refused with a permission error under any other identity; either way the
  receiver is left at the start of the next frame.\<close>

theorem send_receive:
  assumes "u32_codec C" and "codec_ok F"
    and "send_message C K F m d = (d', Inr u)" and "outp d = []"
    and "inp e = outp d' @ rest"
  shows "receive_message C K F auth e = (e\<lparr>inp := rest\<rparr>,
    if m_sender m = auth then Inr m
    else Inl (IoError PermissionDenied ''message sender does not match authenticated peer''))"
proof -
  from assms(3) obtain b where v: "validate_size K m = Inr ()"
    and b: "mframe_encode F (MFMessage m) = Inr b" and w: "write_frame C b d = (d', Inr ())"
    by (auto simp: send_message_def bindS_ok_iff lift_result_def)
  have fit: "frame_fits C b" using assms(1) mframe_encode_fits [OF b] by (simp add: frame_fits_def)
  have "outp d' = frame_bytes C b"
    using w assms(4) by (auto simp: write_frame_def split: if_splits)
  with assms(5) fit have "read_frame C e = (e\<lparr>inp := rest\<rparr>, Inr b)"
    by (intro read_frame_ok) simp_all
  with mframe_roundtrip [OF assms(2) b] v show ?thesis
    by (simp add: receive_message_def bindS_def lift_result_def ret_def raise_def)
qed

section \<open>The bounded queue\<close>

text \<open>The interface the router uses: a family of first-in first-out queues, one per key, each of
  which keeps the newest \<open>cap\<close> messages.\<close>

locale bounded_fifo =
  fixes contents :: "'q \<Rightarrow> 'k \<Rightarrow> 'm list"
    and push :: "'m \<Rightarrow> 'q \<Rightarrow> 'q \<times> 'm option"
    and drain :: "'k \<Rightarrow> 'q \<Rightarrow> 'q \<times> 'm list"
    and key :: "'m \<Rightarrow> 'k"
    and cap :: "'q \<Rightarrow> nat"
    and good :: "'q \<Rightarrow> bool"
  assumes good_bound: "good q \<Longrightarrow> length (contents q k) \<le> cap q"
    and good_cap: "good q \<Longrightarrow> 0 < cap q"
    and push_contents: "good q \<Longrightarrow> push m q = (q', ev) \<Longrightarrow>
      contents q' k = (if k = key m then lastn (cap q) (contents q k @ [m]) else contents q k)"
    and push_evicts: "good q \<Longrightarrow> push m q = (q', ev) \<Longrightarrow>
      ev = (if length (contents q (key m)) = cap q then Some (hd (contents q (key m))) else None)"
    and push_good: "good q \<Longrightarrow> push m q = (q', ev) \<Longrightarrow> good q' \<and> cap q' = cap q"
    and drain_contents: "good q \<Longrightarrow> drain k q = (q', ms) \<Longrightarrow>
      ms = contents q k \<and> contents q' j = (if j = k then [] else contents q j)"
    and drain_good: "good q \<Longrightarrow> drain k q = (q', ms) \<Longrightarrow> good q' \<and> cap q' = cap q"
begin

fun push_all :: "'m list \<Rightarrow> 'q \<Rightarrow> 'q" where
  "push_all [] q = q"
| "push_all (m # ms) q = push_all ms (fst (push m q))"

lemma push_all_good: "good q \<Longrightarrow> good (push_all ms q) \<and> cap (push_all ms q) = cap q"
proof (induction ms arbitrary: q)
  case Nil
  then show ?case by simp
next
  case (Cons m ms)
  have "good (fst (push m q)) \<and> cap (fst (push m q)) = cap q"
    using Cons.prems push_good [of q m] by (cases "push m q") auto
  with Cons.IH show ?case by simp
qed

lemma push_all_contents:
  "good q \<Longrightarrow> contents (push_all ms q) k = lastn (cap q) (contents q k @ filter (\<lambda>m. key m = k) ms)"
proof (induction ms arbitrary: q)
  case Nil
  then show ?case by (simp add: lastn_all good_bound)
next
  case (Cons m ms)
  obtain q' ev where p: "push m q = (q', ev)" by (cases "push m q")
  with Cons.prems have g: "good q'" "cap q' = cap q" using push_good by blast+
  have "contents (push_all ms q') k = lastn (cap q) (contents q' k @ filter (\<lambda>m. key m = k) ms)"
    using Cons.IH g by simp
  with p show ?case
    using push_contents [OF Cons.prems p, of k] lastn_append [of "cap q" "contents q k @ [m]"] by auto
qed

lemma drain_after_push_all:
  assumes "good q" and "drain k (push_all ms q) = (q', out)"
  shows "out = lastn (cap q) (contents q k @ filter (\<lambda>m. key m = k) ms) \<and> contents q' k = []"
  using drain_contents [of "push_all ms q" k q' out k] assms push_all_good push_all_contents by simp

end

record offline_queue =
  oq_capacity :: nat
  oq_queues :: "public_identity \<rightharpoonup> message list"

definition oq_new :: "nat \<Rightarrow> io_error + offline_queue" where
  "oq_new c = (if c = 0 then Inl (IoError InvalidInput ''queue capacity must be > 0'')
     else Inr \<lparr>oq_capacity = c, oq_queues = Map.empty\<rparr>)"

definition oq_entry :: "offline_queue \<Rightarrow> public_identity \<Rightarrow> message list" where
  "oq_entry q i = (case oq_queues q i of None \<Rightarrow> [] | Some ms \<Rightarrow> ms)"

definition oq_push :: "message \<Rightarrow> offline_queue \<Rightarrow> offline_queue \<times> message option" where
  "oq_push m q =
     (let r = m_recipient m; queue = oq_entry q r @ [m] in
      if length queue > oq_capacity q
      then (q\<lparr>oq_queues := (oq_queues q)(r \<mapsto> tl queue)\<rparr>, Some (hd queue))
      else (q\<lparr>oq_queues := (oq_queues q)(r \<mapsto> queue)\<rparr>, None))"

definition oq_drain :: "public_identity \<Rightarrow> offline_queue \<Rightarrow> offline_queue \<times> message list" where
  "oq_drain i q = (q\<lparr>oq_queues := (oq_queues q)(i := None)\<rparr>, oq_entry q i)"

definition oq_len :: "offline_queue \<Rightarrow> public_identity \<Rightarrow> nat" where
  "oq_len q i = (case oq_queues q i of None \<Rightarrow> 0 | Some ms \<Rightarrow> length ms)"

definition oq_good :: "offline_queue \<Rightarrow> bool" where
  "oq_good q \<longleftrightarrow> 0 < oq_capacity q \<and> (\<forall>i. length (oq_entry q i) \<le> oq_capacity q)"

lemma oq_len_entry: "oq_len q i = length (oq_entry q i)"
  by (simp add: oq_len_def oq_entry_def split: option.splits)

lemma oq_new_good: "oq_new c = Inr q \<Longrightarrow> oq_good q \<and> oq_capacity q = c \<and> (\<forall>i. oq_entry q i = [])"
  by (auto simp: oq_new_def oq_good_def oq_entry_def split: if_splits)

lemma oq_push_entry:
  assumes "oq_good q" and "oq_push m q = (q', ev)"
  shows "oq_entry q' k = (if k = m_recipient m then lastn (oq_capacity q) (oq_entry q k @ [m])
      else oq_entry q k)"
    "ev = (if length (oq_entry q (m_recipient m)) = oq_capacity q
      then Some (hd (oq_entry q (m_recipient m))) else None)"
    "oq_capacity q' = oq_capacity q"
proof -
  let ?es = "oq_entry q (m_recipient m)"
  have le: "length ?es \<le> oq_capacity q" and pos: "0 < oq_capacity q"
    using assms(1) by (simp_all add: oq_good_def)
  show "oq_entry q' k = (if k = m_recipient m then lastn (oq_capacity q) (oq_entry q k @ [m])
      else oq_entry q k)"
  proof (cases "length ?es = oq_capacity q")
    case True
    then have "?es \<noteq> []" using pos by auto
    with True have "oq_entry q' k = (if k = m_recipient m then tl ?es @ [m] else oq_entry q k)"
      using assms(2) by (auto simp: oq_push_def Let_def oq_entry_def)
    with lastn_snoc_full [OF True pos, of m] show ?thesis by simp
  next
    case False
    with le have small: "length (?es @ [m]) \<le> oq_capacity q" by simp
    then have "oq_entry q' k = (if k = m_recipient m then ?es @ [m] else oq_entry q k)"
      using assms(2) by (auto simp: oq_push_def Let_def oq_entry_def)
    with lastn_all [OF small] show ?thesis by simp
  qed
  show "ev = (if length ?es = oq_capacity q then Some (hd ?es) else None)"
    using assms(2) le pos by (cases "?es") (auto simp: oq_push_def Let_def split: if_splits)
  show "oq_capacity q' = oq_capacity q"
    using assms(2) by (auto simp: oq_push_def Let_def split: if_splits)
qed

interpretation oq: bounded_fifo oq_entry oq_push oq_drain m_recipient oq_capacity oq_good
proof unfold_locales
  fix q k
  assume "oq_good q"
  then show "length (oq_entry q k) \<le> oq_capacity q" and "0 < oq_capacity q"
    by (simp_all add: oq_good_def)
next
  fix q m q' ev k
  assume g: "oq_good q" and p: "oq_push m q = (q', ev)"
  show "oq_entry q' k = (if k = m_recipient m then lastn (oq_capacity q) (oq_entry q k @ [m])
      else oq_entry q k)" using oq_push_entry(1) [OF g p] .
  show "ev = (if length (oq_entry q (m_recipient m)) = oq_capacity q
      then Some (hd (oq_entry q (m_recipient m))) else None)" using oq_push_entry(2) [OF g p] .
  show "oq_good q' \<and> oq_capacity q' = oq_capacity q"
    using oq_push_entry [OF g p] g by (auto simp: oq_good_def)
next
  fix q k q' ms j
  assume g: "oq_good q" and "oq_drain k q = (q', ms)"
  then show "ms = oq_entry q k \<and> oq_entry q' j = (if j = k then [] else oq_entry q j)"
    and "oq_good q' \<and> oq_capacity q' = oq_capacity q"
    by (auto simp: oq_drain_def oq_entry_def oq_good_def)
qed

text \<open>C18: an offline queue of capacity \<open>c\<close> keeps, for every recipient, exactly the newest \<open>c\<close> of
  the messages pushed for it, and hands them out in the order they came; recipients do not
  interfere.\<close>

theorem offline_queue_refines:
  assumes "oq_new c = Inr q"
  shows "snd (oq_drain i (oq.push_all ms q)) = lastn c (filter (\<lambda>m. m_recipient m = i) ms)
    \<and> oq_len (oq.push_all ms q) i = min c (length (filter (\<lambda>m. m_recipient m = i) ms))"
proof -
  from oq_new_good [OF assms] have q: "oq_good q" "oq_capacity q = c" "oq_entry q i = []" by auto
  have "oq_entry (oq.push_all ms q) i = lastn c (filter (\<lambda>m. m_recipient m = i) ms)"
    using oq.push_all_contents [OF q(1), of ms i] q by simp
  then show ?thesis by (simp add: oq_drain_def oq_len_entry)
qed

section \<open>Closed instances\<close>

definition demo_peer :: public_identity where "demo_peer = \<lparr>public_key = [1]\<rparr>"
definition demo_other :: public_identity where "demo_other = \<lparr>public_key = [2]\<rparr>"

definition demo_message :: message where
  "demo_message = \<lparr>m_id = [], m_sender = demo_other, m_recipient = demo_peer, m_payload = []\<rparr>"

definition demo_stream :: duplex where
  "demo_stream = \<lparr>inp = [], outp = [], wr_open = True\<rparr>"

lemma demo_valid: "validate_size (table_codec [demo_message]) demo_message = Inr ()"
  by (simp add: validate_size_def table_codec_def ok_or_def MAX_MESSAGE_SIZE_def)

lemma demo_frame_encoded:
  "mframe_encode (table_codec [MFMessage demo_message]) (MFMessage demo_message) = Inr []"
  by (simp add: mframe_encode_def table_codec_def ok_or_def MAX_MESSAGE_SIZE_def)

lemma demo_parties [simp]: "m_sender demo_message = demo_other"
  "m_recipient demo_message = demo_peer" "demo_peer \<noteq> demo_other" "demo_other \<noteq> demo_peer"
  by (simp_all add: demo_message_def demo_peer_def demo_other_def)

lemma send_receive_witness:
  "let K = table_codec [demo_message]; F = table_codec [MFMessage demo_message];
       d = fst (send_message demo_crates K F demo_message demo_stream);
       e = \<lparr>inp = outp d @ [7], outp = [], wr_open = True\<rparr> in
     receive_message demo_crates K F demo_other e = (e\<lparr>inp := [7]\<rparr>, Inr demo_message)"
proof -
  let ?K = "table_codec [demo_message]" and ?F = "table_codec [MFMessage demo_message]"
  let ?r = "send_message demo_crates ?K ?F demo_message demo_stream"
  have "snd ?r = Inr ()"
    by (simp add: send_message_def bindS_def lift_result_def demo_valid demo_frame_encoded
        write_frame_def demo_stream_def)
  then have "?r = (fst ?r, Inr ())" by (metis prod.collapse)
  from send_receive [OF demo_u32_codec table_codec_ok this _, of "\<lparr>inp = outp (fst ?r) @ [7],
      outp = [], wr_open = True\<rparr>" "[7]" demo_other]
  show ?thesis by (simp add: Let_def demo_stream_def)
qed

lemma offline_queue_refines_witness:
  "let q = oq.push_all [demo_message\<lparr>m_id := [1]\<rparr>, demo_message\<lparr>m_id := [2]\<rparr>, demo_message\<lparr>m_id := [3]\<rparr>]
         \<lparr>oq_capacity = 2, oq_queues = Map.empty\<rparr> in
     snd (oq_drain demo_peer q) = [demo_message\<lparr>m_id := [2]\<rparr>, demo_message\<lparr>m_id := [3]\<rparr>] \<and>
     oq_len q demo_peer = 2"
proof -
  have "oq_new 2 = Inr \<lparr>oq_capacity = 2, oq_queues = Map.empty\<rparr>" by (simp add: oq_new_def)
  from offline_queue_refines [OF this, of demo_peer "[demo_message\<lparr>m_id := [1]\<rparr>,
      demo_message\<lparr>m_id := [2]\<rparr>, demo_message\<lparr>m_id := [3]\<rparr>]"]
  show ?thesis by (simp add: Let_def demo_message_def lastn_def)
qed

end
