(* ===== verification/Router.thy ===== *)
theory Router
  imports Messaging
begin

text \<open>
  The router of \<open>src/messaging.rs\<close>: local peers, next hops, relays and the offline queue; and
  \<open>src/node.rs\<close>: the allow list, inbound and outbound connections, and the pump that moves frames
  between a connection and the router, as a step relation over connections that open, carry
  frames, end and are cleaned up in any interleaving.
\<close>

type_synonym chan = nat

record router =
  rt_peers :: "public_identity \<rightharpoonup> chan"
  rt_next_hops :: "public_identity \<rightharpoonup> chan"
  rt_relays :: "public_identity list"
  rt_offline :: offline_queue

definition router_new :: "nat \<Rightarrow> io_error + router" where
  "router_new c = bindR (oq_new c) (\<lambda>q. Inr \<lparr>rt_peers = Map.empty, rt_next_hops = Map.empty,
     rt_relays = [], rt_offline = q\<rparr>)"

text \<open>\<open>let _ = tx.try_send(message)\<close> for each queued message: what the fresh channel took.\<close>

fun try_all :: "(nat \<Rightarrow> nat \<Rightarrow> bool) \<Rightarrow> nat \<Rightarrow> message list \<Rightarrow> message list \<Rightarrow> message list" where
  "try_all accepts cap [] held = held"
| "try_all accepts cap (m # ms) held =
     try_all accepts cap ms (if accepts cap (length held) then held @ [m] else held)"

definition router_register ::
    "(nat \<Rightarrow> nat \<Rightarrow> bool) \<Rightarrow> public_identity \<Rightarrow> chan \<Rightarrow> router \<Rightarrow> router \<times> message list" where
  "router_register accepts i tx rt =
     (let (off, queued) = oq_drain i (rt_offline rt);
          held = try_all accepts (oq_capacity (rt_offline rt)) queued [] in
      (rt\<lparr>rt_offline := off, rt_peers := (rt_peers rt)(i \<mapsto> tx)\<rparr>, held))"

definition router_unregister :: "public_identity \<Rightarrow> router \<Rightarrow> router" where
  "router_unregister i rt = rt\<lparr>rt_peers := (rt_peers rt)(i := None)\<rparr>"

definition set_next_hop :: "public_identity \<Rightarrow> chan \<Rightarrow> router \<Rightarrow> router" where
  "set_next_hop i ch rt = rt\<lparr>rt_next_hops := (rt_next_hops rt)(i \<mapsto> ch)\<rparr>"

definition remove_next_hop :: "public_identity \<Rightarrow> router \<Rightarrow> router" where
  "remove_next_hop i rt = rt\<lparr>rt_next_hops := (rt_next_hops rt)(i := None)\<rparr>"

definition remove_next_hop_if_current :: "public_identity \<Rightarrow> chan \<Rightarrow> router \<Rightarrow> router" where
  "remove_next_hop_if_current i expected rt =
     (case rt_next_hops rt i of
        None \<Rightarrow> rt
      | Some current \<Rightarrow> if current = expected
          then rt\<lparr>rt_next_hops := (rt_next_hops rt)(i := None)\<rparr> else rt)"

definition has_next_hop :: "router \<Rightarrow> public_identity \<Rightarrow> bool" where
  "has_next_hop rt i \<longleftrightarrow> rt_next_hops rt i \<noteq> None"

definition set_relay :: "public_identity \<Rightarrow> router \<Rightarrow> router" where
  "set_relay i rt = rt\<lparr>rt_relays := (if i \<in> set (rt_relays rt) then rt_relays rt
     else rt_relays rt @ [i])\<rparr>"

definition remove_relay :: "public_identity \<Rightarrow> router \<Rightarrow> router" where
  "remove_relay i rt = rt\<lparr>rt_relays := filter (\<lambda>j. j \<noteq> i) (rt_relays rt)\<rparr>"

definition reachable_via :: "router \<Rightarrow> public_identity \<Rightarrow> bool" where
  "reachable_via rt i \<longleftrightarrow> rt_next_hops rt i \<noteq> None \<or> rt_relays rt \<noteq> []"

text \<open>The loop over the relays: a dead next hop is removed and the next relay tried.\<close>

fun relay_send ::
    "(chan \<Rightarrow> bool) \<Rightarrow> public_identity list \<Rightarrow> (public_identity \<rightharpoonup> chan) \<Rightarrow>
     (public_identity \<rightharpoonup> chan) \<times> chan option" where
  "relay_send alive [] hops = (hops, None)"
| "relay_send alive (r # rs) hops =
     (case hops r of
        None \<Rightarrow> relay_send alive rs hops
      | Some ch \<Rightarrow> if alive ch then (hops, Some ch) else relay_send alive rs (hops(r := None)))"

text \<open>\<open>Delivered\<close> is the \<open>Ok(None)\<close> of a send that reached a channel; \<open>Queued ev\<close> is the result
  of the offline queue's push.\<close>

datatype delivery = Delivered chan | Queued "message option"

text \<open>\<open>Router::send\<close>, in the order of the code: the local peer, then the next hop, then the
  relays, then the offline queue; a route that turns out dead is dropped on the way.\<close>

definition try_peer :: "(chan \<Rightarrow> bool) \<Rightarrow> public_identity \<Rightarrow> router \<Rightarrow> router \<times> chan option" where
  "try_peer alive i rt = (case rt_peers rt i of
       None \<Rightarrow> (rt, None)
     | Some ch \<Rightarrow> if alive ch then (rt, Some ch)
         else (rt\<lparr>rt_peers := (rt_peers rt)(i := None)\<rparr>, None))"

definition try_next_hop :: "(chan \<Rightarrow> bool) \<Rightarrow> public_identity \<Rightarrow> router \<Rightarrow> router \<times> chan option" where
  "try_next_hop alive i rt = (case rt_next_hops rt i of
       None \<Rightarrow> (rt, None)
     | Some ch \<Rightarrow> if alive ch then (rt, Some ch)
         else (rt\<lparr>rt_next_hops := (rt_next_hops rt)(i := None)\<rparr>, None))"

definition try_relays :: "(chan \<Rightarrow> bool) \<Rightarrow> router \<Rightarrow> router \<times> chan option" where
  "try_relays alive rt = (let (hops, res) = relay_send alive (rt_relays rt) (rt_next_hops rt) in
     (rt\<lparr>rt_next_hops := hops\<rparr>, res))"

definition router_send ::
    "(chan \<Rightarrow> bool) \<Rightarrow> message codec \<Rightarrow> message \<Rightarrow> (router, io_error, delivery) op" where
  "router_send alive K m rt = (case validate_size K m of
       Inl e \<Rightarrow> (rt, Inl e)
     | Inr _ \<Rightarrow> (case try_peer alive (m_recipient m) rt of
         (rt1, Some ch) \<Rightarrow> (rt1, Inr (Delivered ch))
       | (rt1, None) \<Rightarrow> (case try_next_hop alive (m_recipient m) rt1 of
           (rt2, Some ch) \<Rightarrow> (rt2, Inr (Delivered ch))
         | (rt2, None) \<Rightarrow> (case try_relays alive rt2 of
             (rt3, Some ch) \<Rightarrow> (rt3, Inr (Delivered ch))
           | (rt3, None) \<Rightarrow> (let (off, ev) = oq_push m (rt_offline rt3) in
               (rt3\<lparr>rt_offline := off\<rparr>, Inr (Queued ev)))))))"

definition router_queued :: "router \<Rightarrow> public_identity \<Rightarrow> nat" where
  "router_queued rt i = oq_len (rt_offline rt) i"

section \<open>Where a message goes\<close>

definition direct_route :: "(chan \<Rightarrow> bool) \<Rightarrow> router \<Rightarrow> public_identity \<Rightarrow> chan \<Rightarrow> bool" where
  "direct_route alive rt i ch \<longleftrightarrow>
     (rt_peers rt i = Some ch \<or> rt_next_hops rt i = Some ch) \<and> alive ch"

definition relay_route :: "(chan \<Rightarrow> bool) \<Rightarrow> router \<Rightarrow> chan \<Rightarrow> bool" where
  "relay_route alive rt ch \<longleftrightarrow> (\<exists>r \<in> set (rt_relays rt). rt_next_hops rt r = Some ch) \<and> alive ch"

lemma relay_send_Some:
  "relay_send alive rs hops = (hops', Some ch) \<Longrightarrow> alive ch \<and> (\<exists>r \<in> set rs. hops r = Some ch)"
proof (induction rs arbitrary: hops)
  case Nil
  then show ?case by simp
next
  case (Cons r rs)
  then show ?case
    by (fastforce split: option.splits if_splits)
qed

lemma relay_send_None:
  "relay_send alive rs hops = (hops', None) \<Longrightarrow> r \<in> set rs \<Longrightarrow> hops r = Some ch \<Longrightarrow> \<not> alive ch"
proof (induction rs arbitrary: hops)
  case Nil
  then show ?case by simp
next
  case (Cons q rs)
  show ?case
  proof (cases "r = q")
    case True
    with Cons.prems show ?thesis by (auto split: if_splits)
  next
    case False
    with Cons show ?thesis by (auto split: option.splits if_splits)
  qed
qed

lemma relay_send_hops:
  "relay_send alive rs hops = (hops', res) \<Longrightarrow> hops' i = Some ch \<Longrightarrow> hops i = Some ch"
proof (induction rs arbitrary: hops)
  case Nil
  then show ?case by simp
next
  case (Cons r rs)
  then show ?case by (fastforce split: option.splits if_splits)
qed

lemma relay_send_keeps_live:
  "relay_send alive rs hops = (hops', res) \<Longrightarrow> hops i = Some ch \<Longrightarrow> alive ch \<Longrightarrow> hops' i = Some ch"
proof (induction rs arbitrary: hops)
  case Nil
  then show ?case by simp
next
  case (Cons r rs)
  then show ?case by (fastforce split: option.splits if_splits)
qed

lemma try_peer_cases:
  assumes "try_peer alive i rt = (rt1, res)"
  shows "rt_next_hops rt1 = rt_next_hops rt" "rt_relays rt1 = rt_relays rt"
    "rt_offline rt1 = rt_offline rt" "res = Some ch \<Longrightarrow> rt_peers rt i = Some ch \<and> alive ch"
    "res = None \<Longrightarrow> rt_peers rt i = Some ch \<Longrightarrow> \<not> alive ch"
    "rt_peers rt1 j = Some ch \<Longrightarrow> rt_peers rt j = Some ch"
  using assms by (auto simp: try_peer_def split: option.splits if_splits)

lemma try_next_hop_cases:
  assumes "try_next_hop alive i rt = (rt1, res)"
  shows "rt_relays rt1 = rt_relays rt" "rt_offline rt1 = rt_offline rt"
    "res = Some ch \<Longrightarrow> rt_next_hops rt i = Some ch \<and> alive ch"
    "res = None \<Longrightarrow> rt_next_hops rt i = Some ch \<Longrightarrow> \<not> alive ch"
    "rt_next_hops rt1 j = Some ch \<Longrightarrow> rt_next_hops rt j = Some ch"
    "rt_next_hops rt j = Some ch \<Longrightarrow> alive ch \<Longrightarrow> rt_next_hops rt1 j = Some ch"
  using assms by (auto simp: try_next_hop_def split: option.splits if_splits)

text \<open>The whole of \<open>send\<close>, by the stage that settled it.\<close>

lemma router_send_cases:
  assumes "router_send alive K m rt = (rt', res)" and "validate_size K m = Inr u"
  obtains (direct) ch where "res = Inr (Delivered ch)" "direct_route alive rt (m_recipient m) ch"
      "rt_offline rt' = rt_offline rt"
    | (relay) ch where "res = Inr (Delivered ch)" "relay_route alive rt ch"
      "\<And>c. \<not> direct_route alive rt (m_recipient m) c" "rt_offline rt' = rt_offline rt"
    | (queue) ev where "res = Inr (Queued ev)" "\<And>c. \<not> direct_route alive rt (m_recipient m) c"
      "\<And>c. \<not> relay_route alive rt c" "oq_push m (rt_offline rt) = (rt_offline rt', ev)"
proof -
  let ?i = "m_recipient m"
  obtain rt1 r1 where p: "try_peer alive ?i rt = (rt1, r1)" by (cases "try_peer alive ?i rt")
  note P = try_peer_cases [OF p]
  obtain rt2 r2 where h: "try_next_hop alive ?i rt1 = (rt2, r2)"
    by (cases "try_next_hop alive ?i rt1")
  note H = try_next_hop_cases [OF h]
  obtain hops r3 where y: "relay_send alive (rt_relays rt2) (rt_next_hops rt2) = (hops, r3)"
    by (cases "relay_send alive (rt_relays rt2) (rt_next_hops rt2)")
  show thesis
  proof (cases r1)
    case (Some ch)
    with p assms P(3) P(4) [of ch] show thesis
      by (intro direct [of ch]) (auto simp: router_send_def direct_route_def)
  next
    case r1: None
    show thesis
    proof (cases r2)
      case (Some ch)
      with p h r1 assms P(1,3) H(2) H(3) [of ch] show thesis
        by (intro direct [of ch]) (auto simp: router_send_def direct_route_def)
    next
      case r2: None
      have nd: "\<not> direct_route alive rt ?i c" for c
        using P(5) [OF r1, of c] H(4) [OF r2, of c] P(1) by (auto simp: direct_route_def)
      show thesis
      proof (cases r3)
        case (Some ch)
        have "relay_route alive rt ch"
          using relay_send_Some [OF y [unfolded Some]] H(1) P(1,2) H(5) [of _ ch]
          by (auto simp: relay_route_def)
        with p h y r1 r2 Some assms nd P(3) H(2) show thesis
          by (intro relay [of ch]) (auto simp: router_send_def try_relays_def)
      next
        case None
        have "\<not> relay_route alive rt c" for c
          using relay_send_None [OF y [unfolded None], of _ c] H(1) P(1,2) H(6) [of _ c]
          by (auto simp: relay_route_def)
        moreover obtain off ev where "oq_push m (rt_offline rt) = (off, ev)"
          by (cases "oq_push m (rt_offline rt)")
        ultimately show thesis
          using p h y r1 r2 None assms nd P(3) H(2)
          by (intro queue [of ev]) (auto simp: router_send_def try_relays_def)
      qed
    qed
  qed
qed

text \<open>C19: a message of legal size is never lost and never duplicated by the router. It goes to
  exactly one live channel, a direct route when there is one and otherwise a relay, with the
  offline queue untouched; or, exactly when no live route of either kind exists, it is pushed to
  its recipient's offline queue. An oversized message changes nothing.\<close>

theorem router_send_exact:
  assumes "router_send alive K m rt = (rt', res)"
  shows "case validate_size K m of
      Inl e \<Rightarrow> res = Inl e \<and> rt' = rt
    | Inr _ \<Rightarrow> (case res of
        Inl e \<Rightarrow> False
      | Inr (Delivered ch) \<Rightarrow> rt_offline rt' = rt_offline rt \<and>
          (direct_route alive rt (m_recipient m) ch \<or>
           relay_route alive rt ch \<and> (\<forall>c. \<not> direct_route alive rt (m_recipient m) c))
      | Inr (Queued ev) \<Rightarrow> oq_push m (rt_offline rt) = (rt_offline rt', ev) \<and>
          (\<forall>c. \<not> direct_route alive rt (m_recipient m) c \<and> \<not> relay_route alive rt c))"
proof (cases "validate_size K m")
  case (Inl e)
  with assms show ?thesis by (simp add: router_send_def)
next
  case (Inr u)
  from assms Inr show ?thesis by (cases rule: router_send_cases) (simp_all add: Inr)
qed

section \<open>Queued messages and registration\<close>

definition tries_fit :: "(nat \<Rightarrow> nat \<Rightarrow> bool) \<Rightarrow> bool" where
  "tries_fit accepts \<longleftrightarrow> (\<forall>cap n. n < cap \<longrightarrow> accepts cap n)"

lemma try_all_fits:
  assumes "tries_fit accepts"
  shows "length held + length ms \<le> cap \<Longrightarrow> try_all accepts cap ms held = held @ ms"
  using assms by (induction ms arbitrary: held) (auto simp: tries_fit_def)

lemma register_flushes_all:
  assumes "tries_fit accepts" and "oq_good (rt_offline rt)"
    and "router_register accepts i tx rt = (rt', held)"
  shows "held = oq_entry (rt_offline rt) i" "oq_entry (rt_offline rt') i = []"
    "rt_peers rt' i = Some tx"
proof -
  let ?q = "rt_offline rt"
  have "try_all accepts (oq_capacity ?q) (oq_entry ?q i) [] = [] @ oq_entry ?q i"
    using assms(2) by (intro try_all_fits assms(1)) (simp add: oq_good_def)
  with assms(3) show "held = oq_entry ?q i" "oq_entry (rt_offline rt') i = []"
    "rt_peers rt' i = Some tx"
    by (auto simp: router_register_def oq_drain_def Let_def oq_entry_def)
qed

definition send_all :: "(chan \<Rightarrow> bool) \<Rightarrow> message codec \<Rightarrow> message list \<Rightarrow> router \<Rightarrow> router" where
  "send_all alive K ms rt = fold (\<lambda>m r. fst (router_send alive K m r)) ms rt"

lemma send_unrouted:
  assumes "rt_peers rt = Map.empty" "rt_next_hops rt = Map.empty"
  shows "fst (router_send alive K m rt) = (if is_ok (validate_size K m)
      then rt\<lparr>rt_offline := fst (oq_push m (rt_offline rt))\<rparr> else rt)"
proof -
  have "relay_send alive rs Map.empty = (Map.empty, None)" for rs
    by (induction rs) simp_all
  with assms show ?thesis
    by (auto simp: router_send_def try_peer_def try_next_hop_def try_relays_def split: sum.splits
        prod.splits)
qed

lemma send_all_unrouted:
  assumes "rt_peers rt = Map.empty" "rt_next_hops rt = Map.empty"
  shows "send_all alive K ms rt = rt\<lparr>rt_offline :=
    oq.push_all (filter (\<lambda>m. is_ok (validate_size K m)) ms) (rt_offline rt)\<rparr>"
  using assms
proof (induction ms arbitrary: rt)
  case Nil
  then show ?case by (simp add: send_all_def)
next
  case (Cons m ms)
  let ?rt = "fst (router_send alive K m rt)"
  have r: "?rt = (if is_ok (validate_size K m)
      then rt\<lparr>rt_offline := fst (oq_push m (rt_offline rt))\<rparr> else rt)"
    using Cons.prems by (rule send_unrouted)
  then have "rt_peers ?rt = Map.empty" "rt_next_hops ?rt = Map.empty"
    using Cons.prems by simp_all
  from Cons.IH [OF this] r show ?case by (simp add: send_all_def)
qed

text \<open>What a recipient finds when it comes online. Messages sent while a fresh router has no
  route for it are handed to its channel when it registers: the newest \<open>c\<close> of them, in the order
  they were sent, and the queue is empty afterwards.\<close>

theorem register_delivers_backlog:
  assumes "router_new c = Inr rt" and "tries_fit accepts"
    and "router_register accepts i tx (send_all alive K ms rt) = (rt', held)"
  shows "held = lastn c (filter (\<lambda>m. m_recipient m = i) (filter (\<lambda>m. is_ok (validate_size K m)) ms))
    \<and> router_queued rt' i = 0"
proof -
  from assms(1) have new: "oq_new c = Inr (rt_offline rt)"
    and none: "rt_peers rt = Map.empty" "rt_next_hops rt = Map.empty"
    by (auto simp: router_new_def bind_simps)
  note q = oq_new_good [OF new]
  let ?ok = "filter (\<lambda>m. is_ok (validate_size K m)) ms"
  let ?q = "oq.push_all ?ok (rt_offline rt)"
  have off: "rt_offline (send_all alive K ms rt) = ?q"
    by (simp add: send_all_unrouted [OF none])
  have g: "oq_good ?q" using q oq.push_all_good by blast
  have "oq_entry ?q i = lastn c (filter (\<lambda>m. m_recipient m = i) ?ok)"
    using oq.push_all_contents [of "rt_offline rt" ?ok i] q by simp
  moreover note register_flushes_all [OF assms(2) _ assms(3), unfolded off, OF g]
  ultimately show ?thesis by (simp add: router_queued_def oq_len_entry)
qed

section \<open>Closed instances\<close>

definition demo_router :: router where
  "demo_router = \<lparr>rt_peers = Map.empty, rt_next_hops = [demo_other \<mapsto> 5], rt_relays = [demo_other],
     rt_offline = \<lparr>oq_capacity = 2, oq_queues = Map.empty\<rparr>\<rparr>"

lemma router_send_exact_witness:
  "relay_route (\<lambda>ch. ch = 5) demo_router 5 \<and>
     (\<forall>c. \<not> direct_route (\<lambda>ch. ch = 5) demo_router (m_recipient demo_message) c)"
proof -
  have "router_send (\<lambda>ch. ch = 5) (table_codec [demo_message]) demo_message demo_router
      = (demo_router, Inr (Delivered 5))"
    by (simp add: router_send_def demo_valid try_peer_def try_next_hop_def try_relays_def
        demo_router_def)
  from router_send_exact [OF this] have "direct_route (\<lambda>ch. ch = 5) demo_router (m_recipient demo_message) 5
      \<or> relay_route (\<lambda>ch. ch = 5) demo_router 5 \<and>
        (\<forall>c. \<not> direct_route (\<lambda>ch. ch = 5) demo_router (m_recipient demo_message) c)"
    by (simp add: demo_valid)
  moreover have "\<not> direct_route (\<lambda>ch. ch = 5) demo_router (m_recipient demo_message) 5"
    by (simp add: direct_route_def demo_router_def)
  ultimately show ?thesis by blast
qed

lemma register_delivers_backlog_witness:
  "snd (router_register (\<lambda>cap n. n < cap) demo_peer 9 (send_all (\<lambda>_. False) (table_codec [demo_message])
     [demo_message, demo_message, demo_message] \<lparr>rt_peers = Map.empty, rt_next_hops = Map.empty,
       rt_relays = [], rt_offline = \<lparr>oq_capacity = 2, oq_queues = Map.empty\<rparr>\<rparr>))
     = [demo_message, demo_message]"
proof -
  let ?rt = "\<lparr>rt_peers = Map.empty, rt_next_hops = Map.empty, rt_relays = [],
    rt_offline = \<lparr>oq_capacity = 2, oq_queues = Map.empty\<rparr>\<rparr>"
  let ?s = "send_all (\<lambda>_. False) (table_codec [demo_message]) [demo_message, demo_message, demo_message] ?rt"
  let ?r = "router_register (\<lambda>cap n. n < cap) demo_peer 9 ?s"
  have "router_new 2 = Inr ?rt" by (simp add: router_new_def oq_new_def)
  moreover have "tries_fit (\<lambda>cap n. n < cap)" by (simp add: tries_fit_def)
  moreover have "?r = (fst ?r, snd ?r)" by simp
  ultimately have "snd ?r = lastn 2 (filter (\<lambda>m. m_recipient m = demo_peer)
      (filter (\<lambda>m. is_ok (validate_size (table_codec [demo_message]) m))
        [demo_message, demo_message, demo_message]))"
    using register_delivers_backlog by blast
  then show ?thesis by (simp add: demo_valid lastn_def)
qed

end
