(* ===== verification/NodeNet.thy ===== *)
theory NodeNet
  imports Router
begin

text \<open>
  \<open>src/node.rs\<close>: the allow list, inbound admission, dialling a bootstrap list, and the pump. The
  reader and writer tasks of every connection, its clean-up, local sends and local registrations
  are the events of a step relation; a step is one section that the code runs under the router's
  lock, so any interleaving of tasks is a sequence of steps.
\<close>

section \<open>Admission\<close>

type_synonym allow_list = "public_identity list option"

definition allow_open :: allow_list where "allow_open = None"
definition allow_only :: "public_identity list \<Rightarrow> allow_list" where "allow_only is = Some is"

definition permits :: "allow_list \<Rightarrow> public_identity \<Rightarrow> bool" where
  "permits al i = (case al of None \<Rightarrow> True | Some is \<Rightarrow> i \<in> set is)"

text \<open>The part of \<open>handle_inbound\<close> before the pump: it yields the identity to pump for.\<close>

definition handle_inbound ::
    "crates \<Rightarrow> handshake_codecs \<Rightarrow> identity \<Rightarrow> string list \<Rightarrow> bytes \<Rightarrow> bytes \<Rightarrow> allow_list \<Rightarrow>
     (duplex, io_error, public_identity) op" where
  "handle_inbound C K i fs sid nonce al =
     bindS (handshake C K i fs sid nonce) (\<lambda>r.
       let remote = h_identity (hs_remote r) in
       if \<not> permits al remote
       then raise (IoError PermissionDenied (''peer authenticated as '' @ fingerprint C remote @
              '' but is not on the allow list''))
       else ret remote)"

text \<open>\<open>dial\<close> up to the pump: \<open>conn n e\<close> is what connecting to entry \<open>e\<close> as the \<open>n\<close>-th attempt
  yields, an error or the connected stream with the address it reports; \<open>rnd n\<close> the random
  session id and nonce of that attempt. The result is the remote of the first handshake that
  succeeds, the connection's streams with it, or the last error.\<close>

fun dial_loop ::
    "crates \<Rightarrow> handshake_codecs \<Rightarrow> identity \<Rightarrow> string list \<Rightarrow> (nat \<Rightarrow> bytes \<times> bytes) \<Rightarrow>
     (nat \<Rightarrow> bootstrap_entry \<Rightarrow> io_error + (io_error + socket_addr) \<times> duplex) \<Rightarrow>
     bootstrap_entry list \<Rightarrow> nat \<Rightarrow> bootstrap_entry list \<Rightarrow> io_error option \<Rightarrow>
     io_error + public_identity \<times> duplex" where
  "dial_loop C K i fs rnd conn bs n [] last_err =
     Inl (case last_err of Some e \<Rightarrow> e
       | None \<Rightarrow> IoError NotFound ''no bootstrap core nodes configured'')"
| "dial_loop C K i fs rnd conn bs n (e # es) last_err =
     (case conn n e of
        Inl err \<Rightarrow> dial_loop C K i fs rnd conn bs (Suc n) es (Some err)
      | Inr (peer, d) \<Rightarrow>
          (case handshake_tcp_with_bootstrap C K i fs (fst (rnd n)) (snd (rnd n)) peer bs d of
             (d', Inr r) \<Rightarrow> Inr (h_identity (hs_remote r), d')
           | (_, Inl err) \<Rightarrow> dial_loop C K i fs rnd conn bs (Suc n) es (Some err)))"

definition dial where
  "dial C K i fs rnd conn bs = dial_loop C K i fs rnd conn bs 0 bs None"

text \<open>One poll of \<open>await_any_next_hop\<close>: done, timed out, or sleep and poll again.\<close>

datatype poll = Ready | GiveUp io_error | PollAgain

definition await_poll :: "router \<Rightarrow> public_identity list \<Rightarrow> bool \<Rightarrow> poll" where
  "await_poll rt is deadline_passed =
     (if list_ex (reachable_via rt) is then Ready
      else if deadline_passed
        then GiveUp (IoError TimedOut ''no configured core accepted the connection'')
      else PollAgain)"

lemma handle_inbound_ok:
  assumes "handle_inbound C K i fs sid nonce al d = (d', Inr remote)"
  shows "permits al remote"
    "\<exists>rh. remote = h_identity rh \<and> authenticated C K (new_hello C i fs sid) \<lparr>c_nonce = nonce\<rparr> rh"
proof -
  from assms obtain r d1 where h: "handshake C K i fs sid nonce d = (d1, Inr r)"
    and g: "(let remote = h_identity (hs_remote r) in
       if \<not> permits al remote
       then raise (IoError PermissionDenied (''peer authenticated as '' @ fingerprint C remote @
              '' but is not on the allow list''))
       else ret remote) d1 = (d', Inr remote)"
    unfolding handle_inbound_def bindS_ok_iff by blast
  from g have p: "permits al (h_identity (hs_remote r))" and r: "remote = h_identity (hs_remote r)"
    by (simp_all add: Let_def raise_def ret_def split: if_splits)
  show "permits al remote" using p r by simp
  show "\<exists>rh. remote = h_identity rh \<and>
      authenticated C K (new_hello C i fs sid) \<lparr>c_nonce = nonce\<rparr> rh"
    using handshake_inner_ok(1) [OF h [unfolded handshake_def]] r by blast
qed

lemma dial_loop_pinned:
  assumes "dial_loop C K i fs rnd conn bs n es le = Inr (remote, d')"
  shows "\<exists>e \<in> set bs. trusts e remote"
  using assms
proof (induction es arbitrary: n le)
  case Nil
  then show ?case by simp
next
  case (Cons e es)
  show ?case
  proof (cases "conn n e")
    case (Inl err)
    with Cons show ?thesis by simp
  next
    case (Inr c)
    obtain peer d where c: "c = (peer, d)" by (cases c)
    let ?h = "handshake_tcp_with_bootstrap C K i fs (fst (rnd n)) (snd (rnd n)) peer bs d"
    obtain d1 res where h: "?h = (d1, res)" by (cases ?h)
    show ?thesis
    proof (cases res)
      case (Inl err)
      with Cons Inr c h show ?thesis by simp
    next
      case res: (Inr r)
      with h obtain a e' where "find (\<lambda>e. be_address e = a) bs = Some e'"
        and hs: "handshake_inner C K i fs (fst (rnd n)) (snd (rnd n))
          (Some \<lparr>public_key = pinned_public_key e'\<rparr>) d = (d1, Inr r)"
        by (auto simp: handshake_tcp_with_bootstrap_def handshake_with_pinned_identity_def
            bindS_ok_iff lift_result_def bind_simps)
      then have "e' \<in> set bs" and "trusts e' (h_identity (hs_remote r))"
        using handshake_inner_ok(3) [OF hs] by (auto simp: trusts_def dest: find_Some_mem)
      moreover have "remote = h_identity (hs_remote r)"
        using Cons.prems Inr c h res by simp
      ultimately show ?thesis by blast
    qed
  qed
qed

section \<open>The pump\<close>

record connection =
  cn_remote :: public_identity
  cn_relay :: bool
  cn_reading :: bool
  cn_writing :: bool

text \<open>What the reader task makes of one frame: a message to route, or nothing. A frame that does
  not decode is skipped; on a direct connection so is a message with a foreign sender.\<close>

definition ingress :: "messaging_frame codec \<Rightarrow> bool \<Rightarrow> public_identity \<Rightarrow> bytes \<Rightarrow> message option" where
  "ingress F is_relay remote frame = (case mframe_decode F frame of
       Inl _ \<Rightarrow> None
     | Inr (MFMessage m) \<Rightarrow> if \<not> is_relay \<and> m_sender m \<noteq> remote then None else Some m)"

text \<open>The reader over everything the peer sent before its side of the stream ended.\<close>

definition reader_messages ::
    "crates \<Rightarrow> messaging_frame codec \<Rightarrow> bool \<Rightarrow> public_identity \<Rightarrow> bytes \<Rightarrow> message list" where
  "reader_messages C F is_relay remote stream =
     List.map_filter (ingress F is_relay remote) (frames.take_all C stream)"

text \<open>The writer task: messages that do not encode are skipped, a failed write ends it.\<close>

fun writer_run :: "crates \<Rightarrow> messaging_frame codec \<Rightarrow> message list \<Rightarrow> duplex \<Rightarrow> duplex" where
  "writer_run C F [] d = d"
| "writer_run C F (m # ms) d = (case mframe_encode F (MFMessage m) of
       Inl _ \<Rightarrow> writer_run C F ms d
     | Inr b \<Rightarrow> (case write_frame C b d of
         (d', Inl _) \<Rightarrow> d'
       | (d', Inr _) \<Rightarrow> writer_run C F ms d'))"

datatype origin = FromPeer public_identity | FromRelay public_identity | FromHere

record net =
  nt_router :: router
  nt_conns :: "chan \<rightharpoonup> connection"
  nt_used :: "chan set"
  nt_routed :: "(message \<times> origin) list"

datatype net_event =
    Connect chan public_identity bool | Frame chan bytes | ReaderEnds chan | WriterFails chan
  | Cleanup chan | LocalSend message | RegisterLocal chan public_identity

text \<open>A channel into a connection is alive while its writer runs; the others, handed out by
  \<open>register_local\<close>, as long as the program listens.\<close>

definition net_alive :: "(chan \<Rightarrow> bool) \<Rightarrow> net \<Rightarrow> chan \<Rightarrow> bool" where
  "net_alive listening n ch = (case nt_conns n ch of
       Some c \<Rightarrow> cn_writing c | None \<Rightarrow> listening ch)"

definition net_route :: "(chan \<Rightarrow> bool) \<Rightarrow> message codec \<Rightarrow> origin \<Rightarrow> message \<Rightarrow> net \<Rightarrow> net" where
  "net_route listening K o' m n =
     n\<lparr>nt_router := fst (router_send (net_alive listening n) K m (nt_router n)),
       nt_routed := nt_routed n @ [(m, o')]\<rparr>"

definition origin_of :: "connection \<Rightarrow> origin" where
  "origin_of c = (if cn_relay c then FromRelay (cn_remote c) else FromPeer (cn_remote c))"

definition net_init :: "router \<Rightarrow> net" where
  "net_init rt = \<lparr>nt_router = rt, nt_conns = Map.empty, nt_used = {}, nt_routed = []\<rparr>"

inductive net_step ::
    "message codec \<Rightarrow> messaging_frame codec \<Rightarrow> net \<Rightarrow> net_event \<Rightarrow> net \<Rightarrow> bool"
  for K F where
  connect: "ch \<notin> nt_used n \<Longrightarrow>
     rt = set_next_hop i ch (nt_router n) \<Longrightarrow>
     net_step K F n (Connect ch i relay)
       (n\<lparr>nt_router := (if relay then set_relay i rt else rt),
          nt_conns := (nt_conns n)(ch \<mapsto> \<lparr>cn_remote = i, cn_relay = relay, cn_reading = True,
            cn_writing = True\<rparr>),
          nt_used := insert ch (nt_used n)\<rparr>)"
| frame_routed: "nt_conns n ch = Some c \<Longrightarrow> cn_reading c \<Longrightarrow>
     ingress F (cn_relay c) (cn_remote c) b = Some m \<Longrightarrow>
     net_step K F n (Frame ch b) (net_route listening K (origin_of c) m n)"
| frame_dropped: "nt_conns n ch = Some c \<Longrightarrow> cn_reading c \<Longrightarrow>
     ingress F (cn_relay c) (cn_remote c) b = None \<Longrightarrow> net_step K F n (Frame ch b) n"
| reader_ends: "nt_conns n ch = Some c \<Longrightarrow> cn_reading c \<Longrightarrow>
     net_step K F n (ReaderEnds ch) (n\<lparr>nt_conns := (nt_conns n)(ch \<mapsto> c\<lparr>cn_reading := False\<rparr>)\<rparr>)"
| writer_fails: "nt_conns n ch = Some c \<Longrightarrow> cn_writing c \<Longrightarrow>
     net_step K F n (WriterFails ch) (n\<lparr>nt_conns := (nt_conns n)(ch \<mapsto> c\<lparr>cn_writing := False\<rparr>)\<rparr>)"
| cleanup: "nt_conns n ch = Some c \<Longrightarrow> \<not> cn_reading c \<Longrightarrow> \<not> cn_writing c \<Longrightarrow>
     rt = remove_next_hop_if_current (cn_remote c) ch (nt_router n) \<Longrightarrow>
     net_step K F n (Cleanup ch)
       (n\<lparr>nt_router := (if cn_relay c then remove_relay (cn_remote c) rt else rt),
          nt_conns := (nt_conns n)(ch := None)\<rparr>)"
| local_send: "net_step K F n (LocalSend m) (net_route listening K FromHere m n)"
| register_local: "ch \<notin> nt_used n \<Longrightarrow>
     router_register accepts i ch (nt_router n) = (rt, held) \<Longrightarrow>
     net_step K F n (RegisterLocal ch i)
       (n\<lparr>nt_router := rt, nt_used := insert ch (nt_used n)\<rparr>)"

inductive_cases net_step_frame: "net_step K F n (Frame ch b) n'"
inductive_cases net_step_cleanup: "net_step K F n (Cleanup ch) n'"

inductive net_reach ::
    "message codec \<Rightarrow> messaging_frame codec \<Rightarrow> nat \<Rightarrow> net_event list \<Rightarrow> net \<Rightarrow> bool"
  for K F cap where
  start: "router_new cap = Inr rt \<Longrightarrow> net_reach K F cap [] (net_init rt)"
| step: "net_reach K F cap evs n \<Longrightarrow> net_step K F n ev n' \<Longrightarrow> net_reach K F cap (evs @ [ev]) n'"

section \<open>Invariants\<close>

definition routes_current :: "net \<Rightarrow> bool" where
  "routes_current n \<longleftrightarrow> (\<forall>i ch. rt_next_hops (nt_router n) i = Some ch \<longrightarrow>
     (\<exists>c. nt_conns n ch = Some c \<and> cn_remote c = i))"

definition conns_used :: "net \<Rightarrow> bool" where
  "conns_used n \<longleftrightarrow> dom (nt_conns n) \<subseteq> nt_used n"

definition attributed :: "net \<Rightarrow> bool" where
  "attributed n \<longleftrightarrow> (\<forall>m i. (m, FromPeer i) \<in> set (nt_routed n) \<longrightarrow> m_sender m = i)"

definition queues_bounded :: "nat \<Rightarrow> net \<Rightarrow> bool" where
  "queues_bounded cap n \<longleftrightarrow> oq_good (rt_offline (nt_router n)) \<and>
     oq_capacity (rt_offline (nt_router n)) = cap"

definition net_inv :: "nat \<Rightarrow> net \<Rightarrow> bool" where
  "net_inv cap n \<longleftrightarrow> routes_current n \<and> conns_used n \<and> attributed n \<and> queues_bounded cap n"

lemmas net_inv_defs = net_inv_def routes_current_def conns_used_def attributed_def queues_bounded_def

lemma router_send_hops:
  assumes "rt_next_hops (fst (router_send alive K m rt)) i = Some ch"
  shows "rt_next_hops rt i = Some ch"
proof (cases "validate_size K m")
  case (Inl e)
  with assms show ?thesis by (simp add: router_send_def)
next
  case (Inr u)
  obtain rt1 r1 where p: "try_peer alive (m_recipient m) rt = (rt1, r1)"
    by (cases "try_peer alive (m_recipient m) rt")
  obtain rt2 r2 where h: "try_next_hop alive (m_recipient m) rt1 = (rt2, r2)"
    by (cases "try_next_hop alive (m_recipient m) rt1")
  obtain hops r3 where y: "relay_send alive (rt_relays rt2) (rt_next_hops rt2) = (hops, r3)"
    by (cases "relay_send alive (rt_relays rt2) (rt_next_hops rt2)")
  note facts = try_peer_cases(1) [OF p] try_next_hop_cases(5) [OF h, of i ch]
    relay_send_hops [OF y, of i ch]
  show ?thesis
    using assms p h y Inr facts
    by (auto simp: router_send_def try_relays_def split: option.splits prod.splits)
qed

lemma router_send_offline:
  assumes "oq_good (rt_offline rt)"
  shows "oq_good (rt_offline (fst (router_send alive K m rt))) \<and>
    oq_capacity (rt_offline (fst (router_send alive K m rt))) = oq_capacity (rt_offline rt)"
proof (cases "validate_size K m")
  case (Inl e)
  with assms show ?thesis by (simp add: router_send_def)
next
  case (Inr u)
  obtain rt' res where s: "router_send alive K m rt = (rt', res)"
    by (cases "router_send alive K m rt")
  from s Inr show ?thesis
  proof (cases rule: router_send_cases)
    case (queue ev)
    with oq.push_good [OF assms queue(4)] s show ?thesis by simp
  qed (use s assms in simp_all)
qed

lemma net_inv_init: "router_new cap = Inr rt \<Longrightarrow> net_inv cap (net_init rt)"
  using oq_new_good by (auto simp: net_inv_defs net_init_def router_new_def bind_simps)

lemma net_inv_route:
  assumes "net_inv cap n" and "\<And>i. o' = FromPeer i \<Longrightarrow> m_sender m = i"
  shows "net_inv cap (net_route listening K o' m n)"
  using assms router_send_hops [of "net_alive listening n" K m "nt_router n"]
    router_send_offline [of "nt_router n" "net_alive listening n" K m]
  by (auto simp: net_inv_defs net_route_def)

lemma ingress_sender: "ingress F False i b = Some m \<Longrightarrow> m_sender m = i"
  by (auto simp: ingress_def split: sum.splits messaging_frame.splits if_splits)

lemma net_inv_connect:
  assumes "net_inv cap n" and "ch \<notin> nt_used n"
    and "rt = set_next_hop i ch (nt_router n)"
  shows "net_inv cap (n\<lparr>nt_router := (if relay then set_relay i rt else rt),
          nt_conns := (nt_conns n)(ch \<mapsto> \<lparr>cn_remote = i, cn_relay = relay, cn_reading = True,
            cn_writing = True\<rparr>),
          nt_used := insert ch (nt_used n)\<rparr>)"
proof -
  have "routes_current n" "conns_used n" "attributed n" "queues_bounded cap n"
    using assms(1) by (simp_all add: net_inv_def)
  moreover from this(1,2) assms(2) have "rt_next_hops (nt_router n) j \<noteq> Some ch" for j
    by (force simp: routes_current_def conns_used_def)
  ultimately show ?thesis
    using assms(3) unfolding net_inv_defs
    by (auto simp: set_relay_def set_next_hop_def)
qed

lemma net_inv_cleanup:
  assumes "net_inv cap n" and "nt_conns n ch = Some c"
    and "rt = remove_next_hop_if_current (cn_remote c) ch (nt_router n)"
  shows "net_inv cap (n\<lparr>nt_router := (if cn_relay c then remove_relay (cn_remote c) rt else rt),
          nt_conns := (nt_conns n)(ch := None)\<rparr>)"
proof -
  have routes: "routes_current n" using assms(1) by (simp add: net_inv_def)
  have sub: "rt_next_hops rt j = Some d \<Longrightarrow> rt_next_hops (nt_router n) j = Some d \<and> d \<noteq> ch" for j d
    using assms(2,3) routes
    by (fastforce simp: remove_next_hop_if_current_def routes_current_def
        split: option.splits if_splits)
  have off: "rt_offline rt = rt_offline (nt_router n)"
    using assms(3) by (simp add: remove_next_hop_if_current_def split: option.splits)
  show ?thesis
    using assms(1) sub off unfolding net_inv_defs by (auto simp: remove_relay_def)
qed

lemma net_inv_step: "net_step K F n ev n' \<Longrightarrow> net_inv cap n \<Longrightarrow> net_inv cap n'"
proof (induction rule: net_step.induct)
  case (connect ch n rt i relay)
  then show ?case by (intro net_inv_connect)
next
  case (frame_routed n ch c b m listening)
  then show ?case
    by (intro net_inv_route) (auto simp: origin_of_def dest: ingress_sender split: if_splits)
next
  case (frame_dropped n ch c b)
  then show ?case by simp
next
  case (reader_ends n ch c)
  then show ?case by (fastforce simp: net_inv_defs)
next
  case (writer_fails n ch c)
  then show ?case by (fastforce simp: net_inv_defs)
next
  case (cleanup n ch c rt)
  then show ?case by (intro net_inv_cleanup)
next
  case (local_send n m listening)
  then show ?case by (intro net_inv_route) simp_all
next
  case (register_local ch n accepts i rt held)
  then have "oq_good (rt_offline rt) \<and>
      oq_capacity (rt_offline rt) = oq_capacity (rt_offline (nt_router n))"
    using oq.drain_good [of "rt_offline (nt_router n)" i]
    by (auto simp: router_register_def net_inv_defs Let_def split: prod.splits)
  moreover have "rt_next_hops rt = rt_next_hops (nt_router n)"
    using register_local by (auto simp: router_register_def Let_def split: prod.splits)
  ultimately show ?case using register_local.prems by (auto simp: net_inv_defs)
qed

lemma net_reach_inv: "net_reach K F cap evs n \<Longrightarrow> net_inv cap n"
  by (induction rule: net_reach.induct) (auto intro: net_inv_init net_inv_step)

section \<open>Properties of the node\<close>


text \<open>C1: in every state that connections, frames, failures, clean-ups and local sends can reach in
  any order: a message that entered the router over a direct connection names as its sender the
  identity that connection authenticated; every next hop is a connection to just that identity; and
  no recipient ever has more than \<open>cap\<close> messages queued.\<close>

theorem net_safe:
  assumes "net_reach K F cap evs n"
  shows "((m, FromPeer i) \<in> set (nt_routed n) \<longrightarrow> m_sender m = i)
    \<and> (rt_next_hops (nt_router n) j = Some ch \<longrightarrow>
        (\<exists>c. nt_conns n ch = Some c \<and> cn_remote c = j))
    \<and> router_queued (nt_router n) j \<le> cap"
  using net_reach_inv [OF assms]
  by (auto simp: net_inv_defs router_queued_def oq_len_entry oq_good_def)

text \<open>Tearing down a connection removes its own route and no other. A connection that has since
  replaced it as the next hop for the same identity keeps the route.\<close>

theorem stale_cleanup_harmless:
  assumes "net_reach K F cap evs n" and "net_step K F n (Cleanup ch) n'"
  shows "(rt_next_hops (nt_router n') j = Some ch' \<longleftrightarrow>
    rt_next_hops (nt_router n) j = Some ch' \<and> ch' \<noteq> ch)"
proof -
  have "routes_current n" using net_reach_inv [OF assms(1)] by (simp add: net_inv_def)
  then show ?thesis
    using assms(2)
    by (elim net_step_cleanup)
      (fastforce simp: remove_next_hop_if_current_def remove_relay_def routes_current_def
        split: option.splits if_splits)
qed

text \<open>A run with two connections to one identity, for the closed instances.\<close>

definition demo_conn :: "bool \<Rightarrow> bool \<Rightarrow> bool \<Rightarrow> connection" where
  "demo_conn relay r w = \<lparr>cn_remote = demo_peer, cn_relay = relay, cn_reading = r, cn_writing = w\<rparr>"

definition demo_net :: "bool \<Rightarrow> (chan \<rightharpoonup> connection) \<Rightarrow> chan set \<Rightarrow> chan option \<Rightarrow> net" where
  "demo_net relay conns used hop = \<lparr>nt_router = \<lparr>rt_peers = Map.empty,
       rt_next_hops = Map.empty(demo_peer := hop), rt_relays = (if relay then [demo_peer] else []),
       rt_offline = \<lparr>oq_capacity = 2, oq_queues = Map.empty\<rparr>\<rparr>,
     nt_conns = conns, nt_used = used, nt_routed = []\<rparr>"

lemma demo_reach_one:
  "net_reach K F 2 [Connect 1 demo_peer r] (demo_net r [1 \<mapsto> demo_conn r True True] {1} (Some 1))"
proof -
  have "net_reach K F 2 [] (demo_net False Map.empty {} None)"
    using net_reach.start [of 2] by (simp add: router_new_def oq_new_def net_init_def demo_net_def)
  from net_reach.step [OF this net_step.connect [where ch = 1 and i = demo_peer and relay = r]] show ?thesis
    by (cases r) (simp_all add: demo_net_def demo_conn_def set_next_hop_def set_relay_def fun_upd_def)
qed

lemma demo_reach_two:
  "net_reach K F 2 [Connect 1 demo_peer r, Connect 2 demo_peer r]
     (demo_net r [1 \<mapsto> demo_conn r True True, 2 \<mapsto> demo_conn r True True] {1, 2} (Some 2))"
proof -
  from net_reach.step [OF demo_reach_one [of K F r] net_step.connect [where ch = 2 and i = demo_peer and relay = r]]
  show ?thesis
    by (cases r) (simp_all add: demo_net_def demo_conn_def set_next_hop_def set_relay_def
        insert_commute)
qed

lemma demo_reach_ended:
  "net_reach K F 2 [Connect 1 demo_peer r, Connect 2 demo_peer r, ReaderEnds 1, WriterFails 1]
     (demo_net r [1 \<mapsto> demo_conn r False False, 2 \<mapsto> demo_conn r True True] {1, 2} (Some 2))"
proof -
  let ?n = "demo_net r [1 \<mapsto> demo_conn r False True, 2 \<mapsto> demo_conn r True True] {1, 2} (Some 2)"
  have 1: "net_step K F (demo_net r [1 \<mapsto> demo_conn r True True, 2 \<mapsto> demo_conn r True True] {1, 2}
      (Some 2)) (ReaderEnds 1) ?n"
    using net_step.reader_ends [of "demo_net r [1 \<mapsto> demo_conn r True True, 2 \<mapsto> demo_conn r True True]
      {1, 2} (Some 2)" 1 "demo_conn r True True" K F]
    by (simp add: demo_net_def demo_conn_def fun_upd_twist)
  have 2: "net_step K F ?n (WriterFails 1)
      (demo_net r [1 \<mapsto> demo_conn r False False, 2 \<mapsto> demo_conn r True True] {1, 2} (Some 2))"
    using net_step.writer_fails [of ?n 1 "demo_conn r False True" K F]
    by (simp add: demo_net_def demo_conn_def fun_upd_twist)
  from net_reach.step [OF net_reach.step [OF demo_reach_two 1] 2] show ?thesis by simp
qed

lemma demo_reach_cleaned:
  "net_reach K F 2 [Connect 1 demo_peer r, Connect 2 demo_peer r, ReaderEnds 1, WriterFails 1, Cleanup 1]
     (demo_net False [2 \<mapsto> demo_conn r True True] {1, 2} (Some 2))"
  "net_step K F (demo_net r [1 \<mapsto> demo_conn r False False, 2 \<mapsto> demo_conn r True True] {1, 2} (Some 2))
     (Cleanup 1) (demo_net False [2 \<mapsto> demo_conn r True True] {1, 2} (Some 2))"
proof -
  show s: "net_step K F (demo_net r [1 \<mapsto> demo_conn r False False, 2 \<mapsto> demo_conn r True True] {1, 2} (Some 2))
     (Cleanup 1) (demo_net False [2 \<mapsto> demo_conn r True True] {1, 2} (Some 2))"
    using net_step.cleanup [of "demo_net r [1 \<mapsto> demo_conn r False False, 2 \<mapsto> demo_conn r True True]
      {1, 2} (Some 2)" 1 "demo_conn r False False" _ K F]
    by (cases r) (simp_all add: demo_net_def demo_conn_def remove_next_hop_if_current_def
        remove_relay_def fun_upd_twist fun_upd_idem_iff)
  from net_reach.step [OF demo_reach_ended s] show
    "net_reach K F 2 [Connect 1 demo_peer r, Connect 2 demo_peer r, ReaderEnds 1, WriterFails 1, Cleanup 1]
     (demo_net False [2 \<mapsto> demo_conn r True True] {1, 2} (Some 2))" by simp
qed

lemma net_safe_witness:
  "\<exists>c. nt_conns (demo_net True [1 \<mapsto> demo_conn True True True] {1} (Some 1)) 1 = Some c \<and>
     cn_remote c = demo_peer"
  using net_safe [OF demo_reach_one [where r = True], of _ _ demo_peer 1]
  by (simp add: demo_net_def)

lemma stale_cleanup_harmless_witness:
  "rt_next_hops (nt_router (demo_net False [2 \<mapsto> demo_conn False True True] {1, 2} (Some 2))) demo_peer
     = Some 2"
  using stale_cleanup_harmless [OF demo_reach_ended [where r = False]
      demo_reach_cleaned(2) [where r = False], of demo_peer 2]
  by (simp add: demo_net_def)

text \<open>The relay mark has no such guard. When two relay connections to one core have overlapped
  and the older one is torn down, the core keeps its next hop but is no longer a relay: a device
  behind it is unreachable although the newer connection is up.\<close>

theorem stale_cleanup_drops_relay:
  "\<exists>n. net_reach K F 2 [Connect 1 demo_peer True, Connect 2 demo_peer True, ReaderEnds 1,
        WriterFails 1, Cleanup 1] n
    \<and> has_next_hop (nt_router n) demo_peer \<and> \<not> reachable_via (nt_router n) demo_other"
  using demo_reach_cleaned(1) [where r = True]
  by (intro exI) (auto simp: demo_net_def has_next_hop_def reachable_via_def demo_peer_def
      demo_other_def)

text \<open>A connection is cleaned up only after its writer has failed. While a peer has gone but
  nothing failed to be written yet, its route stays, and a message for it is taken by the dead
  connection's channel instead of being queued.\<close>

theorem departed_peer_keeps_route:
  assumes "nt_conns n ch = Some c" and "\<not> cn_reading c" and "cn_writing c"
    and "rt_next_hops (nt_router n) (cn_remote c) = Some ch"
    and "rt_peers (nt_router n) (cn_remote c) = None"
    and "m_recipient m = cn_remote c" and "validate_size K m = Inr ()"
  shows "(\<nexists>n'. net_step K F n (Cleanup ch) n')
    \<and> router_send (net_alive listening n) K m (nt_router n) = (nt_router n, Inr (Delivered ch))"
  using assms
  by (auto simp: router_send_def try_peer_def try_next_hop_def net_alive_def elim: net_step_cleanup)

lemma departed_peer_keeps_route_witness:
  "let n = demo_net False [1 \<mapsto> demo_conn False False True] {1} (Some 1) in
     (\<nexists>n'. net_step (table_codec [demo_message]) (table_codec []) n (Cleanup 1) n')
     \<and> router_send (net_alive (\<lambda>_. False) n) (table_codec [demo_message]) demo_message (nt_router n)
         = (nt_router n, Inr (Delivered 1))"
proof -
  let ?n = "demo_net False [1 \<mapsto> demo_conn False False True] {1} (Some 1)"
  have "nt_conns ?n 1 = Some (demo_conn False False True)"
    "rt_next_hops (nt_router ?n) demo_peer = Some 1" "rt_peers (nt_router ?n) demo_peer = None"
    by (simp_all add: demo_net_def)
  moreover have "validate_size (table_codec [demo_message]) demo_message = Inr ()"
    by (simp add: validate_size_def table_codec_def ok_or_def MAX_MESSAGE_SIZE_def)
  ultimately show ?thesis
    using departed_peer_keeps_route [of ?n 1 "demo_conn False False True" demo_message
        "table_codec [demo_message]" "table_codec []" "\<lambda>_. False"]
    by (simp add: demo_conn_def demo_message_def)
qed


end
