(* ===== verification/Files.thy ===== *)
theory Files
  imports Identity "HOL-Library.Multiset"
begin

text \<open>
  \<open>src/files/mod.rs\<close> and \<open>src/files/transfer.rs\<close>: signed manifests, chunks and their
  verification, the in-memory resume and transfer states, reconstruction, the receiver's cache on
  disk, and the retry coordinator.

  A manifest id and a file name come from the network and are joined to a path as they are
  (\<open>path_join\<close>). An index that runs past a vector is a panic in the code; here it is the error
  \<open>FPanic\<close>.
\<close>

definition DEFAULT_CHUNK_SIZE :: nat where "DEFAULT_CHUNK_SIZE = 768 * 1024"

record file_manifest =
  fm_version :: u16
  fm_name :: string
  fm_total_size :: u64
  fm_chunk_size :: u32
  fm_chunks :: "bytes list"
  fm_signer :: public_identity
  fm_signature :: bytes

record chunk =
  ck_index :: u32
  ck_hash :: bytes
  ck_data :: bytes

datatype file_error =
    FIo io_error | FCodec string | HashMismatch u32 | FInvalidSignature | InvalidIndex | FPanic

section \<open>Manifests\<close>

definition unsigned_bytes :: "file_manifest codec \<Rightarrow> file_manifest \<Rightarrow> file_error + bytes" where
  "unsigned_bytes M m = ok_or (FCodec ''postcard'') (enc M (m\<lparr>fm_signature := replicate 64 0\<rparr>))"

definition verify_signature :: "crates \<Rightarrow> file_manifest codec \<Rightarrow> file_manifest \<Rightarrow> file_error + unit" where
  "verify_signature C M m =
     bindR (map_err (\<lambda>_. FInvalidSignature) (verifying_key C (fm_signer m))) (\<lambda>k.
     bindR (unsigned_bytes M m) (\<lambda>b.
       if ed_verify C k b (fm_signature m) then Inr () else Inl FInvalidSignature))"

definition verify_manifest :: "crates \<Rightarrow> file_manifest codec \<Rightarrow> file_manifest \<Rightarrow> file_error + unit" where
  "verify_manifest C M m = bindR (verify_signature C M m) (\<lambda>_.
     if fm_chunks m = [] then Inl InvalidIndex else Inr ())"

text \<open>\<open>manifest_id\<close>; \<open>None\<close> stands for the panic of \<open>expect\<close>.\<close>

definition manifest_id :: "crates \<Rightarrow> file_manifest codec \<Rightarrow> file_manifest \<Rightarrow> string option" where
  "manifest_id C M m = (case unsigned_bytes M m of
       Inl _ \<Rightarrow> None | Inr b \<Rightarrow> Some (hash_hex C (blake3 C b)))"

text \<open>The read loop of \<open>build_manifest\<close>: \<open>blocks\<close> are the successive results of \<open>file.read\<close> up to
  the empty one, each at most a buffer long. The index is advanced with a checked addition.\<close>

fun build_chunks :: "crates \<Rightarrow> u32 \<Rightarrow> bytes list \<Rightarrow> file_error + chunk list" where
  "build_chunks C i [] = Inr []"
| "build_chunks C i (b # bs) =
     (let c = \<lparr>ck_index = i, ck_hash = blake3 C b, ck_data = b\<rparr> in
      if unat i + 1 < 2 ^ 32 then bindR (build_chunks C (i + 1) bs) (\<lambda>cs. Inr (c # cs))
      else Inl InvalidIndex)"

definition build_manifest ::
    "crates \<Rightarrow> file_manifest codec \<Rightarrow> identity \<Rightarrow> string option \<Rightarrow>
     io_error + u64 \<times> bytes list \<Rightarrow> nat \<Rightarrow> file_error + file_manifest \<times> chunk list" where
  "build_manifest C M i file_name source chunk_size =
     (if chunk_size = 0 \<or> chunk_size > 2 ^ 32 - 1 then Inl InvalidIndex
      else bindR (map_err FIo source) (\<lambda>(total, blocks).
        bindR (build_chunks C 0 blocks) (\<lambda>cs.
          let m = \<lparr>fm_version = 1,
                fm_name = (case file_name of None \<Rightarrow> ''unnamed'' | Some n \<Rightarrow> n),
                fm_total_size = total, fm_chunk_size = of_nat chunk_size,
                fm_chunks = map ck_hash cs, fm_signer = public_of C i,
                fm_signature = replicate 64 0\<rparr> in
          bindR (unsigned_bytes M m) (\<lambda>b. Inr (m\<lparr>fm_signature := sign_with C i b\<rparr>, cs)))))"

definition verify_chunk :: "crates \<Rightarrow> file_manifest \<Rightarrow> chunk \<Rightarrow> file_error + unit" where
  "verify_chunk C m c =
     (if unat (ck_index c) < length (fm_chunks m) then
        (let expected = fm_chunks m ! unat (ck_index c) in
         if expected \<noteq> ck_hash c \<or> blake3 C (ck_data c) \<noteq> expected
         then Inl (HashMismatch (ck_index c)) else Inr ())
      else Inl InvalidIndex)"

lemma verify_chunk_ok:
  "verify_chunk C m c = Inr u \<longleftrightarrow> unat (ck_index c) < length (fm_chunks m) \<and>
     fm_chunks m ! unat (ck_index c) = blake3 C (ck_data c) \<and> ck_hash c = blake3 C (ck_data c)"
  by (auto simp: verify_chunk_def Let_def)

section \<open>Resume and transfer states in memory\<close>

record resume_state =
  rs_verified :: "bool list"

definition resume_new :: "file_manifest \<Rightarrow> resume_state" where
  "resume_new m = \<lparr>rs_verified = replicate (length (fm_chunks m)) False\<rparr>"

definition resume_mark ::
    "crates \<Rightarrow> file_manifest \<Rightarrow> chunk \<Rightarrow> (resume_state, file_error, unit) op" where
  "resume_mark C m c r = (case verify_chunk C m c of
       Inl e \<Rightarrow> (r, Inl e)
     | Inr _ \<Rightarrow> if unat (ck_index c) < length (rs_verified r)
         then (r\<lparr>rs_verified := (rs_verified r)[unat (ck_index c) := True]\<rparr>, Inr ())
         else (r, Inl FPanic))"

definition resume_missing :: "resume_state \<Rightarrow> nat list" where
  "resume_missing r = filter (\<lambda>i. \<not> rs_verified r ! i) [0..<length (rs_verified r)]"

definition resume_complete :: "resume_state \<Rightarrow> bool" where
  "resume_complete r = list_all (\<lambda>x. x) (rs_verified r)"

record transfer_state =
  ts_manifest :: file_manifest
  ts_verified :: "u32 list"
  ts_lost :: "u32 list"

definition transfer_new :: "file_manifest \<Rightarrow> transfer_state" where
  "transfer_new m = \<lparr>ts_manifest = m, ts_verified = [], ts_lost = []\<rparr>"

definition ts_mark_verified :: "u32 \<Rightarrow> transfer_state \<Rightarrow> transfer_state" where
  "ts_mark_verified i t =
     (if i \<in> set (ts_verified t) then t else t\<lparr>ts_verified := ts_verified t @ [i]\<rparr>)"

definition ts_mark_lost :: "u32 \<Rightarrow> transfer_state \<Rightarrow> transfer_state" where
  "ts_mark_lost i t = (if i \<in> set (ts_lost t) then t else t\<lparr>ts_lost := ts_lost t @ [i]\<rparr>)"

definition ts_missing :: "transfer_state \<Rightarrow> u32 list" where
  "ts_missing t = filter (\<lambda>i. i \<notin> set (ts_verified t))
     (map of_nat [0..<length (fm_chunks (ts_manifest t))])"

definition ts_complete :: "transfer_state \<Rightarrow> bool" where
  "ts_complete t \<longleftrightarrow> length (ts_verified t) = length (fm_chunks (ts_manifest t))"

text \<open>A resume state agrees with what has been verified: \<open>missing\<close> and \<open>complete\<close> are exact.\<close>

lemma resume_mark_ok:
  assumes "resume_mark C m c r = (r', Inr u)"
  shows "verify_chunk C m c = Inr ()"
    "rs_verified r' = (rs_verified r)[unat (ck_index c) := True]"
    "set (resume_missing r') = set (resume_missing r) - {unat (ck_index c)}"
  using assms by (auto simp: resume_mark_def resume_missing_def nth_list_update
      split: sum.splits if_splits)

lemma resume_complete_iff: "resume_complete r \<longleftrightarrow> resume_missing r = []"
  by (auto simp: resume_complete_def resume_missing_def filter_empty_conv list_all_length)

text \<open>\<open>complete\<close> counts; on a well-formed state that is the same as nothing missing.\<close>

definition ts_wf :: "transfer_state \<Rightarrow> bool" where
  "ts_wf t \<longleftrightarrow> distinct (ts_verified t) \<and> length (fm_chunks (ts_manifest t)) \<le> 2 ^ 32 \<and>
     (\<forall>i \<in> set (ts_verified t). unat i < length (fm_chunks (ts_manifest t)))"

lemma ts_new_wf: "length (fm_chunks m) \<le> 2 ^ 32 \<Longrightarrow> ts_wf (transfer_new m)"
  by (simp add: ts_wf_def transfer_new_def)

lemma ts_mark_wf:
  "ts_wf t \<Longrightarrow> unat i < length (fm_chunks (ts_manifest t)) \<Longrightarrow> ts_wf (ts_mark_verified i t)"
  by (auto simp: ts_wf_def ts_mark_verified_def)

lemma ts_wf_image:
  assumes "ts_wf t"
  shows "unat ` set (ts_verified t) \<subseteq> {..<length (fm_chunks (ts_manifest t))}"
    "card (unat ` set (ts_verified t)) = length (ts_verified t)"
proof -
  show "unat ` set (ts_verified t) \<subseteq> {..<length (fm_chunks (ts_manifest t))}"
    using assms by (auto simp: ts_wf_def)
  have "inj_on unat (set (ts_verified t))" by (rule inj_onI) (simp add: word_unat_eq_iff)
  then show "card (unat ` set (ts_verified t)) = length (ts_verified t)"
    using assms by (simp add: card_image distinct_card ts_wf_def)
qed

lemma ts_complete_missing:
  assumes "ts_wf t"
  shows "ts_complete t \<longleftrightarrow> ts_missing t = []"
proof -
  let ?n = "length (fm_chunks (ts_manifest t))" and ?V = "unat ` set (ts_verified t)"
  have small: "i < ?n \<Longrightarrow> unat (of_nat i :: u32) = i" for i
    using assms by (simp add: ts_wf_def unat_of_nat)
  have "ts_complete t \<longleftrightarrow> ?V = {..<?n}"
  proof
    assume "ts_complete t"
    then have "card ?V = card {..<?n}" using ts_wf_image(2) [OF assms] by (simp add: ts_complete_def)
    then show "?V = {..<?n}" using ts_wf_image(1) [OF assms] by (simp add: card_subset_eq)
  next
    assume "?V = {..<?n}"
    then have "card ?V = ?n" by simp
    then show "ts_complete t" using ts_wf_image(2) [OF assms] by (simp add: ts_complete_def)
  qed
  also have "\<dots> \<longleftrightarrow> (\<forall>i < ?n. (of_nat i :: u32) \<in> set (ts_verified t))"
  proof
    assume v: "?V = {..<?n}"
    show "\<forall>i < ?n. (of_nat i :: u32) \<in> set (ts_verified t)"
    proof (intro allI impI)
      fix i assume "i < ?n"
      with v obtain w where "w \<in> set (ts_verified t)" "unat w = i" by (metis imageE lessThan_iff)
      then show "(of_nat i :: u32) \<in> set (ts_verified t)" by auto
    qed
  next
    assume "\<forall>i < ?n. (of_nat i :: u32) \<in> set (ts_verified t)"
    then have "{..<?n} \<subseteq> ?V" using small by (force intro: image_eqI)
    then show "?V = {..<?n}" using ts_wf_image(1) [OF assms] by blast
  qed
  also have "\<dots> \<longleftrightarrow> ts_missing t = []"
    by (auto simp: ts_missing_def filter_empty_conv)
  finally show ?thesis .
qed

section \<open>The retry coordinator\<close>

definition DEFAULT_RETRY_BUDGET :: nat where "DEFAULT_RETRY_BUDGET = 3"

text \<open>One chunk index against the sources that the budget allows; \<open>cycle().take\<close> of at most as
  many as there are is a prefix.\<close>

definition fetch_attempts ::
    "crates \<Rightarrow> file_manifest \<Rightarrow> (u32 \<Rightarrow> file_error + chunk) list \<Rightarrow> nat \<Rightarrow> u32 \<Rightarrow> bool" where
  "fetch_attempts C m sources retry_budget i =
     list_ex (\<lambda>src. case src i of Inr c \<Rightarrow> is_ok (verify_chunk C m c) | Inl _ \<Rightarrow> False)
       (take (min (length sources) (max retry_budget 1)) sources)"

definition transfer_manifest ::
    "crates \<Rightarrow> file_manifest \<Rightarrow> (u32 \<Rightarrow> file_error + chunk) list \<Rightarrow> nat \<Rightarrow> transfer_state" where
  "transfer_manifest C m sources retry_budget =
     fold (\<lambda>i t. if fetch_attempts C m sources retry_budget i
         then ts_mark_verified i t else ts_mark_lost i t)
       (map of_nat [0..<unat (of_nat (length (fm_chunks m)) :: u32)]) (transfer_new m)"

lemma coordinator_fold:
  assumes "distinct is" "set is \<inter> set (ts_verified t) = {}" "set is \<inter> set (ts_lost t) = {}"
  shows "fold (\<lambda>i t. if P i then ts_mark_verified i t else ts_mark_lost i t) is t
    = t\<lparr>ts_verified := ts_verified t @ filter P is, ts_lost := ts_lost t @ filter (\<lambda>i. \<not> P i) is\<rparr>"
  using assms
proof (induction "is" arbitrary: t)
  case Nil
  then show ?case by simp
next
  case (Cons i "is")
  let ?t = "if P i then ts_mark_verified i t else ts_mark_lost i t"
  have "?t = (if P i then t\<lparr>ts_verified := ts_verified t @ [i]\<rparr> else t\<lparr>ts_lost := ts_lost t @ [i]\<rparr>)"
    using Cons.prems by (auto simp: ts_mark_verified_def ts_mark_lost_def)
  moreover have "set is \<inter> set (ts_verified ?t) = {}" "set is \<inter> set (ts_lost ?t) = {}"
    using Cons.prems calculation by auto
  ultimately show ?case using Cons.IH [of ?t] Cons.prems(1) by auto
qed

lemma distinct_u32_range: "n < 2 ^ 32 \<Longrightarrow> distinct (map (of_nat :: nat \<Rightarrow> u32) [0..<n])"
proof -
  assume n: "n < 2 ^ 32"
  have "inj_on (of_nat :: nat \<Rightarrow> u32) {0..<n}"
  proof (rule inj_onI)
    fix x y assume "x \<in> {0..<n}" "y \<in> {0..<n}" "(of_nat x :: u32) = of_nat y"
    then have "unat (of_nat x :: u32) = unat (of_nat y :: u32)" by simp
    then show "x = y" using n \<open>x \<in> {0..<n}\<close> \<open>y \<in> {0..<n}\<close> by (simp add: unat_of_nat)
  qed
  then show ?thesis by (simp add: distinct_map)
qed

text \<open>The coordinator settles every chunk, exactly once. A chunk index is reported verified
  precisely when one of the sources within the budget delivered a chunk that passes verification
  against the manifest, and lost otherwise; both lists come in index order.\<close>

theorem transfer_manifest_settles:
  fixes C sources budget
  assumes "length (fm_chunks m) < 2 ^ 32"
  defines "t \<equiv> transfer_manifest C m sources budget"
    and "all \<equiv> map (of_nat :: nat \<Rightarrow> u32) [0..<length (fm_chunks m)]"
  shows "ts_verified t = filter (fetch_attempts C m sources budget) all
    \<and> ts_lost t = filter (\<lambda>i. \<not> fetch_attempts C m sources budget i) all
    \<and> (ts_complete t \<longleftrightarrow> ts_lost t = [])"
proof -
  have len: "unat (of_nat (length (fm_chunks m)) :: u32) = length (fm_chunks m)"
    using assms(1) by (simp add: unat_of_nat)
  have d: "distinct all" unfolding all_def by (rule distinct_u32_range [OF assms(1)])
  have t: "t = (transfer_new m)\<lparr>ts_verified := filter (fetch_attempts C m sources budget) all,
      ts_lost := filter (\<lambda>i. \<not> fetch_attempts C m sources budget i) all\<rparr>"
    unfolding t_def transfer_manifest_def len all_def [symmetric]
    by (subst coordinator_fold [OF d]) (simp_all add: transfer_new_def)
  have "length (filter P all) = length all \<longleftrightarrow> filter (\<lambda>i. \<not> P i) all = []" for P
    by (simp add: filter_empty_conv)
      (metis (no_types, lifting) filter_True length_filter_less less_irrefl)
  moreover have "length all = length (fm_chunks m)" by (simp add: all_def)
  ultimately show ?thesis by (simp add: t ts_complete_def transfer_new_def)
qed

section \<open>Reconstruction\<close>

fun write_chunks ::
    "crates \<Rightarrow> file_manifest \<Rightarrow> path \<Rightarrow> chunk list \<Rightarrow> (store, file_error, unit) op" where
  "write_chunks C m p [] s = (s, Inr ())"
| "write_chunks C m p (c # cs) s = (case verify_chunk C m c of
       Inl e \<Rightarrow> (s, Inl e)
     | Inr _ \<Rightarrow> (case fs_append p (ck_data c) s of
         (s', Inl e) \<Rightarrow> (s', Inl (FIo e))
       | (s', Inr _) \<Rightarrow> write_chunks C m p cs s'))"

definition check_size :: "file_manifest \<Rightarrow> path \<Rightarrow> (store, file_error, unit) op" where
  "check_size m p s = (case file_len p s of
       Inl e \<Rightarrow> (s, Inl (FIo e))
     | Inr n \<Rightarrow> if n \<noteq> unat (fm_total_size m)
         then (s, Inl (FIo (IoError InvalidData ''reconstructed size mismatch'')))
         else (s, Inr ()))"

definition reconstruct ::
    "crates \<Rightarrow> file_manifest \<Rightarrow> chunk list \<Rightarrow> path \<Rightarrow> (store, file_error, unit) op" where
  "reconstruct C m chunks p =
     bindS (map_errS FIo (fs_write p [])) (\<lambda>_.
     bindS (write_chunks C m p (sort_key ck_index chunks)) (\<lambda>_. check_size m p))"

lemma write_chunks_ok:
  assumes "write_chunks C m p cs s = (s', Inr u)" and "file_at s p = Some b"
  shows "file_at s' p = Some (b @ concat (map ck_data cs))"
    "c \<in> set cs \<Longrightarrow> verify_chunk C m c = Inr ()"
  using assms
proof (induction cs arbitrary: s b)
  case Nil
  { case 1 then show ?case by simp next case 2 then show ?case by simp }
next
  case (Cons d cs)
  have step: "verify_chunk C m d = Inr () \<and>
      write_chunks C m p cs (put_file p (b @ ck_data d) s) = (s', Inr u)"
    if "write_chunks C m p (d # cs) s = (s', Inr u)" "file_at s p = Some b" for s b
    using that by (auto simp: fs_append_def split: sum.splits prod.splits option.splits fault.splits)
  { case 1
    with step [OF 1] Cons.IH(1) [of "put_file p (b @ ck_data d) s" "b @ ck_data d"] show ?case
      by (simp add: store_simps)
  next
    case 2
    with step [OF 2(2,3)] Cons.IH(2) [of "put_file p (b @ ck_data d) s" "b @ ck_data d"] show ?case
      by (auto simp: store_simps) }
qed

lemma write_chunks_total:
  assumes "\<And>c. c \<in> set cs \<Longrightarrow> verify_chunk C m c = Inr ()"
    and "file_at s p = Some b" and "st_wfault s p = None"
  shows "\<exists>s'. write_chunks C m p cs s = (s', Inr ())"
  using assms
proof (induction cs arbitrary: s b)
  case Nil
  then show ?case by simp
next
  case (Cons c cs)
  have "fs_append p (ck_data c) s = (put_file p (b @ ck_data c) s, Inr ())"
    using Cons.prems by (simp add: fs_append_def)
  moreover have "\<exists>s'. write_chunks C m p cs (put_file p (b @ ck_data c) s) = (s', Inr ())"
    by (rule Cons.IH [where b = "b @ ck_data c"]) (use Cons.prems in \<open>simp_all add: store_simps\<close>)
  ultimately show ?case using Cons.prems(1) [of c] by simp
qed

text \<open>A reconstruction that succeeds wrote verified data, in index order, of the announced size.\<close>

lemma reconstruct_ok:
  assumes "reconstruct C m chunks p s = (s', Inr u)"
  shows "file_at s' p = Some (concat (map ck_data (sort_key ck_index chunks)))"
    "c \<in> set chunks \<Longrightarrow> verify_chunk C m c = Inr ()"
    "length (concat (map ck_data (sort_key ck_index chunks))) = unat (fm_total_size m)"
proof -
  let ?cs = "sort_key ck_index chunks"
  from assms obtain s1 s2 where w: "fs_write p [] s = (s1, Inr ())"
    and c: "write_chunks C m p ?cs s1 = (s2, Inr ())" and z: "check_size m p s2 = (s', Inr u)"
    by (auto simp: reconstruct_def bindS_ok_iff map_errS_ok)
  have "file_at s1 p = Some []" using fs_write_ok [OF w] by (simp add: store_simps)
  note wc = write_chunks_ok [OF c this]
  from z have "s' = s2" and n: "file_len p s2 = Inr (unat (fm_total_size m))"
    by (auto simp: check_size_def split: sum.splits if_splits)
  with wc show "file_at s' p = Some (concat (map ck_data ?cs))"
    and "c \<in> set chunks \<Longrightarrow> verify_chunk C m c = Inr ()"
    by simp_all
  show "length (concat (map ck_data ?cs)) = unat (fm_total_size m)"
    using n wc(1) by (simp add: file_len_def ok_or_def)
qed

lemma reconstruct_total:
  assumes "\<And>c. c \<in> set chunks \<Longrightarrow> verify_chunk C m c = Inr ()"
    and "length (concat (map ck_data (sort_key ck_index chunks))) = unat (fm_total_size m)"
    and "writable p s"
  shows "\<exists>s'. reconstruct C m chunks p s = (s', Inr ())"
proof -
  let ?cs = "sort_key ck_index chunks" and ?s1 = "put_file p [] s"
  have w: "fs_write p [] s = (?s1, Inr ())" using assms(3) by (rule fs_write_total)
  have f: "file_at ?s1 p = Some []" "st_wfault ?s1 p = None"
    using assms(3) by (simp_all add: store_simps writable_def)
  then obtain s2 where c: "write_chunks C m p ?cs ?s1 = (s2, Inr ())"
    using write_chunks_total [of ?cs C m ?s1 p "[]"] assms(1) by auto
  from write_chunks_ok(1) [OF c f(1)] have "check_size m p s2 = (s2, Inr ())"
    using assms(2) by (simp add: check_size_def file_len_def ok_or_def)
  with w c show ?thesis
    by (simp add: reconstruct_def bindS_def map_errS_def map_err_def)
qed

section \<open>Building and reconstructing\<close>

lemma build_chunks_ok:
  assumes "build_chunks C i bs = Inr cs"
  shows "map ck_data cs = bs" "\<forall>n < length cs. unat (ck_index (cs ! n)) = unat i + n"
    "\<forall>c \<in> set cs. ck_hash c = blake3 C (ck_data c)" "unat i + length cs < 2 ^ 32"
proof -
  have "map ck_data cs = bs \<and> (\<forall>n < length cs. unat (ck_index (cs ! n)) = unat i + n)
    \<and> (\<forall>c \<in> set cs. ck_hash c = blake3 C (ck_data c)) \<and> unat i + length cs < 2 ^ 32"
    using assms
  proof (induction bs arbitrary: i cs)
    case Nil
    then show ?case using unsigned_less [of i, where 'a = nat] by simp
  next
    case (Cons b bs)
    from Cons.prems obtain cs' where b: "unat i + 1 < 2 ^ 32" "build_chunks C (i + 1) bs = Inr cs'"
      and cs: "cs = \<lparr>ck_index = i, ck_hash = blake3 C b, ck_data = b\<rparr> # cs'"
      by (auto simp: Let_def bind_simps split: if_splits)
    have i1: "unat (i + 1) = unat i + 1" using b(1) by (simp add: unat_word_ariths)
    from Cons.IH [OF b(2)] cs i1 show ?case
      by (auto simp: nth_Cons split: nat.splits)
  qed
  then show "map ck_data cs = bs" "\<forall>n < length cs. unat (ck_index (cs ! n)) = unat i + n"
    "\<forall>c \<in> set cs. ck_hash c = blake3 C (ck_data c)" "unat i + length cs < 2 ^ 32" by blast+
qed

lemma build_manifest_ok:
  assumes "build_manifest C M i fname (Inr (sz, blocks)) csz = Inr (m, cs)"
  shows "build_chunks C 0 blocks = Inr cs" "fm_chunks m = map ck_hash cs"
    "fm_total_size m = sz" "fm_signer m = public_of C i"
    "\<exists>b. unsigned_bytes M m = Inr b \<and> fm_signature m = sign_with C i b"
  using assms
  by (auto simp: build_manifest_def Let_def bind_simps map_err_def unsigned_bytes_def
      split: if_splits option.splits)

lemma built_chunks_verify:
  assumes "build_manifest C M i fname (Inr (sz, blocks)) csz = Inr (m, cs)" and "c \<in> set cs"
  shows "verify_chunk C m c = Inr ()"
proof -
  note b = build_manifest_ok(1,2) [OF assms(1)]
  note k = build_chunks_ok [OF b(1)]
  from assms(2) obtain n where n: "n < length cs" "c = cs ! n" by (auto simp: in_set_conv_nth)
  then have "unat (ck_index c) = n" using k(2) by simp
  moreover have "ck_hash c = blake3 C (ck_data c)" using k(3) assms(2) by simp
  ultimately show ?thesis using n b(2) by (simp add: verify_chunk_ok)
qed

lemma built_signature_verifies:
  assumes "ed_complete C" and "build_manifest C M i fname (Inr (sz, blocks)) csz = Inr (m, cs)"
  shows "verify_signature C M m = Inr ()"
proof -
  note b = build_manifest_ok(4,5) [OF assms(2)]
  with assms(1) show ?thesis
    by (auto simp: verify_signature_def verifying_key_def ed_complete_key ed_complete_verify
        sign_with_def public_of_def map_err_def)
qed

lemma sort_key_perm:
  fixes f :: "'a \<Rightarrow> 'k :: linorder"
  assumes "sorted (map f cs)" and "distinct (map f cs)" and "mset xs = mset cs"
  shows "sort_key f xs = cs"
proof (rule properties_for_sort_key)
  have inj: "inj_on f (set cs)" using assms(2) by (simp add: distinct_map)
  fix k assume k: "k \<in> set cs"
  have "filter (\<lambda>x. f k = f x) ys = replicate (count (mset ys) k) k" if "set ys = set cs" for ys
    unfolding replicate_count_mset_eq_filter_eq
    using that k inj by (intro filter_cong) (auto dest: inj_onD)
  then show "filter (\<lambda>x. f k = f x) cs = filter (\<lambda>x. f k = f x) xs"
    using mset_eq_setD [OF assms(3)] assms(3) by simp
qed (use assms in simp_all)

lemma indexed_sorted:
  fixes f :: "'a \<Rightarrow> u32"
  assumes "\<forall>n < length cs. unat (f (cs ! n)) = n"
  shows "sorted (map f cs)" "distinct (map f cs)"
proof -
  show "sorted (map f cs)" using assms by (auto simp: sorted_iff_nth_mono word_le_nat_alt)
  show "distinct (map f cs)"
  proof (subst distinct_conv_nth, intro allI impI)
    fix a b assume "a < length (map f cs)" "b < length (map f cs)" "a \<noteq> b"
    then show "map f cs ! a \<noteq> map f cs ! b" using assms by (metis length_map nth_map)
  qed
qed

lemma sort_key_indexed:
  fixes cs :: "chunk list"
  assumes "\<forall>n < length cs. unat (ck_index (cs ! n)) = n" and "mset cs' = mset cs"
  shows "sort_key ck_index cs' = cs"
  using indexed_sorted [OF assms(1)] assms(2) by (rule sort_key_perm)

text \<open>C28: a manifest that was built from a file verifies under its signer's key, and the chunks
  that were built with it, received in any order, reconstruct the file byte for byte.\<close>

theorem build_reconstruct:
  assumes "ed_complete C"
    and built: "build_manifest C M i fname (Inr (sz, blocks)) csz = Inr (m, cs)"
    and whole: "length (concat blocks) = unat sz"
    and order: "mset arrived = mset cs" and w: "writable p s"
  shows "verify_signature C M m = Inr ()
    \<and> (\<exists>s'. reconstruct C m arrived p s = (s', Inr ()) \<and> file_at s' p = Some (concat blocks))"
proof -
  note b = build_manifest_ok [OF built]
  note k = build_chunks_ok [OF b(1)]
  have sorted: "sort_key ck_index arrived = cs"
    using k(2) order by (intro sort_key_indexed) simp_all
  have "\<And>c. c \<in> set arrived \<Longrightarrow> verify_chunk C m c = Inr ()"
    using built_chunks_verify [OF built] mset_eq_setD [OF order] by blast
  moreover have "length (concat (map ck_data (sort_key ck_index arrived))) = unat (fm_total_size m)"
    using whole k(1) b(3) by (simp add: sorted)
  ultimately obtain s' where r: "reconstruct C m arrived p s = (s', Inr ())"
    using reconstruct_total w by blast
  with reconstruct_ok(1) [OF r] k(1) built_signature_verifies [OF assms(1) built]
  show ?thesis by (simp add: sorted)
qed

definition demo_signer :: identity where
  "demo_signer = \<lparr>signing_key = [9], key_path = []\<rparr>"

definition demo_manifest :: file_manifest where
  "demo_manifest = \<lparr>fm_version = 1, fm_name = ''f'', fm_total_size = 3, fm_chunk_size = 2,
     fm_chunks = [[1, 2], [3]], fm_signer = \<lparr>public_key = [9]\<rparr>, fm_signature = [9]\<rparr>"

definition demo_fm_codec :: "file_manifest codec" where
  "demo_fm_codec = table_codec [demo_manifest\<lparr>fm_signature := replicate 64 0\<rparr>]"

definition demo_chunks :: "chunk list" where
  "demo_chunks = [\<lparr>ck_index = 0, ck_hash = [1, 2], ck_data = [1, 2]\<rparr>,
     \<lparr>ck_index = 1, ck_hash = [3], ck_data = [3]\<rparr>]"

lemma demo_built:
  "build_manifest demo_crates demo_fm_codec demo_signer (Some ''f'') (Inr (3, [[1, 2], [3]])) 2
     = Inr (demo_manifest, demo_chunks)"
  by (simp add: build_manifest_def map_err_def Let_def unsigned_bytes_def ok_or_def demo_fm_codec_def
      table_codec_def demo_crates_def demo_manifest_def demo_signer_def demo_chunks_def public_of_def
      sign_with_def)

lemma build_reconstruct_witness:
  "\<exists>s'. reconstruct demo_crates demo_manifest (rev demo_chunks) [''o''] (fresh_store []) = (s', Inr ())
     \<and> file_at s' [''o''] = Some [1, 2, 3]"
proof -
  have "mset (rev demo_chunks) = mset demo_chunks" "writable [''o''] (fresh_store [])"
    by (simp_all add: writable_def fresh_store_def is_dir_def prefixes_of_def)
  from build_reconstruct [OF demo_ed_complete demo_built _ this] show ?thesis by simp
qed

lemma transfer_manifest_settles_witness:
  "ts_lost (transfer_manifest demo_crates demo_manifest
     [\<lambda>i. if i = 0 then Inr (demo_chunks ! 0) else Inl InvalidIndex] 3) = [1]"
proof -
  have "length (fm_chunks demo_manifest) < 2 ^ 32" by (simp add: demo_manifest_def)
  from transfer_manifest_settles [OF this, of demo_crates
      "[\<lambda>i. if i = 0 then Inr (demo_chunks ! 0) else Inl InvalidIndex]" 3]
  show ?thesis
    by (simp add: demo_manifest_def fetch_attempts_def demo_chunks_def verify_chunk_def demo_crates_def)
qed

end
