(* ===== verification/Receiver.thy ===== *)
theory Receiver
  imports Files
begin

text \<open>
  The receiving half of \<open>src/files/mod.rs\<close>: the cache of an inbound transfer on disk. Under
  \<open>incoming/<id>\<close> lie the manifest, the record of the verified indices and one file per verified
  chunk; the file itself is assembled there when the last chunk arrives.
\<close>

section \<open>The cache on disk\<close>

definition transfers_dir :: "path \<Rightarrow> path" where
  "transfers_dir home = home @ [''incoming'']"

definition transfer_dir :: "path \<Rightarrow> string \<Rightarrow> path" where
  "transfer_dir home fid = path_join (transfers_dir home) fid"

text \<open>\<open>{:08}\<close>: decimal, padded with zeros to eight places.\<close>

definition pad8 :: "string \<Rightarrow> string" where
  "pad8 s = replicate (8 - length s) (CHR ''0'') @ s"

definition chunk_file :: "u32 \<Rightarrow> string" where
  "chunk_file i = pad8 (dec_digits (unat i)) @ ''.chunk''"

text \<open>A document of a transfer: the directory is created, the value encoded, written to a temporary
  and renamed.\<close>

definition save_under :: "'v codec \<Rightarrow> path \<Rightarrow> string \<Rightarrow> 'v \<Rightarrow> (store, file_error, unit) op" where
  "save_under c dir name v =
     bindS (map_errS FIo (fs_mkdirs dir)) (\<lambda>_.
     bindS (lift_result (ok_or (FCodec ''postcard'') (enc c v))) (\<lambda>b.
       map_errS FIo (write_then_rename (dir @ [name @ ''.tmp'']) (dir @ [name]) b)))"

definition load_under :: "'v codec \<Rightarrow> path \<Rightarrow> store \<Rightarrow> file_error + 'v" where
  "load_under c p s = bindR (map_err FIo (fs_read p s)) (\<lambda>b. ok_or (FCodec ''postcard'') (dec c b))"

definition write_received_manifest ::
    "file_manifest codec \<Rightarrow> path \<Rightarrow> string \<Rightarrow> file_manifest \<Rightarrow> (store, file_error, unit) op" where
  "write_received_manifest MC home fid m = save_under MC (transfer_dir home fid) ''manifest.json'' m"

definition load_received_manifest ::
    "file_manifest codec \<Rightarrow> path \<Rightarrow> string \<Rightarrow> store \<Rightarrow> file_error + file_manifest" where
  "load_received_manifest MC home fid = load_under MC (transfer_dir home fid @ [''manifest.json''])"

definition state_path :: "path \<Rightarrow> string \<Rightarrow> path" where
  "state_path home fid = transfer_dir home fid @ [''state.json'']"

definition save_transfer_state ::
    "transfer_state codec \<Rightarrow> path \<Rightarrow> string \<Rightarrow> transfer_state \<Rightarrow> (store, file_error, unit) op" where
  "save_transfer_state SC home fid t = save_under SC (transfer_dir home fid) ''state.json'' t"

definition load_transfer_state ::
    "transfer_state codec \<Rightarrow> path \<Rightarrow> string \<Rightarrow> store \<Rightarrow> file_error + transfer_state" where
  "load_transfer_state SC home fid = load_under SC (state_path home fid)"

definition resume_for ::
    "transfer_state codec \<Rightarrow> path \<Rightarrow> string \<Rightarrow> file_manifest \<Rightarrow> store \<Rightarrow> file_error + transfer_state" where
  "resume_for SC home fid m s = (case load_transfer_state SC home fid s of
       Inr t \<Rightarrow> Inr t | Inl _ \<Rightarrow> Inr (transfer_new m))"

record transfer_summary =
  sum_id :: string
  sum_name :: string
  sum_verified :: nat
  sum_total :: nat
  sum_lost :: nat

definition list_transfers ::
    "transfer_state codec \<Rightarrow> path \<Rightarrow> store \<Rightarrow> file_error + transfer_summary list" where
  "list_transfers SC home s =
     (if \<not> is_dir s (transfers_dir home) then Inr []
      else bindR (map_err FIo (fs_list_dir (transfers_dir home) s)) (\<lambda>ids.
        Inr (sort_key sum_id (concat (map (\<lambda>fid. case load_transfer_state SC home fid s of
            Inl _ \<Rightarrow> []
          | Inr t \<Rightarrow> [\<lparr>sum_id = fid, sum_name = fm_name (ts_manifest t),
              sum_verified = length (ts_verified t),
              sum_total = length (fm_chunks (ts_manifest t)),
              sum_lost = length (ts_lost t)\<rparr>]) ids)))))"

section \<open>Receiving a chunk\<close>

datatype receive_status = Verified bool | NeedsResend u32 string

text \<open>The loop of \<open>reconstruct_from_verified\<close>. Indexing the manifest past its end panics.\<close>

fun assemble :: "crates \<Rightarrow> file_manifest \<Rightarrow> path \<Rightarrow> path \<Rightarrow> u32 list \<Rightarrow> (store, file_error, unit) op" where
  "assemble C m chunk_dir out [] s = (s, Inr ())"
| "assemble C m chunk_dir out (i # is) s = (case fs_read (chunk_dir @ [chunk_file i]) s of
       Inl e \<Rightarrow> (s, Inl (FIo e))
     | Inr d \<Rightarrow>
         if unat i < length (fm_chunks m) then
           (case verify_chunk C m \<lparr>ck_index = i, ck_hash = fm_chunks m ! unat i, ck_data = d\<rparr> of
              Inl e \<Rightarrow> (s, Inl e)
            | Inr _ \<Rightarrow> (case fs_append out d s of
                (s', Inl e) \<Rightarrow> (s', Inl (FIo e))
              | (s', Inr _) \<Rightarrow> assemble C m chunk_dir out is s'))
         else (s, Inl FPanic))"

definition reconstruct_from_verified ::
    "crates \<Rightarrow> file_manifest \<Rightarrow> transfer_state \<Rightarrow> path \<Rightarrow> path \<Rightarrow> (store, file_error, unit) op" where
  "reconstruct_from_verified C m t chunk_dir out =
     bindS (map_errS FIo (fs_write out [])) (\<lambda>_.
     bindS (assemble C m chunk_dir out (sort (ts_verified t))) (\<lambda>_. check_size m out))"

definition all_verified :: "file_manifest \<Rightarrow> transfer_state \<Rightarrow> bool" where
  "all_verified m t \<longleftrightarrow> length (ts_verified t) = length (fm_chunks m)"

definition finish_transfer ::
    "crates \<Rightarrow> path \<Rightarrow> file_manifest \<Rightarrow> transfer_state \<Rightarrow> (store, file_error, receive_status) op" where
  "finish_transfer C dir m t =
     (if all_verified m t
      then bindS (reconstruct_from_verified C m t (dir @ [''chunks'']) (path_join dir (fm_name m)))
             (\<lambda>_. ret (Verified True))
      else ret (Verified False))"

definition receive_chunk ::
    "crates \<Rightarrow> file_manifest codec \<Rightarrow> transfer_state codec \<Rightarrow> path \<Rightarrow> string \<Rightarrow> chunk \<Rightarrow>
     (store, file_error, receive_status) op" where
  "receive_chunk C MC SC home fid c =
     (let dir = transfer_dir home fid; cdir = dir @ [''chunks''] in
      bindS (\<lambda>s. (s, load_received_manifest MC home fid s)) (\<lambda>m.
      bindS (lift_result (verify_chunk C m c)) (\<lambda>_.
      bindS (map_errS FIo (fs_mkdirs cdir)) (\<lambda>_.
      bindS (map_errS FIo (write_then_rename (cdir @ [chunk_file (ck_index c) @ ''.tmp''])
               (cdir @ [chunk_file (ck_index c)]) (ck_data c))) (\<lambda>_.
      bindS (\<lambda>s. (s, resume_for SC home fid m s)) (\<lambda>t.
        if ck_index c \<in> set (ts_verified t) then ret (Verified (all_verified m t))
        else
          (let t' = t\<lparr>ts_verified := ts_verified t @ [ck_index c]\<rparr> in
           bindS (save_transfer_state SC home fid t') (\<lambda>_. finish_transfer C dir m t'))))))))"

section \<open>Names of the cache\<close>

lemma foldl_zeros: "foldl (\<lambda>a c. 10 * a + ((of_char c :: nat) - 48)) 0 (replicate k (CHR ''0'')) = 0"
  by (induction k) simp_all

lemma undec_pad8: "undec (pad8 s) = undec s"
  by (simp add: undec_def pad8_def foldl_zeros)

lemma chunk_file_inj: "chunk_file i = chunk_file j \<longleftrightarrow> i = j"
proof
  assume "chunk_file i = chunk_file j"
  then have "undec (pad8 (dec_digits (unat i))) = undec (pad8 (dec_digits (unat j)))"
    by (simp add: chunk_file_def)
  then show "i = j" by (simp add: undec_pad8 undec_digits word_unat_eq_iff)
qed simp

text \<open>A temporary never has the name of a chunk: chunk names end in \<open>k\<close>.\<close>

lemma chunk_file_last: "last (chunk_file i) = CHR ''k''"
  by (simp add: chunk_file_def)

lemma chunk_file_not_tmp: "chunk_file i \<noteq> s @ ''.tmp''"
proof
  assume "chunk_file i = s @ ''.tmp''"
  then have "last (chunk_file i) = CHR ''p''" by simp
  then show False by (simp add: chunk_file_last)
qed

section \<open>Frames\<close>

lemma load_under_same:
  "same_file p s s' \<Longrightarrow> load_under c p s' = Inr v \<longleftrightarrow> load_under c p s = Inr v"
  by (auto simp: load_under_def same_file_def bind_simps)

lemma save_under_ok:
  assumes "save_under c dir name v s = (s', Inr u)"
  obtains t b where "fs_mkdirs dir s = (t, Inr ())" "enc c v = Some b"
    "write_then_rename (dir @ [name @ ''.tmp'']) (dir @ [name]) b t = (s', Inr u)"
  using assms
  by (auto simp: save_under_def bindS_ok_iff map_errS_ok lift_result_def bind_simps)

lemma same_file_save_under:
  assumes "save_under c dir name v s = (s', x)" and "q \<noteq> dir @ [name @ ''.tmp'']"
    and "q \<noteq> dir @ [name] \<or> (\<exists>e. x = Inl e)"
  shows "same_file q s s'"
  using assms(1) unfolding save_under_def
proof (cases rule: bindS_cases)
  case (1 e)
  then show ?thesis by (auto simp: map_errS_err intro: same_file_mkdirs)
next
  case (2 a t)
  then have q: "same_file q s t" by (auto simp: map_errS_ok intro: same_file_mkdirs)
  from 2(2) have "same_file q t s'"
  proof (cases rule: bindS_cases)
    case (1 e)
    then show ?thesis by (simp add: lift_result_def)
  next
    case (2 b t2)
    then have "map_errS FIo (write_then_rename (dir @ [name @ ''.tmp'']) (dir @ [name]) b) t = (s', x)"
      by (simp add: lift_result_def)
    then obtain y where y: "write_then_rename (dir @ [name @ ''.tmp'']) (dir @ [name]) b t = (s', y)"
      "x = map_err FIo y"
      by (auto simp: map_errS_def split: prod.splits)
    have "q \<noteq> dir @ [name] \<or> (\<exists>e. y = Inl e)"
      using assms(3) y(2) by (cases y) (auto simp: map_err_def)
    with y(1) assms(2) show ?thesis by (intro same_file_wtr) simp_all
  qed
  with q show ?thesis by (rule same_file_trans)
qed

lemma save_under_load:
  assumes "save_under c dir name v s = (s', Inr u)" and "codec_ok c"
    and "load_under c (dir @ [name]) s' = Inr w"
  shows "w = v"
proof -
  from assms(1) obtain t b where b: "enc c v = Some b"
    and w: "write_then_rename (dir @ [name @ ''.tmp'']) (dir @ [name]) b t = (s', Inr u)"
    by (rule save_under_ok)
  from write_then_rename_ok [OF w] have "file_at s' (dir @ [name]) = Some b" by simp
  then show ?thesis using assms(3) codec_okD [OF assms(2) b]
    by (auto simp: load_under_def fs_read_def bind_simps split: if_splits)
qed

lemma same_file_assemble:
  "assemble C m cd out is s = (s', x) \<Longrightarrow> q \<noteq> out \<Longrightarrow> same_file q s s'"
proof (induction "is" arbitrary: s)
  case Nil
  then show ?case by simp
next
  case (Cons i "is")
  from Cons.prems(1) consider "s' = s"
    | d t e where "fs_append out d s = (t, e)" "s' = t \<or> assemble C m cd out is t = (s', x)"
    by (auto split: sum.splits if_splits prod.splits)
  then show ?case
  proof cases
    case 1
    then show ?thesis by simp
  next
    case 2
    then show ?thesis using Cons.IH Cons.prems(2) same_file_append same_file_trans by blast
  qed
qed

lemma same_file_rewrite:
  assumes "fs_write out b s = (t, x)" and "assemble C m cd out is t = (s', y)" and "q \<noteq> out"
  shows "same_file q s s'"
  using same_file_write [OF assms(1,3)] same_file_assemble [OF assms(2,3)] by (rule same_file_trans)

lemma same_file_finish:
  assumes "finish_transfer C dir m t s = (s', x)" and "q \<noteq> path_join dir (fm_name m)"
  shows "same_file q s s'"
proof (cases "all_verified m t")
  case False
  then show ?thesis using assms(1) by (simp add: finish_transfer_def ret_def)
next
  case True
  then have "bindS (reconstruct_from_verified C m t (dir @ [''chunks'']) (path_join dir (fm_name m)))
      (\<lambda>_. ret (Verified True)) s = (s', x)"
    using assms(1) by (simp add: finish_transfer_def)
  then obtain y where
    "reconstruct_from_verified C m t (dir @ [''chunks'']) (path_join dir (fm_name m)) s = (s', y)"
    by (auto elim!: bindS_cases simp: ret_def)
  then show ?thesis
    unfolding reconstruct_from_verified_def using assms(2)
    by (auto elim!: bindS_cases dest!: map_errS_state simp: check_size_def
        intro: same_file_write same_file_rewrite
        split: sum.splits if_splits)
qed

section \<open>The cases of a receive\<close>

definition chunks_dir :: "path \<Rightarrow> string \<Rightarrow> path" where
  "chunks_dir home fid = transfer_dir home fid @ [''chunks'']"

definition chunk_path :: "path \<Rightarrow> string \<Rightarrow> u32 \<Rightarrow> path" where
  "chunk_path home fid i = chunks_dir home fid @ [chunk_file i]"

definition chunk_tmp :: "path \<Rightarrow> string \<Rightarrow> u32 \<Rightarrow> path" where
  "chunk_tmp home fid i = chunks_dir home fid @ [chunk_file i @ ''.tmp'']"

definition output_path :: "path \<Rightarrow> string \<Rightarrow> file_manifest \<Rightarrow> path" where
  "output_path home fid m = path_join (transfer_dir home fid) (fm_name m)"

lemmas cache_paths = chunks_dir_def chunk_path_def chunk_tmp_def output_path_def state_path_def

text \<open>The chunk is in the cache, and nothing else has changed but its temporary.\<close>

definition chunk_stored ::
    "crates \<Rightarrow> path \<Rightarrow> string \<Rightarrow> file_manifest \<Rightarrow> chunk \<Rightarrow> store \<Rightarrow> store \<Rightarrow> bool" where
  "chunk_stored C home fid m c s s' \<longleftrightarrow> verify_chunk C m c = Inr () \<and>
     file_at s' (chunk_path home fid (ck_index c)) = Some (ck_data c) \<and>
     (\<forall>q. q \<noteq> chunk_path home fid (ck_index c) \<longrightarrow> q \<noteq> chunk_tmp home fid (ck_index c) \<longrightarrow>
        same_file q s s')"

lemma resume_for_Inr: "\<exists>t. resume_for SC home fid m s = Inr t"
  by (auto simp: resume_for_def split: sum.splits)

lemma receive_chunk_cases:
  assumes "receive_chunk C MC SC home fid c s = (s', r)"
    and "load_received_manifest MC home fid s = Inr m"
  obtains (refused) e where "r = Inl e"
      "\<And>q. q \<noteq> chunk_tmp home fid (ck_index c) \<Longrightarrow> same_file q s s'"
  | (again) t where "chunk_stored C home fid m c s s'" "resume_for SC home fid m s' = Inr t"
      "ck_index c \<in> set (ts_verified t)" "r = Inr (Verified (all_verified m t))"
  | (unsaved) s2 t e where "chunk_stored C home fid m c s s2" "resume_for SC home fid m s2 = Inr t"
      "ck_index c \<notin> set (ts_verified t)" "r = Inl e"
      "save_transfer_state SC home fid (t\<lparr>ts_verified := ts_verified t @ [ck_index c]\<rparr>) s2 = (s', Inl e)"
  | (saved) s2 t s3 where "chunk_stored C home fid m c s s2" "resume_for SC home fid m s2 = Inr t"
      "ck_index c \<notin> set (ts_verified t)"
      "save_transfer_state SC home fid (t\<lparr>ts_verified := ts_verified t @ [ck_index c]\<rparr>) s2 = (s3, Inr ())"
      "finish_transfer C (transfer_dir home fid) m (t\<lparr>ts_verified := ts_verified t @ [ck_index c]\<rparr>) s3 = (s', r)"
proof -
  let ?cd = "chunks_dir home fid" and ?cp = "chunk_path home fid (ck_index c)"
    and ?ct = "chunk_tmp home fid (ck_index c)"
  have ne: "?ct \<noteq> ?cp" by (simp add: cache_paths)
  show thesis
  proof (cases "verify_chunk C m c")
    case (Inl e)
    then have "r = Inl e" "s' = s" using assms
      by (simp_all add: receive_chunk_def Let_def bindS_def lift_result_def)
    then show thesis by (intro refused) simp_all
  next
    case v: (Inr u)
    obtain s1 x where mk: "fs_mkdirs ?cd s = (s1, x)" by (cases "fs_mkdirs ?cd s")
    show thesis
    proof (cases x)
      case (Inl e)
      then have "r = Inl (FIo e)" "s' = s1" using assms v mk
        by (simp_all add: receive_chunk_def Let_def bindS_def lift_result_def cache_paths
            map_errS_def map_err_def)
      then show thesis using same_file_mkdirs [OF mk] by (intro refused) simp_all
    next
      case x: (Inr u')
      obtain s2 y where w: "write_then_rename ?ct ?cp (ck_data c) s1 = (s2, y)"
        by (cases "write_then_rename ?ct ?cp (ck_data c) s1")
      show thesis
      proof (cases y)
        case (Inl e)
        then have "r = Inl (FIo e)" "s' = s2" using assms v mk x w
          by (simp_all add: receive_chunk_def Let_def bindS_def lift_result_def cache_paths
            map_errS_def map_err_def)
        moreover have "same_file q s s2" if "q \<noteq> ?ct" for q
          using same_file_mkdirs [OF mk] same_file_wtr [OF w ne that] Inl same_file_trans by blast
        ultimately show thesis by (intro refused) simp_all
      next
        case y: (Inr u'')
        have "same_file q s s2" if "q \<noteq> ?cp" "q \<noteq> ?ct" for q
          using same_file_mkdirs [OF mk] same_file_wtr [OF w ne that(2)] that(1) same_file_trans by blast
        then have st: "chunk_stored C home fid m c s s2"
          using write_then_rename_ok [of ?ct ?cp "ck_data c" s1 s2 u'' ?cp] w y v ne
          by (simp add: chunk_stored_def)
        obtain t where t: "resume_for SC home fid m s2 = Inr t" using resume_for_Inr by blast
        let ?t = "t\<lparr>ts_verified := ts_verified t @ [ck_index c]\<rparr>"
        have run: "(if ck_index c \<in> set (ts_verified t) then ret (Verified (all_verified m t))
            else bindS (save_transfer_state SC home fid ?t)
              (\<lambda>_. finish_transfer C (transfer_dir home fid) m ?t)) s2 = (s', r)"
          using assms v mk x w y t
          by (simp add: receive_chunk_def bindS_def lift_result_def cache_paths map_errS_def
              map_err_def Let_def split: if_split_asm)
        show thesis
        proof (cases "ck_index c \<in> set (ts_verified t)")
          case True
          with run st t show thesis by (intro again) (auto simp: ret_def)
        next
          case False
          with run have "bindS (save_transfer_state SC home fid ?t)
              (\<lambda>_. finish_transfer C (transfer_dir home fid) m ?t) s2 = (s', r)" by simp
          then show thesis
          proof (cases rule: bindS_cases)
            case (1 e)
            with st t False show thesis by (intro unsaved)
          next
            case (2 a t')
            with st t False show thesis by (intro saved) simp_all
          qed
        qed
      qed
    qed
  qed
qed

section \<open>What the cache records\<close>

text \<open>\<open>D i d\<close> says that \<open>d\<close> is an acceptable content for the chunk with index \<open>i\<close>. The record of
  the transfer never claims more than what lies in the cache.\<close>

definition recorded ::
    "(u32 \<Rightarrow> bytes \<Rightarrow> bool) \<Rightarrow> path \<Rightarrow> string \<Rightarrow> file_manifest \<Rightarrow> transfer_state \<Rightarrow> store \<Rightarrow> bool" where
  "recorded D home fid m t s \<longleftrightarrow> ts_manifest t = m \<and> ts_lost t = [] \<and> distinct (ts_verified t) \<and>
     (\<forall>i \<in> set (ts_verified t). unat i < length (fm_chunks m) \<and>
        (\<exists>d. file_at s (chunk_path home fid i) = Some d \<and> D i d))"

definition cache_inv ::
    "(u32 \<Rightarrow> bytes \<Rightarrow> bool) \<Rightarrow> file_manifest codec \<Rightarrow> transfer_state codec \<Rightarrow> path \<Rightarrow> string \<Rightarrow>
     file_manifest \<Rightarrow> store \<Rightarrow> bool" where
  "cache_inv D MC SC home fid m s \<longleftrightarrow> load_received_manifest MC home fid s = Inr m \<and>
     (\<forall>t. load_transfer_state SC home fid s = Inr t \<longrightarrow> recorded D home fid m t s)"

definition hashed :: "crates \<Rightarrow> file_manifest \<Rightarrow> u32 \<Rightarrow> bytes \<Rightarrow> bool" where
  "hashed C m i d \<longleftrightarrow> blake3 C d = fm_chunks m ! unat i"

text \<open>The manifest's file name does not collide with the names of the cache.\<close>

definition safe_name :: "file_manifest \<Rightarrow> bool" where
  "safe_name m \<longleftrightarrow> plain_name (fm_name m) \<and>
     fm_name m \<notin> {''manifest.json'', ''state.json'', ''state.json.tmp'', ''chunks''}"

lemma output_path_safe: "safe_name m \<Longrightarrow> output_path home fid m = transfer_dir home fid @ [fm_name m]"
  by (simp add: safe_name_def output_path_def path_join_plain)

lemma cache_names:
  "chunk_path home fid i = chunk_path home fid j \<longleftrightarrow> i = j"
  "chunk_path home fid i \<noteq> chunk_tmp home fid j"
  "chunk_path home fid i \<noteq> transfer_dir home fid @ [n]"
  "chunk_tmp home fid i \<noteq> transfer_dir home fid @ [n]"
  "transfer_dir home fid @ [n] \<noteq> chunk_path home fid i"
  "transfer_dir home fid @ [n] \<noteq> chunk_tmp home fid i"
  "state_path home fid = transfer_dir home fid @ [''state.json'']"
  by (simp_all add: cache_paths chunk_file_inj chunk_file_not_tmp)

lemma recorded_same:
  assumes "\<And>i. same_file (chunk_path home fid i) s s'"
  shows "recorded D home fid m t s' = recorded D home fid m t s"
  using assms by (simp add: recorded_def same_file_def)

lemma recorded_new: "recorded D home fid m (transfer_new m) s"
  by (simp add: recorded_def transfer_new_def)

lemma recorded_add:
  assumes "recorded D home fid m t s" and "chunk_stored C home fid m c s s'"
    and "D (ck_index c) (ck_data c)"
  shows "recorded D home fid m t s'"
    "ck_index c \<notin> set (ts_verified t) \<Longrightarrow>
      recorded D home fid m (t\<lparr>ts_verified := ts_verified t @ [ck_index c]\<rparr>) s'"
proof -
  have at: "file_at s' (chunk_path home fid i) =
      (if i = ck_index c then Some (ck_data c) else file_at s (chunk_path home fid i))" for i
    using assms(2) by (auto simp: chunk_stored_def same_file_def cache_names)
  have "unat (ck_index c) < length (fm_chunks m)"
    using assms(2) by (simp add: chunk_stored_def verify_chunk_ok)
  with assms(1,3) show "recorded D home fid m t s'"
    and "ck_index c \<notin> set (ts_verified t) \<Longrightarrow>
      recorded D home fid m (t\<lparr>ts_verified := ts_verified t @ [ck_index c]\<rparr>) s'"
    by (auto simp: recorded_def at)
qed

lemma resume_recorded:
  assumes "\<forall>t. load_transfer_state SC home fid s = Inr t \<longrightarrow> recorded D home fid m t s"
    and "resume_for SC home fid m s = Inr t"
  shows "recorded D home fid m t s"
  using assms by (auto simp: resume_for_def recorded_new split: sum.splits)

lemma cache_inv_same:
  assumes "cache_inv D MC SC home fid m s" and "\<And>i. same_file (chunk_path home fid i) s s'"
    and "same_file (transfer_dir home fid @ [''manifest.json'']) s s'"
    and "same_file (state_path home fid) s s'"
  shows "cache_inv D MC SC home fid m s'"
  using assms(1)
  by (simp add: cache_inv_def load_received_manifest_def load_transfer_state_def
      recorded_same [OF assms(2)] load_under_same [OF assms(3)] load_under_same [OF assms(4)])

lemma cache_inv_stored:
  assumes "cache_inv D MC SC home fid m s" and "chunk_stored C home fid m c s s'"
    and "D (ck_index c) (ck_data c)"
  shows "cache_inv D MC SC home fid m s'"
proof -
  have other: "same_file (transfer_dir home fid @ [n]) s s'" for n
    using assms(2) by (simp add: chunk_stored_def cache_names)
  have man: "same_file (transfer_dir home fid @ [''manifest.json'']) s s'"
    and st: "same_file (state_path home fid) s s'"
    by (simp_all add: other cache_names)
  show ?thesis
    using assms(1) recorded_add(1) [where D = D, OF _ assms(2,3)]
    by (auto simp: cache_inv_def load_received_manifest_def load_transfer_state_def
        load_under_same [OF man] load_under_same [OF st])
qed

lemma same_file_save_state:
  assumes "save_transfer_state SC home fid t s = (s', x)"
    and "q \<noteq> transfer_dir home fid @ [''state.json.tmp'']" and "q \<noteq> state_path home fid \<or> (\<exists>e. x = Inl e)"
  shows "same_file q s s'"
  using assms same_file_save_under [of SC "transfer_dir home fid" "''state.json''" t s s' x q]
  by (simp add: save_transfer_state_def state_path_def)

lemma cache_inv_save:
  assumes "cache_inv D MC SC home fid m s" and "save_transfer_state SC home fid t s = (s', x)"
    and "recorded D home fid m t s" and "codec_ok SC"
  shows "cache_inv D MC SC home fid m s'"
proof -
  have other: "same_file q s s'"
    if "q \<noteq> transfer_dir home fid @ [''state.json'']" "q \<noteq> transfer_dir home fid @ [''state.json.tmp'']" for q
    using same_file_save_state [OF assms(2)] that by (simp add: state_path_def)
  have rec: "recorded D home fid m t' s' = recorded D home fid m t' s" for t'
    by (intro recorded_same other) (simp_all add: cache_names)
  have man: "same_file (transfer_dir home fid @ [''manifest.json'']) s s'" by (intro other) simp_all
  have "recorded D home fid m t' s" if "load_transfer_state SC home fid s' = Inr t'" for t'
  proof (cases x)
    case (Inl e)
    with assms(2) have "same_file (state_path home fid) s s'"
      by (intro same_file_save_state) (auto simp: state_path_def)
    from that assms(1) show ?thesis
      by (simp add: load_transfer_state_def cache_inv_def load_under_same [OF \<open>same_file (state_path home fid) s s'\<close>])
  next
    case (Inr u)
    with that assms(2,3,4) save_under_load [of SC "transfer_dir home fid" "''state.json''" t s s' u t']
    show ?thesis by (simp add: save_transfer_state_def load_transfer_state_def state_path_def)
  qed
  with assms(1) show ?thesis
    by (simp add: cache_inv_def load_received_manifest_def rec load_under_same [OF man])
qed

lemma cache_inv_finish:
  assumes "cache_inv D MC SC home fid m s" and "safe_name m"
    and "finish_transfer C (transfer_dir home fid) m t s = (s', x)"
  shows "cache_inv D MC SC home fid m s'"
proof -
  have "same_file q s s'" if "q \<noteq> transfer_dir home fid @ [fm_name m]" for q
    using same_file_finish [OF assms(3)] that output_path_safe [OF assms(2), of home fid]
    by (simp add: output_path_def)
  with assms(1,2) show ?thesis
    by (intro cache_inv_same [OF assms(1)]) (auto simp: cache_names safe_name_def)
qed

lemma resume_extended:
  assumes "cache_inv D MC SC home fid m s" and "chunk_stored C home fid m c s s2"
    and "verify_chunk C m c = Inr () \<Longrightarrow> D (ck_index c) (ck_data c)"
    and "resume_for SC home fid m s2 = Inr t" and "ck_index c \<notin> set (ts_verified t)"
  shows "cache_inv D MC SC home fid m s2"
    "recorded D home fid m (t\<lparr>ts_verified := ts_verified t @ [ck_index c]\<rparr>) s2"
proof -
  have d: "D (ck_index c) (ck_data c)" using assms(2,3) by (simp add: chunk_stored_def)
  show i2: "cache_inv D MC SC home fid m s2" by (rule cache_inv_stored [OF assms(1,2) d])
  then have rec: "recorded D home fid m t s2"
    using resume_recorded [OF _ assms(4)] by (simp add: cache_inv_def)
  have "chunk_stored C home fid m c s2 s2" using assms(2) by (simp add: chunk_stored_def)
  from recorded_add(2) [of D, OF rec this d assms(5)]
  show "recorded D home fid m (t\<lparr>ts_verified := ts_verified t @ [ck_index c]\<rparr>) s2" .
qed

lemma receive_keeps_inv:
  assumes inv: "cache_inv D MC SC home fid m s" and "safe_name m" and "codec_ok SC"
    and run: "receive_chunk C MC SC home fid c s = (s', r)"
    and D: "verify_chunk C m c = Inr () \<Longrightarrow> D (ck_index c) (ck_data c)"
  shows "cache_inv D MC SC home fid m s'"
proof -
  have "load_received_manifest MC home fid s = Inr m" using inv by (simp add: cache_inv_def)
  with run show ?thesis
  proof (cases rule: receive_chunk_cases)
    case refused
    then show ?thesis by (intro cache_inv_same [OF inv]) (simp_all add: cache_names)
  next
    case again
    then show ?thesis using D cache_inv_stored [OF inv again(1)] by (simp add: chunk_stored_def)
  next
    case (unsaved s2 t e)
    note x = resume_extended [OF inv unsaved(1) D unsaved(2,3)]
    show ?thesis by (rule cache_inv_save [OF x(1) unsaved(5) x(2) assms(3)])
  next
    case (saved s2 t s3)
    note x = resume_extended [OF inv saved(1) D saved(2,3)]
    have "cache_inv D MC SC home fid m s3" by (rule cache_inv_save [OF x(1) saved(4) x(2) assms(3)])
    then show ?thesis using assms(2) saved(5) by (rule cache_inv_finish)
  qed
qed

section \<open>A completed file\<close>

lemma full_indices:
  fixes vs :: "u32 list"
  assumes "distinct vs" and "\<forall>i \<in> set vs. unat i < n" and "length vs = n"
  shows "map unat (sort vs) = [0..<n]"
proof (rule sorted_distinct_set_unique)
  have inj: "inj_on unat (set vs)" by (rule inj_onI) (simp add: word_unat_eq_iff)
  show "sorted (map unat (sort vs))"
    using sorted_sort [of vs] by (simp add: sorted_map word_le_nat_alt [symmetric])
  show "distinct (map unat (sort vs))" using assms(1) inj by (simp add: distinct_map)
  have "unat ` set vs \<subseteq> {0..<n}" using assms(2) by auto
  moreover have "card (unat ` set vs) = card {0..<n}"
    using inj assms(1,3) by (simp add: card_image distinct_card)
  ultimately show "set (map unat (sort vs)) = set [0..<n]" by (simp add: card_subset_eq)
qed simp_all

lemma assemble_ok:
  assumes "assemble C m cd out is s = (s', Inr u)" and "\<And>i. out \<noteq> cd @ [chunk_file i]"
    and "file_at s out = Some b"
  obtains ds where "file_at s' out = Some (b @ concat ds)"
    "list_all2 (\<lambda>i d. file_at s (cd @ [chunk_file i]) = Some d \<and> hashed C m i d) is ds"
  using assms(1,3)
proof (induction "is" arbitrary: s b thesis)
  case Nil
  then show ?case by (auto intro: Nil.prems(1) [of "[]"])
next
  case (Cons i "is")
  from Cons.prems(2) obtain d t where r: "fs_read (cd @ [chunk_file i]) s = Inr d"
    and v: "verify_chunk C m \<lparr>ck_index = i, ck_hash = fm_chunks m ! unat i, ck_data = d\<rparr> = Inr ()"
    and a: "fs_append out d s = (t, Inr ())" and rest: "assemble C m cd out is t = (s', Inr u)"
    by (auto split: sum.splits if_splits prod.splits)
  have t: "t = put_file out (b @ d) s" using fs_append_ok [OF a] Cons.prems(3) by auto
  have "file_at t out = Some (b @ d)" by (simp add: t store_simps)
  with rest obtain ds where ds: "file_at s' out = Some ((b @ d) @ concat ds)"
    "list_all2 (\<lambda>i d. file_at t (cd @ [chunk_file i]) = Some d \<and> hashed C m i d) is ds"
    by (rule Cons.IH [rotated])
  have same: "file_at t (cd @ [chunk_file j]) = file_at s (cd @ [chunk_file j])" for j
    using assms(2) [of j] by (auto simp: t store_simps)
  have "file_at s (cd @ [chunk_file i]) = Some d"
    using r by (auto simp: fs_read_def bind_simps split: if_splits)
  moreover have "hashed C m i d" using v by (simp add: verify_chunk_ok hashed_def)
  ultimately show ?case using ds by (intro Cons.prems(1) [of "d # ds"]) (simp_all add: same)
qed

lemma finish_complete:
  assumes "finish_transfer C (transfer_dir home fid) m t s = (s', Inr (Verified True))"
    and "safe_name m"
  obtains ds where "file_at s' (output_path home fid m) = Some (concat ds)"
    "list_all2 (\<lambda>i d. file_at s (chunk_path home fid i) = Some d \<and> hashed C m i d) (sort (ts_verified t)) ds"
    "length (concat ds) = unat (fm_total_size m)" "all_verified m t"
proof -
  let ?out = "output_path home fid m" and ?cd = "transfer_dir home fid @ [''chunks'']"
  have out: "?out = path_join (transfer_dir home fid) (fm_name m)" by (simp add: output_path_def)
  have ne: "?out \<noteq> ?cd @ [chunk_file i]" for i
    using output_path_safe [OF assms(2), of home fid] by simp
  from assms(1) have all: "all_verified m t" by (auto simp: finish_transfer_def ret_def split: if_splits)
  with assms(1) obtain s1 s2 where w: "fs_write ?out [] s = (s1, Inr ())"
    and a: "assemble C m ?cd ?out (sort (ts_verified t)) s1 = (s2, Inr ())"
    and z: "check_size m ?out s2 = (s', Inr ())"
    by (auto simp: finish_transfer_def reconstruct_from_verified_def bindS_ok_iff map_errS_ok ret_def out)
  have s1: "s1 = put_file ?out [] s" using w by (rule fs_write_ok)
  have "file_at s1 ?out = Some []" by (simp add: s1 store_simps)
  with a ne obtain ds where ds: "file_at s2 ?out = Some ([] @ concat ds)"
    "list_all2 (\<lambda>i d. file_at s1 (?cd @ [chunk_file i]) = Some d \<and> hashed C m i d) (sort (ts_verified t)) ds"
    by (rule assemble_ok)
  have "file_at s1 (chunk_path home fid i) = file_at s (chunk_path home fid i)" for i
    using ne [of i] by (auto simp: s1 store_simps cache_paths)
  moreover have "s' = s2 \<and> length (concat ds) = unat (fm_total_size m)"
    using z ds(1) by (auto simp: check_size_def file_len_def bind_simps split: sum.splits if_splits)
  ultimately show thesis using ds all by (intro that [of ds]) (simp_all add: cache_paths)
qed

lemma hashed_all:
  assumes "list_all2 (\<lambda>i d. Q i d \<and> hashed C m i d) is ds" and "map unat is = [0..<length (fm_chunks m)]"
  shows "map (blake3 C) ds = fm_chunks m"
proof (rule nth_equalityI)
  have len: "length is = length (fm_chunks m)" using arg_cong [OF assms(2), of length] by simp
  then show "length (map (blake3 C) ds) = length (fm_chunks m)"
    using list_all2_lengthD [OF assms(1)] by simp
  fix k assume "k < length (map (blake3 C) ds)"
  then have k: "k < length ds" "k < length is" using list_all2_lengthD [OF assms(1)] by simp_all
  then have "unat (is ! k) = k" using arg_cong [OF assms(2), of "\<lambda>xs. xs ! k"] len by simp
  with list_all2_nthD [OF assms(1) k(2)] k show "map (blake3 C) ds ! k = fm_chunks m ! k"
    by (simp add: hashed_def)
qed

fun receive_all ::
    "crates \<Rightarrow> file_manifest codec \<Rightarrow> transfer_state codec \<Rightarrow> path \<Rightarrow> string \<Rightarrow> chunk list \<Rightarrow> store \<Rightarrow>
     store \<times> (file_error + receive_status) list" where
  "receive_all C MC SC home fid [] s = (s, [])"
| "receive_all C MC SC home fid (c # cs) s =
     (let (s1, r) = receive_chunk C MC SC home fid c s;
          (s2, rs) = receive_all C MC SC home fid cs s1 in (s2, r # rs))"

lemma receive_all_inv:
  assumes "cache_inv D MC SC home fid m s" and "safe_name m" and "codec_ok SC"
    and "\<And>c. c \<in> set cs \<Longrightarrow> verify_chunk C m c = Inr () \<Longrightarrow> D (ck_index c) (ck_data c)"
  shows "cache_inv D MC SC home fid m (fst (receive_all C MC SC home fid cs s))"
  using assms(1,4)
proof (induction cs arbitrary: s)
  case Nil
  then show ?case by simp
next
  case (Cons c cs)
  obtain s1 r where rc: "receive_chunk C MC SC home fid c s = (s1, r)"
    by (cases "receive_chunk C MC SC home fid c s")
  have "cache_inv D MC SC home fid m s1"
    by (rule receive_keeps_inv [OF Cons.prems(1) assms(2,3) rc]) (simp add: Cons.prems(2))
  then show ?case using Cons.IH [of s1] Cons.prems(2) by (simp add: rc case_prod_unfold Let_def)
qed

lemma cache_inv_start:
  assumes "load_received_manifest MC home fid s = Inr m" and "file_at s (state_path home fid) = None"
  shows "cache_inv D MC SC home fid m s"
  using assms
  by (auto simp: cache_inv_def load_transfer_state_def load_under_def fs_read_def bind_simps
      split: if_splits)

lemma received_now:
  assumes inv: "cache_inv D MC SC home fid m s" and "safe_name m" and "codec_ok SC"
    and run: "receive_chunk C MC SC home fid c s = (s', Inr (Verified True))"
    and D: "verify_chunk C m c = Inr () \<Longrightarrow> D (ck_index c) (ck_data c)"
    and new: "\<And>t. load_transfer_state SC home fid s = Inr t \<Longrightarrow> ck_index c \<notin> set (ts_verified t)"
  obtains ds "is" where "file_at s' (output_path home fid m) = Some (concat ds)"
    "list_all2 (\<lambda>i d. D i d \<and> hashed C m i d) is ds" "map unat is = [0..<length (fm_chunks m)]"
    "length (concat ds) = unat (fm_total_size m)"
proof -
  have "load_received_manifest MC home fid s = Inr m" using inv by (simp add: cache_inv_def)
  with run show thesis
  proof (cases rule: receive_chunk_cases)
    case (again t)
    have "same_file (state_path home fid) s s'"
      using again(1) by (simp add: chunk_stored_def cache_names)
    from load_under_same [OF this, of SC] again(2,3) new show thesis
      by (auto simp: resume_for_def load_transfer_state_def transfer_new_def split: sum.splits)
  next
    case (saved s2 t s3)
    let ?t = "t\<lparr>ts_verified := ts_verified t @ [ck_index c]\<rparr>"
    note x = resume_extended [OF inv saved(1) D saved(2,3)]
    have "recorded D home fid m ?t s3" using x(2)
      by (subst recorded_same [where s = s2])
        (auto intro!: same_file_save_state [OF saved(4)] simp: cache_names)
    then have rec: "distinct (ts_verified ?t)" "\<forall>i \<in> set (ts_verified ?t). unat i < length (fm_chunks m)"
      "\<And>i. i \<in> set (ts_verified ?t) \<Longrightarrow> \<exists>d. file_at s3 (chunk_path home fid i) = Some d \<and> D i d"
      by (auto simp: recorded_def simp del: transfer_state.simps(2))
    obtain ds where ds: "file_at s' (output_path home fid m) = Some (concat ds)"
      "list_all2 (\<lambda>i d. file_at s3 (chunk_path home fid i) = Some d \<and> hashed C m i d)
        (sort (ts_verified ?t)) ds"
      "length (concat ds) = unat (fm_total_size m)" "all_verified m ?t"
      using finish_complete [OF saved(5) assms(2)] .
    have "list_all2 (\<lambda>i d. D i d \<and> hashed C m i d) (sort (ts_verified ?t)) ds"
    proof (rule list.rel_mono_strong [OF ds(2)])
      fix i d assume "i \<in> set (sort (ts_verified ?t))"
        and "file_at s3 (chunk_path home fid i) = Some d \<and> hashed C m i d"
      then show "D i d \<and> hashed C m i d" using rec(3) [of i] by (auto simp del: transfer_state.simps(2))
    qed
    moreover have "map unat (sort (ts_verified ?t)) = [0..<length (fm_chunks m)]"
      using rec(1,2) ds(4) by (intro full_indices) (simp_all only: all_verified_def)
    ultimately show thesis using ds(1,3) that by blast
  qed simp_all
qed


section \<open>Progress on a disk without faults\<close>

definition calm :: "path \<Rightarrow> string \<Rightarrow> store \<Rightarrow> bool" where
  "calm home fid s \<longleftrightarrow> st_wfault s = (\<lambda>_. None) \<and> st_rfault s = (\<lambda>_. False) \<and>
     is_dir s (transfer_dir home fid) \<and>
     (\<forall>x y. is_dir s (transfer_dir home fid @ x # y) \<longrightarrow> x = ''chunks'' \<and> y = []) \<and>
     (\<forall>q \<in> set (prefixes_of (chunks_dir home fid)). file_at s q = None)"

lemma prefix_not_entry:
  assumes "q \<in> set (prefixes_of (chunks_dir home fid))"
  shows "q \<noteq> transfer_dir home fid @ [n] \<or> n = ''chunks''" "q \<noteq> chunks_dir home fid @ [x]"
    "length q \<le> length (transfer_dir home fid) \<or> q = chunks_dir home fid"
  using assms by (auto simp: prefixes_of_def chunks_dir_def take_Cons' dest: arg_cong [of _ _ length])

lemma calm_env:
  assumes "calm home fid s" and "is_dir s' = is_dir s" and "st_wfault s' = st_wfault s"
    and "st_rfault s' = st_rfault s"
    and "\<And>q. q \<in> set (prefixes_of (chunks_dir home fid)) \<Longrightarrow> file_at s' q = file_at s q"
  shows "calm home fid s'"
  using assms by (simp add: calm_def)

lemma calm_mkdirs:
  assumes "calm home fid s"
  obtains s1 where "fs_mkdirs (chunks_dir home fid) s = (s1, Inr ())" "calm home fid s1"
    "is_dir s1 (chunks_dir home fid)"
proof -
  let ?cd = "chunks_dir home fid"
  obtain s1 x where mk: "fs_mkdirs ?cd s = (s1, x)" by (cases "fs_mkdirs ?cd s")
  have none: "\<not> list_ex (\<lambda>q. file_at s q \<noteq> None) (prefixes_of ?cd)" and f: "st_wfault s = (\<lambda>_. None)"
    using assms by (auto simp: calm_def list_ex_iff)
  then have x: "x = Inr ()" using mk by (auto simp: fs_mkdirs_def split: if_splits)
  have dirs: "is_dir s1 q \<Longrightarrow> is_dir s q \<or> q \<in> set (prefixes_of ?cd)" for q
    using mk none f by (auto simp: fs_mkdirs_def is_dir_def split: if_splits)
  have "calm home fid s1"
    unfolding calm_def
  proof (intro conjI allI impI)
    show "st_wfault s1 = (\<lambda>_. None)" "st_rfault s1 = (\<lambda>_. False)"
      using assms fs_mkdirs_faults [OF mk] by (simp_all add: calm_def)
    show "is_dir s1 (transfer_dir home fid)"
      using assms fs_mkdirs_mono [OF mk] by (simp add: calm_def)
    show "\<forall>q \<in> set (prefixes_of ?cd). file_at s1 q = None"
      using assms fs_mkdirs_files [OF mk] by (simp add: calm_def)
  next
    fix x y assume "is_dir s1 (transfer_dir home fid @ x # y)"
    with dirs consider "is_dir s (transfer_dir home fid @ x # y)"
      | "transfer_dir home fid @ x # y \<in> set (prefixes_of ?cd)" by blast
    then have "x = ''chunks'' \<and> y = []"
    proof cases
      case 1
      then show ?thesis using assms by (simp add: calm_def)
    next
      case 2
      from prefix_not_entry(3) [OF this] show ?thesis by (simp add: chunks_dir_def)
    qed
    then show "x = ''chunks''" "y = []" by simp_all
  qed
  with mk x show thesis using fs_mkdirs_dir that by blast
qed

lemma calm_writable:
  assumes "calm home fid s"
  shows "n \<noteq> ''chunks'' \<Longrightarrow> writable (transfer_dir home fid @ [n]) s"
    "is_dir s (chunks_dir home fid) \<Longrightarrow> writable (chunks_dir home fid @ [x]) s"
proof -
  show "writable (transfer_dir home fid @ [n]) s" if "n \<noteq> ''chunks''"
    using assms that unfolding writable_def calm_def by (metis butlast_snoc)
  have "\<not> is_dir s (transfer_dir home fid @ ''chunks'' # [x])"
    using assms unfolding calm_def by blast
  then show "writable (chunks_dir home fid @ [x]) s" if "is_dir s (chunks_dir home fid)"
    using assms that unfolding writable_def chunks_dir_def calm_def
    by (metis append_Cons append_Nil append_assoc butlast_snoc)
qed

lemma calm_readable:
  assumes "calm home fid s" and "file_at s p = Some b" and "p = transfer_dir home fid @ x # y"
    and "x = ''chunks'' \<longrightarrow> y \<noteq> []"
  shows "fs_read p s = Inr b"
  using assms by (auto simp: calm_def fs_read_def ok_or_def)

lemma calm_store_chunk:
  assumes "calm home fid s" and "verify_chunk C m c = Inr ()"
  obtains s1 s2 where "fs_mkdirs (chunks_dir home fid) s = (s1, Inr ())"
    "write_then_rename (chunk_tmp home fid (ck_index c)) (chunk_path home fid (ck_index c))
       (ck_data c) s1 = (s2, Inr ())" "calm home fid s2" "chunk_stored C home fid m c s s2"
proof -
  let ?ct = "chunk_tmp home fid (ck_index c)" and ?cp = "chunk_path home fid (ck_index c)"
  from assms(1) obtain s1 where mk: "fs_mkdirs (chunks_dir home fid) s = (s1, Inr ())"
    and c1: "calm home fid s1" "is_dir s1 (chunks_dir home fid)" by (rule calm_mkdirs)
  from calm_writable(2) [OF c1] obtain s2 where
    w: "write_then_rename ?ct ?cp (ck_data c) s1 = (s2, Inr ())"
    using write_then_rename_total [of ?ct s1 ?cp] by (auto simp: chunk_tmp_def chunk_path_def)
  have ne: "?ct \<noteq> ?cp" by (simp add: cache_paths)
  note at = write_then_rename_ok [OF w ne] and env = write_then_rename_env [OF w]
  have "calm home fid s2"
    using prefix_not_entry(2) env
    by (intro calm_env [OF c1(1)]) (auto simp: at chunk_tmp_def chunk_path_def)
  moreover have "chunk_stored C home fid m c s s2"
    using same_file_wtr [OF w ne] same_file_trans [OF same_file_mkdirs [OF mk]] assms(2)
    by (simp add: chunk_stored_def at)
  ultimately show thesis using mk w that by blast
qed

lemma calm_save_under:
  assumes "calm home fid s" and "enc K v = Some b" and "codec_ok K"
    and "name \<noteq> ''chunks''" and "name @ ''.tmp'' \<noteq> ''chunks''"
  obtains s' where "save_under K (transfer_dir home fid) name v s = (s', Inr ())" "calm home fid s'"
    "load_under K (transfer_dir home fid @ [name]) s' = Inr v"
proof -
  let ?d = "transfer_dir home fid"
  let ?t = "?d @ [name @ ''.tmp'']" and ?p = "?d @ [name]"
  have dir: "fs_mkdirs ?d s = (s, Inr ())" using assms(1) by (simp add: calm_def store_simps)
  have "writable ?t s" "writable ?p s" using calm_writable(1) [OF assms(1)] assms(4,5) by simp_all
  then obtain s' where w: "write_then_rename ?t ?p b s = (s', Inr ())"
    using write_then_rename_total by blast
  then have sv: "save_under K ?d name v s = (s', Inr ())"
    using dir assms(2)
    by (simp add: save_under_def bindS_def map_errS_def map_err_def lift_result_def ok_or_def)
  have "?t \<noteq> ?p" by simp
  note at = write_then_rename_ok [OF w this] and env = write_then_rename_env [OF w]
  have c: "calm home fid s'"
    using prefix_not_entry(1) env assms(4,5) by (intro calm_env [OF assms(1)]) (force simp: at)+
  have "fs_read ?p s' = Inr b"
    by (rule calm_readable [OF c, where x = name and y = "[]"]) (simp_all add: at assms(4))
  then have "load_under K ?p s' = Inr v"
    using codec_okD [OF assms(3,2)] by (simp add: load_under_def map_err_def ok_or_def)
  with sv c show thesis using that by blast
qed

lemma calm_save_state:
  assumes "calm home fid s" and "enc SC t = Some b" and "codec_ok SC"
  obtains s' where "save_transfer_state SC home fid t s = (s', Inr ())" "calm home fid s'"
    "load_transfer_state SC home fid s' = Inr t"
  using calm_save_under [OF assms, of "''state.json''"]
  unfolding save_transfer_state_def load_transfer_state_def state_path_def by auto

lemma assemble_env:
  "assemble C m cd out is s = (s', x) \<Longrightarrow>
     is_dir s' = is_dir s \<and> st_wfault s' = st_wfault s \<and> st_rfault s' = st_rfault s"
proof (induction "is" arbitrary: s)
  case Nil
  then show ?case by simp
next
  case (Cons i "is")
  then show ?case
    by (fastforce split: sum.splits if_splits prod.splits dest: fs_append_env)
qed

lemma assemble_total:
  assumes "list_all2 (\<lambda>i d. fs_read (cd @ [chunk_file i]) s = Inr d \<and> hashed C m i d
      \<and> unat i < length (fm_chunks m)) is ds"
    and "\<And>i. out \<noteq> cd @ [chunk_file i]" and "file_at s out = Some b" and "st_wfault s out = None"
  shows "\<exists>s'. assemble C m cd out is s = (s', Inr ())"
  using assms(1,3,4)
proof (induction "is" arbitrary: s b ds)
  case Nil
  then show ?case by simp
next
  case (Cons i "is")
  from Cons.prems(1) obtain d ds' where r: "fs_read (cd @ [chunk_file i]) s = Inr d"
    and h: "hashed C m i d" "unat i < length (fm_chunks m)"
    and rest: "list_all2 (\<lambda>i d. fs_read (cd @ [chunk_file i]) s = Inr d \<and> hashed C m i d
      \<and> unat i < length (fm_chunks m)) is ds'"
    by (auto simp: list_all2_Cons1)
  let ?s = "put_file out (b @ d) s"
  have a: "fs_append out d s = (?s, Inr ())" using Cons.prems by (simp add: fs_append_def)
  have v: "verify_chunk C m \<lparr>ck_index = i, ck_hash = fm_chunks m ! unat i, ck_data = d\<rparr> = Inr ()"
    using h by (simp add: verify_chunk_ok hashed_def)
  have same: "fs_read (cd @ [chunk_file j]) ?s = fs_read (cd @ [chunk_file j]) s" for j
    using assms(2) [of j] by (auto simp: fs_read_def store_simps)
  have "\<exists>s'. assemble C m cd out is ?s = (s', Inr ())"
  proof (rule Cons.IH)
    show "list_all2 (\<lambda>i d. fs_read (cd @ [chunk_file i]) ?s = Inr d \<and> hashed C m i d
        \<and> unat i < length (fm_chunks m)) is ds'"
      using rest by (simp add: same)
  qed (use Cons.prems in \<open>simp_all add: store_simps\<close>)
  with a v r h show ?case by auto
qed

text \<open>What the announced size and the acceptable contents have to do with each other.\<close>

definition consistent :: "(u32 \<Rightarrow> bytes \<Rightarrow> bool) \<Rightarrow> crates \<Rightarrow> file_manifest \<Rightarrow> bool" where
  "consistent D C m \<longleftrightarrow> (\<forall>i d. D i d \<longrightarrow> unat i < length (fm_chunks m) \<longrightarrow> hashed C m i d) \<and>
     (\<forall>is ds. list_all2 D is ds \<longrightarrow> map unat is = [0..<length (fm_chunks m)] \<longrightarrow>
        length (concat ds) = unat (fm_total_size m))"

lemma recorded_data:
  assumes "recorded D home fid m t s"
  shows "\<exists>ds. list_all2 (\<lambda>i d. file_at s (chunk_path home fid i) = Some d \<and> D i d
    \<and> unat i < length (fm_chunks m)) (sort (ts_verified t)) ds"
proof
  show "list_all2 (\<lambda>i d. file_at s (chunk_path home fid i) = Some d \<and> D i d
      \<and> unat i < length (fm_chunks m)) (sort (ts_verified t))
    (map (\<lambda>i. the (file_at s (chunk_path home fid i))) (sort (ts_verified t)))"
    using assms by (auto simp: recorded_def list_all2_map2 list_all2_same)
qed

lemma calm_finish:
  assumes c: "calm home fid s" and "safe_name m" and rec: "recorded D home fid m t s"
    and con: "consistent D C m" and all: "all_verified m t"
  obtains s' ds where "finish_transfer C (transfer_dir home fid) m t s = (s', Inr (Verified True))"
    "calm home fid s'" "file_at s' (output_path home fid m) = Some (concat ds)"
    "list_all2 D (sort (ts_verified t)) ds"
proof -
  let ?d = "transfer_dir home fid" and ?out = "transfer_dir home fid @ [fm_name m]"
  let ?cd = "transfer_dir home fid @ [''chunks'']"
  have out: "path_join ?d (fm_name m) = ?out"
    using output_path_safe [OF assms(2), of home fid] by (simp add: output_path_def)
  have name: "fm_name m \<noteq> ''chunks''" using assms(2) by (simp add: safe_name_def)
  let ?s1 = "put_file ?out [] s"
  have w: "fs_write ?out [] s = (?s1, Inr ())" using calm_writable(1) [OF c name] by (rule fs_write_total)
  obtain ds where ds: "list_all2 (\<lambda>i d. file_at s (chunk_path home fid i) = Some d \<and> D i d
      \<and> unat i < length (fm_chunks m)) (sort (ts_verified t)) ds"
    using recorded_data [OF rec] by blast
  have c1: "calm home fid ?s1"
    using prefix_not_entry(1) [of _ home fid "fm_name m"] name
    by (intro calm_env [OF c]) (auto simp: store_simps fun_eq_iff)
  have "list_all2 (\<lambda>i d. fs_read (?cd @ [chunk_file i]) ?s1 = Inr d \<and> hashed C m i d
      \<and> unat i < length (fm_chunks m)) (sort (ts_verified t)) ds"
  proof (rule list.rel_mono_strong [OF ds])
    fix i d assume "file_at s (chunk_path home fid i) = Some d \<and> D i d \<and> unat i < length (fm_chunks m)"
    then show "fs_read (?cd @ [chunk_file i]) ?s1 = Inr d \<and> hashed C m i d
        \<and> unat i < length (fm_chunks m)"
      using con calm_readable [OF c1, of "?cd @ [chunk_file i]" d "''chunks''" "[chunk_file i]"]
      by (auto simp: consistent_def store_simps cache_paths)
  qed
  moreover have "st_wfault ?s1 ?out = None" using c by (simp add: calm_def store_simps)
  ultimately obtain s2 where a: "assemble C m ?cd ?out (sort (ts_verified t)) ?s1 = (s2, Inr ())"
    using assemble_total [of ?cd ?s1 C m "sort (ts_verified t)" ds ?out "[]"] by (auto simp: store_simps)
  have D: "list_all2 D (sort (ts_verified t)) ds" using ds by (auto elim: list.rel_mono_strong)
  have out2: "file_at s2 ?out = Some (concat ds)"
  proof -
    obtain ds' where ds': "file_at s2 ?out = Some ([] @ concat ds')"
      "list_all2 (\<lambda>i d. file_at ?s1 (?cd @ [chunk_file i]) = Some d \<and> hashed C m i d)
        (sort (ts_verified t)) ds'"
      using assemble_ok [OF a, of "[]"] by (auto simp: store_simps)
    have "ds' = ds"
    proof (rule nth_equalityI)
      show "length ds' = length ds" using list_all2_lengthD [OF ds'(2)] list_all2_lengthD [OF ds] by simp
      fix k assume "k < length ds'"
      then have k: "k < length (sort (ts_verified t))" using list_all2_lengthD [OF ds'(2)] by simp
      from list_all2_nthD [OF ds'(2) k] list_all2_nthD [OF ds k]
      show "ds' ! k = ds ! k" by (auto simp: store_simps cache_paths)
    qed
    with ds'(1) show ?thesis by simp
  qed
  have "map unat (sort (ts_verified t)) = [0..<length (fm_chunks m)]"
    using rec all by (intro full_indices) (auto simp: recorded_def all_verified_def)
  then have "check_size m ?out s2 = (s2, Inr ())"
    using con D out2 by (simp add: consistent_def check_size_def file_len_def ok_or_def)
  then have fin: "finish_transfer C ?d m t s = (s2, Inr (Verified True))"
    using all w a by (simp add: finish_transfer_def reconstruct_from_verified_def out bindS_def
        map_errS_def map_err_def ret_def)
  have "calm home fid s2"
    using assemble_env [OF a] same_file_assemble [OF a] prefix_not_entry(1) [of _ home fid "fm_name m"] name
    by (intro calm_env [OF c1]) (auto simp: same_file_def)
  with fin out2 D show thesis by (intro that) (simp_all add: output_path_def out)
qed

lemma resume_same:
  assumes "same_file (state_path home fid) s s'"
  shows "resume_for SC home fid m s' = resume_for SC home fid m s"
proof (cases "load_transfer_state SC home fid s")
  case (Inr t)
  then have "load_transfer_state SC home fid s' = Inr t"
    by (simp add: load_transfer_state_def load_under_same [OF assms])
  with Inr show ?thesis by (simp add: resume_for_def)
next
  case (Inl e)
  then have "\<nexists>t. load_transfer_state SC home fid s' = Inr t"
    by (simp add: load_transfer_state_def load_under_same [OF assms])
  then obtain e' where "load_transfer_state SC home fid s' = Inl e'"
    by (cases "load_transfer_state SC home fid s'") auto
  with Inl show ?thesis by (simp add: resume_for_def)
qed

text \<open>The states a transfer of a manifest goes through.\<close>

definition ongoing :: "file_manifest \<Rightarrow> transfer_state \<Rightarrow> bool" where
  "ongoing m t \<longleftrightarrow> ts_manifest t = m \<and> ts_lost t = [] \<and> distinct (ts_verified t) \<and>
     (\<forall>i \<in> set (ts_verified t). unat i < length (fm_chunks m))"

lemma recorded_ongoing: "recorded D home fid m t s \<Longrightarrow> ongoing m t"
  by (auto simp: recorded_def ongoing_def)

definition whole :: "(u32 \<Rightarrow> bytes \<Rightarrow> bool) \<Rightarrow> file_manifest \<Rightarrow> bytes option \<Rightarrow> bool" where
  "whole D m f \<longleftrightarrow> (\<exists>is ds. f = Some (concat ds) \<and> list_all2 D is ds \<and>
     map unat is = [0..<length (fm_chunks m)])"

lemma receive_calm:
  assumes c: "calm home fid s" and inv: "cache_inv D MC SC home fid m s" and "safe_name m"
    and "codec_ok SC" and store: "\<And>t. ongoing m t \<Longrightarrow> enc SC t \<noteq> None" and con: "consistent D C m"
    and v: "verify_chunk C m c = Inr ()" and d: "D (ck_index c) (ck_data c)"
    and t: "resume_for SC home fid m s = Inr t"
    and old: "all_verified m t \<Longrightarrow> whole D m (file_at s (output_path home fid m))"
  obtains s' t' where
    "receive_chunk C MC SC home fid c s = (s', Inr (Verified (all_verified m t')))"
    "calm home fid s'" "cache_inv D MC SC home fid m s'" "resume_for SC home fid m s' = Inr t'"
    "set (ts_verified t') = insert (ck_index c) (set (ts_verified t))"
    "all_verified m t' \<Longrightarrow> whole D m (file_at s' (output_path home fid m))"
proof -
  let ?out = "output_path home fid m"
  have m: "load_received_manifest MC home fid s = Inr m" using inv by (simp add: cache_inv_def)
  obtain s1 s2 where mk: "fs_mkdirs (chunks_dir home fid) s = (s1, Inr ())"
    and w: "write_then_rename (chunk_tmp home fid (ck_index c)) (chunk_path home fid (ck_index c))
       (ck_data c) s1 = (s2, Inr ())" and c2: "calm home fid s2" and st: "chunk_stored C home fid m c s s2"
    using calm_store_chunk [OF c v] .
  have same: "same_file q s s2" if "q = transfer_dir home fid @ [n]" for q n
    using st that by (simp add: chunk_stored_def cache_names)
  have t2: "resume_for SC home fid m s2 = Inr t"
    using t resume_same [OF same [OF cache_names(7)]] by simp
  have inv2: "cache_inv D MC SC home fid m s2" by (rule cache_inv_stored [where D = D, OF inv st d])
  have run: "receive_chunk C MC SC home fid c s = (if ck_index c \<in> set (ts_verified t)
      then ret (Verified (all_verified m t))
      else bindS (save_transfer_state SC home fid (t\<lparr>ts_verified := ts_verified t @ [ck_index c]\<rparr>))
        (\<lambda>_. finish_transfer C (transfer_dir home fid) m (t\<lparr>ts_verified := ts_verified t @ [ck_index c]\<rparr>))) s2"
    using m v mk w t2
    by (simp add: receive_chunk_def Let_def bindS_def lift_result_def cache_paths map_errS_def map_err_def)
  show thesis
  proof (cases "ck_index c \<in> set (ts_verified t)")
    case True
    have "file_at s2 ?out = file_at s ?out"
      using same [OF output_path_safe [OF assms(3)]] by (simp add: same_file_def)
    with True run c2 inv2 t2 old show thesis
      by (intro that [of s2 t]) (auto simp: ret_def insert_absorb)
  next
    case False
    let ?t = "t\<lparr>ts_verified := ts_verified t @ [ck_index c]\<rparr>"
    have rec: "recorded D home fid m ?t s2"
      using resume_extended(2) [OF inv st _ t2 False] d by blast
    then obtain b where b: "enc SC ?t = Some b" using store recorded_ongoing by blast
    obtain s3 where sv: "save_transfer_state SC home fid ?t s2 = (s3, Inr ())" and c3: "calm home fid s3"
      and l3: "load_transfer_state SC home fid s3 = Inr ?t"
      using calm_save_state [OF c2 b assms(4)] .
    have inv3: "cache_inv D MC SC home fid m s3" by (rule cache_inv_save [OF inv2 sv rec assms(4)])
    then have rec3: "recorded D home fid m ?t s3" using l3 by (simp add: cache_inv_def)
    show thesis
    proof (cases "all_verified m ?t")
      case all: False
      with run False sv have "receive_chunk C MC SC home fid c s = (s3, Inr (Verified False))"
        by (simp add: bindS_def finish_transfer_def ret_def)
      with c3 inv3 l3 all show thesis by (intro that [of s3 ?t]) (simp_all add: resume_for_def)
    next
      case all: True
      obtain s4 ds where fin: "finish_transfer C (transfer_dir home fid) m ?t s3 = (s4, Inr (Verified True))"
        and c4: "calm home fid s4" and o4: "file_at s4 ?out = Some (concat ds)"
        and ds: "list_all2 D (sort (ts_verified ?t)) ds"
        using calm_finish [OF c3 assms(3) rec3 con all] .
      have inv4: "cache_inv D MC SC home fid m s4" by (rule cache_inv_finish [OF inv3 assms(3) fin])
      have "?out \<noteq> state_path home fid"
        using assms(3) by (simp add: output_path_safe state_path_def safe_name_def)
      then have "same_file (state_path home fid) s3 s4"
        using same_file_finish [OF fin] by (simp add: output_path_def)
      then have t4: "resume_for SC home fid m s4 = Inr ?t"
        using l3 resume_same by (simp add: resume_for_def)
      have "map unat (sort (ts_verified ?t)) = [0..<length (fm_chunks m)]"
        using recorded_ongoing [OF rec] all
        by (intro full_indices) (simp_all add: ongoing_def all_verified_def)
      with o4 ds have "whole D m (file_at s4 ?out)" unfolding whole_def by blast
      moreover have "receive_chunk C MC SC home fid c s = (s4, Inr (Verified (all_verified m ?t)))"
        using run False sv fin all by (simp add: bindS_def)
      ultimately show thesis using c4 inv4 t4 by (intro that [of s4 ?t]) simp_all
    qed
  qed
qed

lemma receive_all_calm:
  assumes "safe_name m" and "codec_ok SC" and "\<And>t. ongoing m t \<Longrightarrow> enc SC t \<noteq> None"
    and "consistent D C m"
    and "\<And>c. c \<in> set arrived \<Longrightarrow> verify_chunk C m c = Inr () \<and> D (ck_index c) (ck_data c)"
    and "calm home fid s" and "cache_inv D MC SC home fid m s" and "resume_for SC home fid m s = Inr t"
    and "all_verified m t \<Longrightarrow> whole D m (file_at s (output_path home fid m))"
    and "receive_all C MC SC home fid arrived s = (s', rs)"
  obtains t' where "resume_for SC home fid m s' = Inr t'" "cache_inv D MC SC home fid m s'"
    "set (ts_verified t') = set (ts_verified t) \<union> ck_index ` set arrived"
    "all_verified m t' \<longrightarrow> whole D m (file_at s' (output_path home fid m))"
    "\<forall>r \<in> set rs. \<exists>b. r = Inr (Verified b)"
    "arrived \<noteq> [] \<longrightarrow> last rs = Inr (Verified (all_verified m t'))"
  using assms(5-10)
proof (induction arrived arbitrary: s t rs thesis)
  case Nil
  then show ?case by (intro Nil.prems(1) [of t]) simp_all
next
  case (Cons c cs)
  have vd: "verify_chunk C m c = Inr ()" "D (ck_index c) (ck_data c)" using Cons.prems(2) by simp_all
  obtain s1 t1 where r: "receive_chunk C MC SC home fid c s = (s1, Inr (Verified (all_verified m t1)))"
    and 1: "calm home fid s1" "cache_inv D MC SC home fid m s1" "resume_for SC home fid m s1 = Inr t1"
      "set (ts_verified t1) = insert (ck_index c) (set (ts_verified t))"
      "all_verified m t1 \<Longrightarrow> whole D m (file_at s1 (output_path home fid m))"
    using receive_calm [OF Cons.prems(3,4) assms(1,2,3,4) vd Cons.prems(5,6)] by metis
  obtain rs' where rs': "receive_all C MC SC home fid cs s1 = (s', rs')"
    "rs = Inr (Verified (all_verified m t1)) # rs'"
    using Cons.prems(7) r by (auto simp: Let_def split: prod.splits)
  obtain t' where t': "resume_for SC home fid m s' = Inr t'" "cache_inv D MC SC home fid m s'"
    "set (ts_verified t') = set (ts_verified t1) \<union> ck_index ` set cs"
    "all_verified m t' \<longrightarrow> whole D m (file_at s' (output_path home fid m))"
    "\<forall>r \<in> set rs'. \<exists>b. r = Inr (Verified b)"
    "cs \<noteq> [] \<longrightarrow> last rs' = Inr (Verified (all_verified m t'))"
    using Cons.IH [OF _ _ 1(1-3,5) rs'(1)] Cons.prems(2) by (metis list.set_intros(2))
  have "last rs = Inr (Verified (all_verified m t'))"
  proof (cases "cs = []")
    case True
    then show ?thesis using rs' t'(1) 1(3) by simp
  next
    case False
    then have "rs' \<noteq> []" using rs'(1) by (cases cs) (auto simp: Let_def split: prod.splits)
    then show ?thesis using t'(6) False rs'(2) by simp
  qed
  with t' 1(4) rs'(2) show ?case by (intro Cons.prems(1)) auto
qed

definition genuine :: "chunk list \<Rightarrow> u32 \<Rightarrow> bytes \<Rightarrow> bool" where
  "genuine cs i d \<longleftrightarrow> unat i < length cs \<and> d = ck_data (cs ! unat i)"

lemma genuine_concat:
  assumes "list_all2 (genuine cs) is ds" and "map unat is = [0..<length cs]"
  shows "ds = map ck_data cs"
proof (rule nth_equalityI)
  have len: "length is = length cs" using arg_cong [OF assms(2), of length] by simp
  then show "length ds = length (map ck_data cs)" using list_all2_lengthD [OF assms(1)] by simp
  fix k assume "k < length ds"
  then have k: "k < length is" using list_all2_lengthD [OF assms(1)] by simp
  then have "unat (is ! k) = k" using arg_cong [OF assms(2), of "\<lambda>xs. xs ! k"] len by simp
  with list_all2_nthD [OF assms(1) k] k len show "ds ! k = map ck_data cs ! k" by (simp add: genuine_def)
qed

lemma built_genuine:
  assumes "build_manifest C M i fname (Inr (sz, blocks)) csz = Inr (m, cs)"
  shows "length (fm_chunks m) = length cs" "c \<in> set cs \<Longrightarrow> genuine cs (ck_index c) (ck_data c)"
    "map ck_data cs = blocks" "fm_total_size m = sz" "ck_index ` set cs = of_nat ` {0..<length cs}"
    "length (concat blocks) = unat sz \<Longrightarrow> consistent (genuine cs) C m"
proof -
  note b = build_manifest_ok [OF assms]
  note k = build_chunks_ok [OF b(1)]
  show len: "length (fm_chunks m) = length cs" using b(2) by simp
  show bl: "map ck_data cs = blocks" and "fm_total_size m = sz" using k(1) b(3) by simp_all
  have ix: "n < length cs \<Longrightarrow> unat (ck_index (cs ! n)) = n" for n using k(2) by simp
  show "c \<in> set cs \<Longrightarrow> genuine cs (ck_index c) (ck_data c)"
    by (auto simp: in_set_conv_nth genuine_def ix)
  have "ck_index (cs ! n) = of_nat n" if "n < length cs" for n
    using ix [OF that] by (metis of_nat_unat ucast_id)
  then show "ck_index ` set cs = of_nat ` {0..<length cs}"
    by (auto simp: set_conv_nth image_iff Bex_def) metis
  have "hashed C m j d" if "genuine cs j d" for j d
    using that b(2) k(3) by (auto simp: genuine_def hashed_def)
  then show "consistent (genuine cs) C m" if "length (concat blocks) = unat sz"
    using that genuine_concat [of cs] bl b(3) len by (auto simp: consistent_def)
qed

text \<open>C15: on a disk without faults a transfer always gets through. Whatever the order in which the
  chunks of a file arrive, and however often each arrives, every receive succeeds, the last one
  reports that the transfer is complete, and the file at the output path is the sender's file,
  byte for byte.\<close>

theorem transfer_completes:
  assumes built: "build_manifest C M i fname (Inr (sz, blocks)) csz = Inr (m, cs)"
    and sz: "length (concat blocks) = unat sz" and "blocks \<noteq> []" and all: "set arrived = set cs"
    and start: "load_received_manifest MC home fid s = Inr m" "file_at s (state_path home fid) = None"
    and env: "calm home fid s" "safe_name m" "codec_ok SC" "\<And>t. ongoing m t \<Longrightarrow> enc SC t \<noteq> None"
    and run: "receive_all C MC SC home fid arrived s = (s', rs)"
  shows "(\<forall>r \<in> set rs. is_ok r) \<and> last rs = Inr (Verified True)
    \<and> file_at s' (output_path home fid m) = Some (concat blocks)"
proof -
  note g = built_genuine [OF built]
  have t: "resume_for SC home fid m s = Inr (transfer_new m)"
    using start(2) by (auto simp: resume_for_def load_transfer_state_def load_under_def fs_read_def
        map_err_def ok_or_def split: if_splits)
  have nil: "fm_chunks m \<noteq> []" "arrived \<noteq> []" using assms(3) g(1,3) all by auto
  have ok: "verify_chunk C m c = Inr () \<and> genuine cs (ck_index c) (ck_data c)" if "c \<in> set arrived" for c
    using built_chunks_verify [OF built] g(2) that all by auto
  have old: "whole (genuine cs) m (file_at s (output_path home fid m))"
    if "all_verified m (transfer_new m)"
    using nil that by (simp add: all_verified_def transfer_new_def)
  obtain t' where t': "resume_for SC home fid m s' = Inr t'"
    "cache_inv (genuine cs) MC SC home fid m s'"
    "set (ts_verified t') = set (ts_verified (transfer_new m)) \<union> ck_index ` set arrived"
    "all_verified m t' \<longrightarrow> whole (genuine cs) m (file_at s' (output_path home fid m))"
    "\<forall>r \<in> set rs. \<exists>b. r = Inr (Verified b)"
    "arrived \<noteq> [] \<longrightarrow> last rs = Inr (Verified (all_verified m t'))"
    using receive_all_calm [OF env(2-4) g(6) [OF sz] ok env(1) cache_inv_start [OF start] t old run] .
  have "ongoing m t'"
    using t'(1,2) by (auto simp: cache_inv_def intro: recorded_ongoing resume_recorded)
  moreover have "set (ts_verified t') = of_nat ` {0..<length (fm_chunks m)}"
    using t'(3) all g(1,5) by (simp add: transfer_new_def)
  moreover have "inj_on (of_nat :: nat \<Rightarrow> u32) {0..<length (fm_chunks m)}"
    using distinct_u32_range [of "length cs"] build_chunks_ok(4) [OF build_manifest_ok(1) [OF built]] g(1)
    by (simp add: distinct_map)
  ultimately have full: "all_verified m t'"
    by (simp add: all_verified_def ongoing_def distinct_card [symmetric] card_image)
  then have "file_at s' (output_path home fid m) = Some (concat blocks)"
    using t'(4) genuine_concat [of cs] g(1,3) by (auto simp: whole_def)
  with t'(5,6) nil full show ?thesis by (auto simp: is_ok_iff)
qed

section \<open>A closed example\<close>

definition demo_state :: "u32 list \<Rightarrow> transfer_state" where
  "demo_state vs = \<lparr>ts_manifest = demo_manifest, ts_verified = vs, ts_lost = []\<rparr>"

definition demo_sc :: "transfer_state codec" where
  "demo_sc = table_codec (map demo_state [[], [0], [1], [0, 1], [1, 0]])"

definition demo_mc :: "file_manifest codec" where
  "demo_mc = table_codec [demo_manifest]"

definition demo_cache :: store where
  "demo_cache = \<lparr>st_files = [([''h'', ''incoming'', ''t'', ''manifest.json''], [])],
     st_dirs = prefixes_of [''h'', ''incoming'', ''t''], st_wfault = (\<lambda>_. None), st_rfault = (\<lambda>_. False)\<rparr>"

lemma demo_dir: "transfer_dir [''h''] ''t'' = [''h'', ''incoming'', ''t'']"
  by (simp add: transfer_dir_def transfers_dir_def path_join_def)

lemma demo_sc_ok: "codec_ok demo_sc"
  by (simp add: demo_sc_def table_codec_ok)

lemma demo_safe: "safe_name demo_manifest"
  by (simp add: safe_name_def demo_manifest_def plain_name_def)

lemma demo_loaded: "load_received_manifest demo_mc [''h''] ''t'' demo_cache = Inr demo_manifest"
  by (simp add: load_received_manifest_def load_under_def demo_dir fs_read_def demo_cache_def
      is_dir_def prefixes_of_def file_at_def ok_or_def map_err_def demo_mc_def table_codec_def)

lemma demo_no_state: "file_at demo_cache (state_path [''h''] ''t'') = None"
  by (simp add: demo_cache_def file_at_def state_path_def demo_dir)

lemma demo_calm: "calm [''h''] ''t'' demo_cache"
  by (auto simp: calm_def demo_dir demo_cache_def is_dir_def file_at_def chunks_dir_def prefixes_of_def)

text \<open>The states a transfer of two chunks can be in.\<close>

lemma ongoing_two:
  assumes "ongoing m t" and "length (fm_chunks m) = 2"
  shows "t \<in> set (map (\<lambda>vs. \<lparr>ts_manifest = m, ts_verified = vs, ts_lost = []\<rparr>) [[], [0], [1], [0, 1], [1, 0]])"
proof -
  have small: "i = 0 \<or> i = 1" if "unat i < 2" for i :: u32
  proof -
    from that have "unat i = unat (0 :: u32) \<or> unat i = unat (1 :: u32)"
      by (simp add: less_2_cases_iff)
    then show ?thesis by (simp only: word_unat_eq_iff)
  qed
  have "ts_verified t \<in> {[], [0], [1], [0, 1], [1, 0]}"
  proof -
    have d: "distinct (ts_verified t)" and s: "set (ts_verified t) \<subseteq> {0, 1}"
      using assms small by (auto simp: ongoing_def eval_nat_numeral)
    then have "length (ts_verified t) \<le> 2"
      using card_mono [OF _ s] by (simp add: distinct_card)
    with d s show ?thesis
      by (cases "ts_verified t"; cases "tl (ts_verified t)") (auto simp: neq_Nil_conv)
  qed
  then show ?thesis using assms(1) by (cases t) (auto simp: ongoing_def)
qed

lemma demo_sc_total:
  assumes "ongoing demo_manifest t"
  shows "enc demo_sc t \<noteq> None"
proof -
  have "t \<in> set (map demo_state [[], [0], [1], [0, 1], [1, 0]])"
    using ongoing_two [OF assms] by (simp add: demo_manifest_def demo_state_def)
  then show ?thesis
    unfolding demo_sc_def table_codec_def by (auto simp: find_None_all in_set_conv_nth)
qed

lemma transfer_completes_witness:
  "file_at (fst (receive_all demo_crates demo_mc demo_sc [''h''] ''t''
      (rev demo_chunks @ demo_chunks) demo_cache)) [''h'', ''incoming'', ''t'', ''f''] = Some [1, 2, 3]"
proof -
  let ?r = "receive_all demo_crates demo_mc demo_sc [''h''] ''t'' (rev demo_chunks @ demo_chunks) demo_cache"
  have run: "?r = (fst ?r, snd ?r)" by simp
  have arr: "set (rev demo_chunks @ demo_chunks) = set demo_chunks" by simp
  have out: "output_path [''h''] ''t'' demo_manifest = [''h'', ''incoming'', ''t'', ''f'']"
    unfolding output_path_safe [OF demo_safe] demo_dir by (simp add: demo_manifest_def)
  from transfer_completes [OF demo_built _ _ arr demo_loaded demo_no_state demo_calm demo_safe
      demo_sc_ok demo_sc_total run]
  show ?thesis by (simp add: out)
qed


end
