(* ===== verification/StorageLib.thy ===== *)
theory StorageLib
  imports Files
begin

text \<open>
  \<open>src/storage/mod.rs\<close>: client-side encryption of chunks, the core-side blob store, the replica
  map and the key file that stays on the client. Keys and nonces are what the random generator
  would give; they are 32 and 24 bytes.
\<close>

record encrypted_chunk =
  ec_index :: u32
  ec_nonce :: bytes
  ec_ciphertext :: bytes

record shard_placement =
  sp_chunk_index :: u32
  sp_cores :: "string list"

record storage_manifest =
  sm_file :: file_manifest
  sm_encrypted_chunks :: "encrypted_chunk list"
  sm_placements :: "shard_placement list"

datatype storage_error = SCrypto | SIo io_error | SCodec string

section \<open>Encryption\<close>

text \<open>\<open>u32::to_le_bytes\<close> and \<open>u64::to_le_bytes\<close>\<close>

definition le_bytes32 :: "u32 \<Rightarrow> bytes" where
  "le_bytes32 w = map (\<lambda>k. ucast (drop_bit (8 * k) w)) [0..<4]"

definition le_bytes64 :: "u64 \<Rightarrow> bytes" where
  "le_bytes64 w = map (\<lambda>k. ucast (drop_bit (8 * k) w)) [0..<8]"

definition encrypt_chunk :: "crates \<Rightarrow> bytes \<Rightarrow> bytes \<Rightarrow> chunk \<Rightarrow> storage_error + encrypted_chunk" where
  "encrypt_chunk C nonce key c =
     bindR (ok_or SCrypto (aead_seal C key nonce (le_bytes32 (ck_index c)) (ck_data c)))
       (\<lambda>ct. Inr \<lparr>ec_index = ck_index c, ec_nonce = nonce, ec_ciphertext = ct\<rparr>)"

definition decrypt_chunk :: "crates \<Rightarrow> bytes \<Rightarrow> encrypted_chunk \<Rightarrow> storage_error + chunk" where
  "decrypt_chunk C key e =
     bindR (ok_or SCrypto (aead_open C key (ec_nonce e) (le_bytes32 (ec_index e)) (ec_ciphertext e)))
       (\<lambda>d. Inr \<lparr>ck_index = ec_index e, ck_hash = blake3 C d, ck_data = d\<rparr>)"

lemma le_bytes64_bit:
  assumes "n < 64"
  shows "bit w n \<longleftrightarrow> bit (le_bytes64 w ! (n div 8)) (n mod 8)"
proof -
  have "n div 8 < 8" using assms by simp
  then show ?thesis by (simp add: le_bytes64_def bit_simps)
qed

lemma le_bytes64_inj: "le_bytes64 v = le_bytes64 w \<longleftrightarrow> v = w"
proof
  assume eq: "le_bytes64 v = le_bytes64 w"
  show "v = w"
  proof (rule bit_word_eqI)
    fix n assume "n < LENGTH(64)"
    then show "bit v n = bit w n" using eq by (simp add: le_bytes64_bit)
  qed
qed simp

lemma le_bytes_length [simp]: "length (le_bytes32 v) = 4" "length (le_bytes64 w) = 8"
  by (simp_all add: le_bytes32_def le_bytes64_def)

lemma le_bytes32_bit:
  assumes "n < 32"
  shows "bit w n \<longleftrightarrow> bit (le_bytes32 w ! (n div 8)) (n mod 8)"
proof -
  have "n div 8 < 4" using assms by simp
  then show ?thesis by (simp add: le_bytes32_def bit_simps)
qed

lemma le_bytes32_inj: "le_bytes32 v = le_bytes32 w \<longleftrightarrow> v = w"
proof
  assume eq: "le_bytes32 v = le_bytes32 w"
  show "v = w"
  proof (rule bit_word_eqI)
    fix n assume "n < LENGTH(32)"
    then show "bit v n = bit w n" using eq by (simp add: le_bytes32_bit)
  qed
qed simp

lemma decrypt_encrypt:
  assumes "aead_complete C" and "encrypt_chunk C nonce key c = Inr e"
  shows "decrypt_chunk C key e = Inr \<lparr>ck_index = ck_index c, ck_hash = blake3 C (ck_data c),
    ck_data = ck_data c\<rparr>" "ec_index e = ck_index c"
  using assms by (auto simp: encrypt_chunk_def decrypt_chunk_def aead_complete_def bind_simps)

section \<open>The blob store\<close>

record core_blob_store =
  cb_root :: path

definition cbs_open :: "path \<Rightarrow> (store, storage_error, core_blob_store) op" where
  "cbs_open root = bindS (map_errS SIo (fs_mkdirs root)) (\<lambda>_. ret \<lparr>cb_root = root\<rparr>)"

definition cbs_put ::
    "crates \<Rightarrow> encrypted_chunk codec \<Rightarrow> core_blob_store \<Rightarrow> encrypted_chunk \<Rightarrow>
     (store, storage_error, string) op" where
  "cbs_put C E b blob =
     (let i = hash_hex C (blake3 C (ec_ciphertext blob)) in
      bindS (lift_result (ok_or (SCodec ''postcard'') (enc E blob))) (\<lambda>bs.
      bindS (map_errS SIo (fs_write (path_join (cb_root b) i) bs)) (\<lambda>_. ret i)))"

definition cbs_get ::
    "encrypted_chunk codec \<Rightarrow> core_blob_store \<Rightarrow> string \<Rightarrow> store \<Rightarrow> storage_error + encrypted_chunk" where
  "cbs_get E b i s = bindR (map_err SIo (fs_read (path_join (cb_root b) i) s))
     (\<lambda>bs. ok_or (SCodec ''postcard'') (dec E bs))"

section \<open>Replicas\<close>

type_synonym replica_map = "(u32 \<times> string list) list"

definition place :: "u32 \<Rightarrow> string list \<Rightarrow> replica_map \<Rightarrow> replica_map" where
  "place i cores r = AList.update i cores r"

definition cores :: "u32 \<Rightarrow> replica_map \<Rightarrow> string list" where
  "cores i r = (case map_of r i of None \<Rightarrow> [] | Some cs \<Rightarrow> cs)"

lemma cores_place: "cores i (place j cs r) = (if i = j then cs else cores i r)"
  by (simp add: cores_def place_def)

section \<open>The client's key file\<close>

definition key_tmp :: "path \<Rightarrow> path" where
  "key_tmp p = butlast p @ [with_extension ''tmp'' (last p)]"

definition load_or_generate_key :: "bytes \<Rightarrow> path \<Rightarrow> (store, storage_error, bytes) op" where
  "load_or_generate_key seed p s =
     (if fs_exists s p then
        (case fs_read p s of
           Inl e \<Rightarrow> (s, Inl (SIo e))
         | Inr b \<Rightarrow> if length b \<noteq> 32 then (s, Inl (SCodec ''storage key must be 32 bytes''))
             else (s, Inr b))
      else bindS (map_errS SIo (fs_mkdirs (butlast p))) (\<lambda>_.
           bindS (map_errS SIo (write_then_rename (key_tmp p) p seed)) (\<lambda>_. ret seed)) s)"

text \<open>The blob store is content addressed: the id is the hash of the ciphertext, and \<open>get\<close> with it
  gives the blob back.\<close>

lemma blob_store_get:
  assumes "cbs_put C E b blob s = (s', Inr i)" and "codec_ok E"
    and "\<not> st_rfault s (path_join (cb_root b) i)"
  shows "cbs_get E b i s' = Inr blob" "i = hash_hex C (blake3 C (ec_ciphertext blob))"
proof -
  from assms(1) obtain bs where bs: "enc E blob = Some bs" and i: "i = hash_hex C (blake3 C (ec_ciphertext blob))"
    and w: "fs_write (path_join (cb_root b) i) bs s = (s', Inr ())"
    by (auto simp: cbs_put_def Let_def bindS_ok_iff lift_result_def bind_simps map_errS_ok ret_def)
  have "fs_read (path_join (cb_root b) i) s' = Inr bs"
    using fs_write_ok [OF w] w assms(3)
    by (auto simp: fs_read_def store_simps ok_or_def fs_write_def)
  then show "cbs_get E b i s' = Inr blob" using codec_okD [OF assms(2) bs]
    by (simp add: cbs_get_def map_err_def ok_or_def)
  show "i = hash_hex C (blake3 C (ec_ciphertext blob))" by (rule i)
qed

text \<open>A ciphertext is tied to its place in the file. A chunk encrypted under a key decrypts
  under that key to itself, whatever nonce was drawn, and the same ciphertext presented under any
  other index is refused, so a core cannot reorder the chunks it stores.\<close>

theorem encryption_binds_index:
  assumes "aead_complete C" and "aead_bound C" and "encrypt_chunk C nonce key c = Inr e"
    and "verify_chunk C m c = Inr ()"
  shows "decrypt_chunk C key (e\<lparr>ec_index := j\<rparr>) = (if j = ck_index c then Inr c else Inl SCrypto)"
proof (cases "j = ck_index c")
  case True
  have "ck_hash c = blake3 C (ck_data c)" using assms(4) by (simp add: verify_chunk_ok)
  then have "decrypt_chunk C key e = Inr c" using decrypt_encrypt(1) [OF assms(1,3)] by (cases c) simp
  then show ?thesis using True decrypt_encrypt(2) [OF assms(1,3)] by (cases e) simp
next
  case False
  have "aead_open C key (ec_nonce e) (le_bytes32 (ck_index c)) (ec_ciphertext e) = Some (ck_data c)"
    using assms(1,3) by (auto simp: encrypt_chunk_def aead_complete_def bind_simps)
  moreover have "length (le_bytes32 j) = length (le_bytes32 (ck_index c))" "le_bytes32 j \<noteq> le_bytes32 (ck_index c)"
    using False by (simp_all add: le_bytes32_inj)
  ultimately have "aead_open C key (ec_nonce e) (le_bytes32 j) (ec_ciphertext e) = None"
    using assms(2) unfolding aead_bound_def by blast
  then show ?thesis using False by (simp add: decrypt_chunk_def ok_or_def)
qed

lemma demo_encrypted:
  "encrypt_chunk demo_crates [4] [7] (demo_chunks ! 0)
    = Inr \<lparr>ec_index = 0, ec_nonce = [4], ec_ciphertext = [7, 4, 0, 0, 0, 0, 1, 2]\<rparr>"
  "encrypt_chunk demo_crates [5] [7] (demo_chunks ! 1)
    = Inr \<lparr>ec_index = 1, ec_nonce = [5], ec_ciphertext = [7, 5, 1, 0, 0, 0, 3]\<rparr>"
  by (simp_all add: encrypt_chunk_def demo_crates_def demo_chunks_def ok_or_def le_bytes32_def upt_rec)

lemma encryption_binds_index_witness:
  "decrypt_chunk demo_crates [7] \<lparr>ec_index = 1, ec_nonce = [4], ec_ciphertext = [7, 4, 0, 0, 0, 0, 1, 2]\<rparr>
     = Inl SCrypto"
proof -
  have "verify_chunk demo_crates demo_manifest (demo_chunks ! 0) = Inr ()"
    by (simp add: verify_chunk_def demo_crates_def demo_chunks_def demo_manifest_def)
  from encryption_binds_index [OF demo_aead_complete demo_aead_bound demo_encrypted(1) this, of 1]
  show ?thesis by (simp add: demo_chunks_def)
qed

text \<open>What \<open>store pull\<close> does with the chunks a core returned: decrypt each, then reconstruct.\<close>

definition decrypt_all :: "crates \<Rightarrow> bytes \<Rightarrow> encrypted_chunk list \<Rightarrow> storage_error + chunk list" where
  "decrypt_all C key es = mapR (decrypt_chunk C key) es"

definition encrypt_all ::
    "crates \<Rightarrow> bytes \<Rightarrow> (bytes \<times> chunk) list \<Rightarrow> storage_error + encrypted_chunk list" where
  "encrypt_all C key ncs = mapR (\<lambda>(n, c). encrypt_chunk C n key c) ncs"

lemma decrypt_encrypt_all:
  assumes "aead_complete C" and "encrypt_all C key (zip ns cs) = Inr es" and "length ns = length cs"
    and "\<forall>c \<in> set cs. ck_hash c = blake3 C (ck_data c)"
  shows "decrypt_all C key es = Inr cs"
  using assms(2-)
proof (induction cs arbitrary: ns es)
  case Nil
  then show ?case by (simp add: encrypt_all_def decrypt_all_def)
next
  case (Cons c cs)
  then obtain n ns' where n: "ns = n # ns'" by (cases ns) auto
  with Cons.prems(1) obtain e es' where e: "es = e # es'" "encrypt_chunk C n key c = Inr e"
    "encrypt_all C key (zip ns' cs) = Inr es'" by (auto simp: encrypt_all_def bind_simps)
  have "decrypt_chunk C key e = Inr c"
    using decrypt_encrypt(1) [OF assms(1) e(2)] Cons.prems(3) by (cases c) simp
  then show ?case using Cons.IH [OF e(3)] Cons.prems(2,3) n e(1) by (simp add: decrypt_all_def)
qed

lemma decrypt_all_perm:
  assumes "aead_complete C" and "encrypt_all C key (zip ns cs) = Inr es" and "length ns = length cs"
    and "\<forall>c \<in> set cs. ck_hash c = blake3 C (ck_data c)" and "mset es' = mset es"
  obtains cs' where "decrypt_all C key es' = Inr cs'" "mset cs' = mset cs"
proof -
  define f where "f e = (case decrypt_chunk C key e of Inr c \<Rightarrow> c | Inl _ \<Rightarrow> undefined)" for e
  note all = decrypt_encrypt_all [OF assms(1-4), unfolded decrypt_all_def]
  note len = mapR_ok_length [OF all]
  have d: "decrypt_chunk C key e = Inr (f e)" if "e \<in> set es" for e
  proof -
    from that obtain k where "k < length es" "e = es ! k" by (auto simp: in_set_conv_nth)
    then show ?thesis using mapR_ok_nth [OF all, of k] by (simp add: f_def)
  qed
  have "decrypt_all C key es' = Inr (map f es')"
    unfolding decrypt_all_def using d mset_eq_setD [OF assms(5)] by (intro mapR_all_ok) simp
  moreover have "map f es = cs" using mapR_all_ok [of es "decrypt_chunk C key" f] d all by simp
  then have "mset (map f es') = mset cs" using assms(5) by (metis mset_map)
  ultimately show thesis by (rule that)
qed

text \<open>A file stored encrypted comes back whole. The chunks of a built manifest, encrypted one by
  one under fresh nonces, returned by the cores in any order, decrypt to a set of chunks from
  which the file is reconstructed byte for byte.\<close>

theorem stored_file_recovered:
  assumes "aead_complete C" and built: "build_manifest C M i fname (Inr (sz, blocks)) csz = Inr (m, cs)"
    and "length (concat blocks) = unat sz" and "length ns = length cs"
    and "encrypt_all C key (zip ns cs) = Inr es" and "mset es' = mset es" and w: "writable p s"
  shows "\<exists>cs' s'. decrypt_all C key es' = Inr cs' \<and> reconstruct C m cs' p s = (s', Inr ())
    \<and> file_at s' p = Some (concat blocks)"
proof -
  note b = build_manifest_ok(1,3) [OF built]
  note k = build_chunks_ok [OF b(1)]
  obtain cs' where cs': "decrypt_all C key es' = Inr cs'" "mset cs' = mset cs"
    using decrypt_all_perm [OF assms(1,5,4) _ assms(6)] k(3) by blast
  have sorted: "sort_key ck_index cs' = cs" using k(2) cs'(2) by (intro sort_key_indexed) simp_all
  have "\<And>c. c \<in> set cs' \<Longrightarrow> verify_chunk C m c = Inr ()"
    using built_chunks_verify [OF built] mset_eq_setD [OF cs'(2)] by blast
  moreover have "length (concat (map ck_data (sort_key ck_index cs'))) = unat (fm_total_size m)"
    using assms(3) k(1) b(2) by (simp add: sorted)
  ultimately obtain s' where r: "reconstruct C m cs' p s = (s', Inr ())" using reconstruct_total w by blast
  with reconstruct_ok(1) [OF r] k(1) cs'(1) show ?thesis by (auto simp: sorted)
qed

lemma stored_file_recovered_witness:
  "\<exists>cs' s'. decrypt_all demo_crates [7]
      [\<lparr>ec_index = 1, ec_nonce = [5], ec_ciphertext = [7, 5, 1, 0, 0, 0, 3]\<rparr>,
       \<lparr>ec_index = 0, ec_nonce = [4], ec_ciphertext = [7, 4, 0, 0, 0, 0, 1, 2]\<rparr>] = Inr cs'
    \<and> reconstruct demo_crates demo_manifest cs' [''o''] (fresh_store []) = (s', Inr ())
    \<and> file_at s' [''o''] = Some [1, 2, 3]"
proof -
  have e: "encrypt_all demo_crates [7] (zip [[4], [5]] demo_chunks)
      = Inr [\<lparr>ec_index = 0, ec_nonce = [4], ec_ciphertext = [7, 4, 0, 0, 0, 0, 1, 2]\<rparr>,
          \<lparr>ec_index = 1, ec_nonce = [5], ec_ciphertext = [7, 5, 1, 0, 0, 0, 3]\<rparr>]"
    using demo_encrypted by (simp add: encrypt_all_def demo_chunks_def)
  have w: "writable [''o''] (fresh_store [])"
    by (simp add: writable_def fresh_store_def is_dir_def prefixes_of_def)
  show ?thesis
    using stored_file_recovered [OF demo_aead_complete demo_built _ _ e _ w] by (simp add: demo_chunks_def)
qed

end
