(* ===== verification/Pair.thy ===== *)
theory Pair
  imports Identity
begin

text \<open>
  \<open>src/pair.rs\<close>: the single-use pairing token of an acceptor and the ledger of the devices it has
  paired with. The token lives in \<open>pair.json\<close>, the ledger in \<open>paired.json\<close>; both are replaced
  through a temporary. The clock is a parameter.
\<close>

section \<open>The ledger and the token\<close>

definition DEFAULT_TTL_SECS :: u64 where "DEFAULT_TTL_SECS = 120"
definition MAX_TTL_SECS :: u64 where "MAX_TTL_SECS = 600"

record paired_device =
  pd_fingerprint :: string
  pd_public_key :: bytes
  pd_paired_at :: u64

type_synonym pair_ledger = "paired_device list"

record pending_token =
  pt_token :: string
  pt_expires_at :: u64
  pt_used :: bool

definition ledger_path :: "path \<Rightarrow> path" where "ledger_path root = root @ [''paired.json'']"
definition pending_path :: "path \<Rightarrow> path" where "pending_path root = root @ [''pair.json'']"

definition load_ledger :: "pair_ledger codec \<Rightarrow> path \<Rightarrow> store \<Rightarrow> pair_ledger" where
  "load_ledger L root = load_doc L [] (ledger_path root)"

definition save_ledger :: "pair_ledger codec \<Rightarrow> path \<Rightarrow> pair_ledger \<Rightarrow> (store, io_error, unit) op" where
  "save_ledger L root = save_doc L (root @ [''paired.tmp'']) (ledger_path root)"

definition write_pending :: "pending_token codec \<Rightarrow> path \<Rightarrow> pending_token \<Rightarrow> (store, io_error, unit) op" where
  "write_pending P root = save_doc P (root @ [''pair.tmp'']) (pending_path root)"

definition is_paired :: "crates \<Rightarrow> pair_ledger codec \<Rightarrow> path \<Rightarrow> public_identity \<Rightarrow> store \<Rightarrow> bool" where
  "is_paired C L root i s = list_ex (\<lambda>r. pd_fingerprint r = fingerprint C i) (load_ledger L root s)"

definition paired_devices :: "pair_ledger codec \<Rightarrow> path \<Rightarrow> store \<Rightarrow> paired_device list" where
  "paired_devices L root s = sort_key pd_paired_at (load_ledger L root s)"

text \<open>\<open>raw\<close> are the sixteen random bytes of the token; \<open>clamp\<close> is written out.\<close>

definition token_ttl :: "u64 option \<Rightarrow> u64" where
  "token_ttl t = max 1 (min MAX_TTL_SECS (case t of None \<Rightarrow> DEFAULT_TTL_SECS | Some n \<Rightarrow> n))"

definition issue_token ::
    "crates \<Rightarrow> pending_token codec \<Rightarrow> bytes \<Rightarrow> u64 \<Rightarrow> path \<Rightarrow> u64 option \<Rightarrow> (store, io_error, string) op" where
  "issue_token C P raw now root ttl =
     (let token = hex_encode C raw in
      bindS (write_pending P root
          \<lparr>pt_token = token, pt_expires_at = now + token_ttl ttl, pt_used = False\<rparr>)
        (\<lambda>_. ret token))"

definition consume_token ::
    "pending_token codec \<Rightarrow> u64 \<Rightarrow> path \<Rightarrow> string \<Rightarrow> (store, io_error, bool) op" where
  "consume_token P now root token s =
     (case fs_read (pending_path root) s of
        Inl _ \<Rightarrow> (s, Inr False)
      | Inr b \<Rightarrow> (case dec P b of
          None \<Rightarrow> (s, Inr False)
        | Some t \<Rightarrow>
            if pt_used t \<or> pt_expires_at t \<le> now \<or> pt_token t \<noteq> token then (s, Inr False)
            else bindS (write_pending P root (t\<lparr>pt_used := True\<rparr>)) (\<lambda>_. ret True) s))"

definition record_pairing ::
    "crates \<Rightarrow> pair_ledger codec \<Rightarrow> u64 \<Rightarrow> path \<Rightarrow> public_identity \<Rightarrow> (store, io_error, unit) op" where
  "record_pairing C L now root i s =
     (let ledger = load_ledger L root s in
      if list_ex (\<lambda>r. pd_fingerprint r = fingerprint C i) ledger then (s, Inr ())
      else save_ledger L root (ledger @ [\<lparr>pd_fingerprint = fingerprint C i,
             pd_public_key = public_key i, pd_paired_at = now\<rparr>]) s)"

section \<open>Both documents are persisted documents\<close>

interpretation ledger: persisted "load_ledger L root" "save_ledger L root" "codec_ok_at L"
  "doc_readable (ledger_path root)" "doc_healthy (root @ [''paired.tmp'']) (ledger_path root)"
  "doc_storable L" for L root
  unfolding load_ledger_def save_ledger_def by (rule doc_persisted) (simp add: ledger_path_def)

definition load_pending :: "pending_token codec \<Rightarrow> path \<Rightarrow> store \<Rightarrow> pending_token option" where
  "load_pending P root s = (case fs_read (pending_path root) s of
       Inl _ \<Rightarrow> None | Inr b \<Rightarrow> dec P b)"

lemma consume_token_alt:
  "consume_token P now root token s = (case load_pending P root s of
       None \<Rightarrow> (s, Inr False)
     | Some t \<Rightarrow> if pt_used t \<or> pt_expires_at t \<le> now \<or> pt_token t \<noteq> token then (s, Inr False)
         else bindS (write_pending P root (t\<lparr>pt_used := True\<rparr>)) (\<lambda>_. ret True) s)"
  by (simp add: consume_token_def load_pending_def split: sum.splits option.splits)

text \<open>The token that lies on the disk, readable at the moment or not.\<close>

definition disk_token :: "pending_token codec \<Rightarrow> path \<Rightarrow> store \<Rightarrow> pending_token option" where
  "disk_token P root s = Option.bind (file_at s (pending_path root)) (dec P)"

lemma load_pending_disk: "load_pending P root s = Some t \<Longrightarrow> disk_token P root s = Some t"
  by (auto simp: load_pending_def disk_token_def fs_read_def ok_or_def split: if_splits option.splits)

lemma write_pending_ok:
  assumes "write_pending P root t s = (s', Inr u)" and "codec_ok P"
  shows "disk_token P root s' = Some t"
    "\<not> st_rfault s (pending_path root) \<Longrightarrow> load_pending P root s' = Some t"
proof -
  have ne: "root @ [''pair.tmp''] \<noteq> pending_path root" by (simp add: pending_path_def)
  from assms(1) obtain b where b: "enc P t = Some b"
    and w: "write_then_rename (root @ [''pair.tmp'']) (pending_path root) b s = (s', Inr u)"
    by (auto simp: write_pending_def elim: save_doc_ok)
  have f: "file_at s' (pending_path root) = Some b" using write_then_rename_ok [OF w ne] by simp
  have d: "dec P b = Some t" using codec_okD [OF assms(2) b] .
  with f show "disk_token P root s' = Some t" by (simp add: disk_token_def)
  assume "\<not> st_rfault s (pending_path root)"
  then obtain b' where "enc P t = Some b'" "fs_read (pending_path root) s' = Inr b'"
    using save_doc_reads [OF assms(1) [unfolded write_pending_def] ne] by blast
  with b d show "load_pending P root s' = Some t" by (simp add: load_pending_def)
qed

lemma write_pending_err:
  assumes "write_pending P root t s = (s', Inl e)"
  shows "disk_token P root s' = disk_token P root s"
proof -
  have "pending_path root \<noteq> root @ [''pair.tmp'']" by (simp add: pending_path_def)
  from save_doc_err [OF assms [unfolded write_pending_def] this] show ?thesis by (simp add: disk_token_def)
qed

lemma write_pending_env:
  assumes "write_pending P root t s = (s', r)"
  shows "st_rfault s' = st_rfault s" "doc_healthy tmp p s' = doc_healthy tmp p s"
    "load_ledger L root s' = load_ledger L root s"
proof -
  have sv: "save_doc P (root @ [''pair.tmp'']) (pending_path root) t s = (s', r)"
    using assms by (simp add: write_pending_def)
  from save_doc_env [OF sv] show e: "st_rfault s' = st_rfault s" "doc_healthy tmp p s' = doc_healthy tmp p s"
    by (simp_all add: doc_healthy_def writable_def)
  have "file_at s' (ledger_path root) = file_at s (ledger_path root)"
    by (rule save_doc_frame [OF sv]) (simp_all add: ledger_path_def pending_path_def)
  then show "load_ledger L root s' = load_ledger L root s"
    using save_doc_env [OF sv] by (auto simp: load_ledger_def intro: load_doc_cong)
qed

text \<open>Consuming touches nothing but the pending token.\<close>

lemma consume_token_env:
  assumes "consume_token P now root token s = (s', r)"
  shows "st_rfault s' = st_rfault s" "doc_healthy tmp p s' = doc_healthy tmp p s"
    "load_ledger L root s' = load_ledger L root s"
proof -
  have "s' = s \<or> (\<exists>t x. write_pending P root t s = (s', x))"
    using assms unfolding consume_token_alt
    by (auto simp: bindS_def ret_def split: option.splits if_splits prod.splits sum.splits)
  then show "st_rfault s' = st_rfault s" "doc_healthy tmp p s' = doc_healthy tmp p s"
    "load_ledger L root s' = load_ledger L root s"
    by (auto dest: write_pending_env)
qed

lemma record_pairing_token:
  assumes "record_pairing C L now root i s = (s', r)"
  shows "disk_token P root s' = disk_token P root s"
proof -
  have "s' = s \<or> (\<exists>v. save_ledger L root v s = (s', r))"
    using assms by (auto simp: record_pairing_def Let_def split: if_splits)
  then show ?thesis
  proof (elim disjE exE)
    fix v assume "save_ledger L root v s = (s', r)"
    then have sv: "save_doc L (root @ [''paired.tmp'']) (ledger_path root) v s = (s', r)"
      by (simp add: save_ledger_def)
    have "file_at s' (pending_path root) = file_at s (pending_path root)"
      by (rule save_doc_frame [OF sv]) (simp_all add: ledger_path_def pending_path_def)
    then show ?thesis by (simp add: disk_token_def)
  qed simp
qed

lemma record_pairing_ledger:
  assumes "record_pairing C L now root i s = (s', r)" and "codec_ok L" and "\<not> st_rfault s (ledger_path root)"
  shows "load_ledger L root s' = load_ledger L root s
    \<or> load_ledger L root s' = load_ledger L root s @ [\<lparr>pd_fingerprint = fingerprint C i,
        pd_public_key = public_key i, pd_paired_at = now\<rparr>]"
proof (cases "list_ex (\<lambda>d. pd_fingerprint d = fingerprint C i) (load_ledger L root s)")
  case True
  then show ?thesis using assms(1) by (simp add: record_pairing_def Let_def)
next
  case False
  let ?v = "load_ledger L root s @ [\<lparr>pd_fingerprint = fingerprint C i,
        pd_public_key = public_key i, pd_paired_at = now\<rparr>]"
  have m: "ledger.modify L root (\<lambda>l. l @ [\<lparr>pd_fingerprint = fingerprint C i,
        pd_public_key = public_key i, pd_paired_at = now\<rparr>]) s = (s', r)"
    using assms(1) False by (simp add: record_pairing_def Let_def ledger.modify_def)
  show ?thesis
    using ledger.modify_atomic [OF m] assms(2,3) by (auto simp: doc_readable_def)
qed

lemma record_pairing_faults:
  "record_pairing C L now root i s = (s', r) \<Longrightarrow> st_rfault s' = st_rfault s"
  by (auto simp: record_pairing_def Let_def save_ledger_def dest: save_doc_env split: if_splits)

lemma record_pairing_ok:
  assumes "record_pairing C L now root i s = (s', Inr u)" and "codec_ok L"
    and "\<not> st_rfault s (ledger_path root)"
  shows "is_paired C L root i s'"
proof (cases "list_ex (\<lambda>d. pd_fingerprint d = fingerprint C i) (load_ledger L root s)")
  case True
  then show ?thesis using assms(1) by (simp add: record_pairing_def Let_def is_paired_def)
next
  case False
  let ?v = "load_ledger L root s @ [\<lparr>pd_fingerprint = fingerprint C i,
        pd_public_key = public_key i, pd_paired_at = now\<rparr>]"
  have "save_ledger L root ?v s = (s', Inr u)"
    using assms(1) False by (simp add: record_pairing_def Let_def)
  then have "load_ledger L root s' = ?v"
    by (rule ledger.load_save) (use assms(2,3) in \<open>auto simp: doc_readable_def\<close>)
  then show ?thesis by (simp add: is_paired_def)
qed

lemma record_pairing_total:
  assumes "doc_healthy (root @ [''paired.tmp'']) (ledger_path root) s"
    and "doc_storable L (load_ledger L root s @ [\<lparr>pd_fingerprint = fingerprint C i,
        pd_public_key = public_key i, pd_paired_at = now\<rparr>])"
  shows "\<exists>s'. record_pairing C L now root i s = (s', Inr ())"
  using ledger.save_total [OF assms] by (simp add: record_pairing_def Let_def)

section \<open>A token works once\<close>

text \<open>What happens between two issues. \<open>Weather\<close> changes which files can be written and read.\<close>

datatype pair_op = Consume u64 string | RecordPairing u64 public_identity
  | Weather "path \<Rightarrow> fault option" "path \<Rightarrow> bool"

fun pair_step ::
    "crates \<Rightarrow> pending_token codec \<Rightarrow> pair_ledger codec \<Rightarrow> path \<Rightarrow> pair_op \<Rightarrow> store \<Rightarrow> store \<times> bool" where
  "pair_step C P L root (Consume now token) s =
     (case consume_token P now root token s of (s', r) \<Rightarrow> (s', r = Inr True))"
| "pair_step C P L root (RecordPairing now i) s = (fst (record_pairing C L now root i s), False)"
| "pair_step C P L root (Weather wr rd) s = (s\<lparr>st_wfault := wr, st_rfault := rd\<rparr>, False)"

text \<open>The final store, and how many presentations succeeded.\<close>

fun pair_run ::
    "crates \<Rightarrow> pending_token codec \<Rightarrow> pair_ledger codec \<Rightarrow> path \<Rightarrow> pair_op list \<Rightarrow> store \<Rightarrow> store \<times> nat" where
  "pair_run C P L root [] s = (s, 0)"
| "pair_run C P L root (a # as) s =
     (let (s1, ok) = pair_step C P L root a s; (s2, n) = pair_run C P L root as s1 in
      (s2, if ok then Suc n else n))"

text \<open>No token that could still be redeemed.\<close>

definition dead :: "pending_token codec \<Rightarrow> path \<Rightarrow> store \<Rightarrow> bool" where
  "dead P root s \<longleftrightarrow> (\<forall>t. disk_token P root s = Some t \<longrightarrow> pt_used t)"

lemma consume_step:
  assumes "consume_token P now root token s = (s', r)" and "codec_ok P"
  shows "(r = Inr True \<longrightarrow> dead P root s' \<and> \<not> dead P root s)
    \<and> (r \<noteq> Inr True \<longrightarrow> disk_token P root s' = disk_token P root s)"
proof (cases "load_pending P root s")
  case None
  then show ?thesis using assms(1) by (auto simp: consume_token_alt)
next
  case (Some t)
  show ?thesis
  proof (cases "pt_used t \<or> pt_expires_at t \<le> now \<or> pt_token t \<noteq> token")
    case True
    then show ?thesis using assms(1) Some by (auto simp: consume_token_alt)
  next
    case False
    then have run: "bindS (write_pending P root (t\<lparr>pt_used := True\<rparr>)) (\<lambda>_. ret True) s = (s', r)"
      using assms(1) Some by (simp add: consume_token_alt)
    obtain s1 x where w: "write_pending P root (t\<lparr>pt_used := True\<rparr>) s = (s1, x)"
      by (cases "write_pending P root (t\<lparr>pt_used := True\<rparr>) s")
    have alive: "\<not> dead P root s" using False load_pending_disk [OF Some] by (simp add: dead_def)
    show ?thesis
    proof (cases x)
      case (Inl e)
      with w run have "s' = s1" "r = Inl e" by (simp_all add: bindS_def)
      then show ?thesis using write_pending_err w Inl by auto
    next
      case (Inr u)
      with w run have "s' = s1" "r = Inr True" by (auto simp: bindS_def ret_def)
      then show ?thesis using write_pending_ok(1) [of P root "t\<lparr>pt_used := True\<rparr>" s s1 u] w Inr assms(2) alive
        by (simp add: dead_def)
    qed
  qed
qed

lemma pair_step_cases:
  assumes "pair_step C P L root a s = (s', ok)" and "codec_ok P"
  shows "ok \<Longrightarrow> dead P root s' \<and> \<not> dead P root s"
    "\<not> ok \<Longrightarrow> disk_token P root s' = disk_token P root s"
proof -
  have "(ok \<longrightarrow> dead P root s' \<and> \<not> dead P root s)
      \<and> (\<not> ok \<longrightarrow> disk_token P root s' = disk_token P root s)"
  proof (cases a)
    case (Consume now token)
    then show ?thesis using assms consume_step [of P now root token s s'] by (auto split: prod.splits)
  next
    case (RecordPairing now i)
    then show ?thesis
      using assms(1) record_pairing_token [of C L now root i s] by (cases "record_pairing C L now root i s") auto
  next
    case (Weather wr rd)
    then show ?thesis using assms(1) by (auto simp: disk_token_def file_at_def)
  qed
  then show "ok \<Longrightarrow> dead P root s' \<and> \<not> dead P root s"
    "\<not> ok \<Longrightarrow> disk_token P root s' = disk_token P root s" by blast+
qed

lemma pair_run_bound:
  assumes "codec_ok P" and "pair_run C P L root as s = (s', n)"
  shows "n \<le> (if dead P root s then 0 else 1)" "n = 1 \<or> dead P root s \<Longrightarrow> dead P root s'"
proof -
  have "n \<le> (if dead P root s then 0 else 1) \<and> (n = 1 \<or> dead P root s \<longrightarrow> dead P root s')"
    using assms(2)
  proof (induction "as" arbitrary: s n)
    case Nil
    then show ?case by simp
  next
    case (Cons a "as")
    obtain s1 ok where st: "pair_step C P L root a s = (s1, ok)" by (cases "pair_step C P L root a s")
    obtain k where rn: "pair_run C P L root as s1 = (s', k)" and n: "n = (if ok then Suc k else k)"
      using Cons.prems st by (auto simp: Let_def split: prod.splits)
    show ?case
    proof (cases ok)
      case True
      then have "dead P root s1" "\<not> dead P root s" using pair_step_cases(1) [OF st assms(1)] by simp_all
      with Cons.IH [OF rn] n True show ?thesis by simp
    next
      case False
      then have "dead P root s1 = dead P root s"
        using pair_step_cases(2) [OF st assms(1)] by (simp add: dead_def)
      with Cons.IH [OF rn] n False show ?thesis by simp
    qed
  qed
  then show "n \<le> (if dead P root s then 0 else 1)" "n = 1 \<or> dead P root s \<Longrightarrow> dead P root s'" by blast+
qed

text \<open>C16: a pairing token is redeemed at most once. Between two issues, whatever tokens are
  presented at whatever times, interleaved with pairings, and however the disk starts and stops
  failing in between, at most one presentation succeeds; and once one has, none does.\<close>

theorem token_single_use:
  assumes "codec_ok P" and "pair_run C P L root as s = (s', n)"
  shows "n \<le> 1 \<and> (n = 1 \<longrightarrow> (\<forall>bs. snd (pair_run C P L root bs s') = 0))"
proof -
  have "snd (pair_run C P L root bs s') = 0" if "n = 1" for bs
    using pair_run_bound(1) [OF assms(1), of C L root bs s'] pair_run_bound(2) [OF assms] that
    by (metis le_zero_eq prod.collapse)
  then show ?thesis using pair_run_bound(1) [OF assms] by (auto split: if_splits)
qed

definition demo_token :: "bool \<Rightarrow> pending_token" where
  "demo_token used = \<lparr>pt_token = ''A'', pt_expires_at = 220, pt_used = used\<rparr>"

definition demo_pc :: "pending_token codec" where
  "demo_pc = table_codec [demo_token False, demo_token True]"

lemma token_single_use_witness:
  "let s = fst (issue_token demo_crates demo_pc [65] 100 [''h''] None (fresh_store [''h'']));
       present = map (\<lambda>t. Consume t ''A'') in
     snd (pair_run demo_crates demo_pc (table_codec []) [''h''] (present [150, 150]) s) = 1
     \<and> snd (pair_run demo_crates demo_pc (table_codec []) [''h''] (present [160, 170])
         (fst (pair_run demo_crates demo_pc (table_codec []) [''h''] (present [150, 150]) s))) = 0"
proof -
  let ?s = "fst (issue_token demo_crates demo_pc [65] 100 [''h''] None (fresh_store [''h'']))"
  let ?run = "pair_run demo_crates demo_pc (table_codec []) [''h'']"
  let ?r = "?run (map (\<lambda>t. Consume t ''A'') [150, 150]) ?s"
  have n: "snd ?r = 1" by code_simp
  have "codec_ok demo_pc" by (simp add: demo_pc_def table_codec_ok)
  moreover have "?r = (fst ?r, snd ?r)" by simp
  ultimately show ?thesis unfolding Let_def using token_single_use n by metis
qed

section \<open>A token works in its window\<close>

lemma issue_token_env:
  assumes "issue_token C P raw now root ttl s = (s1, r)"
  shows "st_rfault s1 = st_rfault s" "doc_healthy tmp p s1 = doc_healthy tmp p s"
    "load_ledger L root s1 = load_ledger L root s"
proof -
  obtain x where w: "write_pending P root \<lparr>pt_token = hex_encode C raw, pt_expires_at = now + token_ttl ttl, pt_used = False\<rparr> s = (s1, x)"
    using assms unfolding issue_token_def by (auto simp: Let_def bindS_def ret_def split: prod.splits sum.splits)
  from write_pending_env [OF w] show "st_rfault s1 = st_rfault s" "doc_healthy tmp p s1 = doc_healthy tmp p s"
    "load_ledger L root s1 = load_ledger L root s" by simp_all
qed

lemma issued_token:
  assumes "issue_token C P raw now root ttl s = (s1, Inr tok)" and "codec_ok P"
    and "doc_healthy (root @ [''pair.tmp'']) (pending_path root) s" and "doc_readable (pending_path root) s"
    and "enc P \<lparr>pt_token = tok, pt_expires_at = now + token_ttl ttl, pt_used = True\<rparr> \<noteq> None"
  shows "tok = hex_encode C raw"
    "load_pending P root s1 = Some \<lparr>pt_token = tok, pt_expires_at = now + token_ttl ttl, pt_used = False\<rparr>"
    "\<exists>s2. bindS (write_pending P root \<lparr>pt_token = tok, pt_expires_at = now + token_ttl ttl, pt_used = True\<rparr>)
       (\<lambda>_. ret True) s1 = (s2, Inr True)"
proof -
  let ?t = "\<lparr>pt_token = tok, pt_expires_at = now + token_ttl ttl, pt_used = False\<rparr>"
  from assms(1) have tok: "tok = hex_encode C raw" and w: "write_pending P root ?t s = (s1, Inr ())"
    by (auto simp: issue_token_def Let_def bindS_ok_iff ret_def)
  have ld: "load_pending P root s1 = Some ?t"
    using write_pending_ok(2) [OF w assms(2)] assms(4) by (simp add: doc_readable_def)
  have healthy: "doc_healthy (root @ [''pair.tmp'']) (pending_path root) s1"
    using assms(3) save_doc_env [OF w [unfolded write_pending_def]]
    by (simp add: doc_healthy_def writable_def)
  obtain b where "enc P (?t\<lparr>pt_used := True\<rparr>) = Some b" using assms(5) by auto
  with healthy have "\<exists>s2. write_pending P root (?t\<lparr>pt_used := True\<rparr>) s1 = (s2, Inr ())"
    unfolding write_pending_def doc_healthy_def by (intro save_doc_total) auto
  then show "\<exists>s2. bindS (write_pending P root \<lparr>pt_token = tok, pt_expires_at = now + token_ttl ttl, pt_used = True\<rparr>)
       (\<lambda>_. ret True) s1 = (s2, Inr True)" by (simp del: bindS_ok_iff) (metis bindS_Inr ret_apply)
  show "tok = hex_encode C raw" "load_pending P root s1 = Some ?t" using tok ld .
qed

lemma issued_token_accepted:
  assumes "issue_token C P raw now root ttl s = (s1, Inr tok)" and "codec_ok P"
    and "doc_healthy (root @ [''pair.tmp'']) (pending_path root) s" and "doc_readable (pending_path root) s"
    and "enc P \<lparr>pt_token = tok, pt_expires_at = now + token_ttl ttl, pt_used = True\<rparr> \<noteq> None"
    and "t < now + token_ttl ttl"
  shows "\<exists>s2. consume_token P t root tok s1 = (s2, Inr True)"
  using issued_token(2,3) [OF assms(1-5)] assms(6) by (simp add: consume_token_alt not_le)

text \<open>C34: a fresh token opens its window and nothing else. After a successful issue at time \<open>now\<close>,
  a presentation succeeds exactly when it is of that token and comes before the expiry, which lies
  between one second and ten minutes ahead; every other presentation is refused and changes
  nothing.\<close>

theorem token_window:
  assumes "issue_token C P raw now root ttl s = (s1, Inr tok)" and "codec_ok P"
    and "doc_healthy (root @ [''pair.tmp'']) (pending_path root) s" and "doc_readable (pending_path root) s"
    and "enc P \<lparr>pt_token = tok, pt_expires_at = now + token_ttl ttl, pt_used = True\<rparr> \<noteq> None"
    and "unat now + 600 < 2 ^ 64"
  shows "tok = hex_encode C raw
    \<and> (\<exists>w \<in> {1..600}. \<forall>t token. if token = tok \<and> unat t < unat now + w
        then \<exists>s2. consume_token P t root token s1 = (s2, Inr True)
        else consume_token P t root token s1 = (s1, Inr False))"
proof -
  note i = issued_token [OF assms(1-5)]
  have tok: "tok = hex_encode C raw" by (rule i(1))
  note ld = i(2) and total = i(3)
  have ttl: "1 \<le> unat (token_ttl ttl)" "unat (token_ttl ttl) \<le> 600"
    by (auto simp: token_ttl_def MAX_TTL_SECS_def max_def min_def word_le_nat_alt not_le split: if_splits)
  then have exp: "unat (now + token_ttl ttl) = unat now + unat (token_ttl ttl)"
    using assms(6) by (simp add: unat_word_ariths)
  show ?thesis
  proof (intro conjI bexI [of _ "unat (token_ttl ttl)"] allI)
    fix t token
    show "if token = tok \<and> unat t < unat now + unat (token_ttl ttl)
        then \<exists>s2. consume_token P t root token s1 = (s2, Inr True)
        else consume_token P t root token s1 = (s1, Inr False)"
      using ld total exp by (simp add: consume_token_alt word_le_nat_alt)
  qed (use ttl tok in simp_all)
qed

lemma token_window_witness:
  "let s = fst (issue_token demo_crates demo_pc [65] 100 [''h''] None (fresh_store [''h''])) in
     consume_token demo_pc 101 [''h''] ''B'' s = (s, Inr False)"
proof -
  let ?r = "issue_token demo_crates demo_pc [65] 100 [''h''] None (fresh_store [''h''])"
  have "snd ?r = Inr ''A''" by code_simp
  then have i: "?r = (fst ?r, Inr ''A'')" by (metis prod.collapse)
  have "codec_ok demo_pc" by (simp add: demo_pc_def table_codec_ok)
  moreover have "doc_healthy ([''h''] @ [''pair.tmp'']) (pending_path [''h'']) (fresh_store [''h''])"
    "doc_readable (pending_path [''h'']) (fresh_store [''h''])"
    by (simp_all add: doc_healthy_def writable_def doc_readable_def fresh_store_def pending_path_def
        is_dir_def prefixes_of_def)
  moreover have "enc demo_pc \<lparr>pt_token = ''A'', pt_expires_at = 100 + token_ttl None, pt_used = True\<rparr> \<noteq> None"
    by code_simp
  ultimately show ?thesis
  proof -
    assume h: "codec_ok demo_pc" "doc_healthy ([''h''] @ [''pair.tmp'']) (pending_path [''h'']) (fresh_store [''h''])"
      "doc_readable (pending_path [''h'']) (fresh_store [''h''])"
      "enc demo_pc \<lparr>pt_token = ''A'', pt_expires_at = 100 + token_ttl None, pt_used = True\<rparr> \<noteq> None"
    have "unat (100 :: u64) + 600 < 2 ^ 64" by simp
    from token_window [OF i h this] obtain w where
      "\<forall>t token. if token = ''A'' \<and> unat t < unat (100 :: u64) + w
        then \<exists>s2. consume_token demo_pc t [''h''] token (fst ?r) = (s2, Inr True)
        else consume_token demo_pc t [''h''] token (fst ?r) = (fst ?r, Inr False)" by blast
    from this [rule_format, of "''B''" 101] show ?thesis by (simp add: Let_def)
  qed
qed

end
