(* ===== verification/LobbyLib.thy ===== *)
theory LobbyLib
  imports Store
begin

text \<open>
  \<open>src/lobby.rs\<close>: the member's side of lobbies and channels: encryption of posts, the file-safe
  rendering of names, the roster of joined lobbies, and the append-only logs of what was read.
\<close>

definition NONCE_LEN :: nat where "NONCE_LEN = 24"
definition KEY_LEN :: nat where "KEY_LEN = 32"

section \<open>Encryption of posts\<close>

text \<open>\<open>nonce\<close> is what the random generator would give.\<close>

definition lobby_encrypt :: "crates \<Rightarrow> bytes \<Rightarrow> bytes \<Rightarrow> bytes \<Rightarrow> io_error + bytes \<times> bytes" where
  "lobby_encrypt C nonce key plaintext =
     bindR (ok_or (IoError Other ''lobby encryption failed'') (aead_seal C key nonce [] plaintext))
       (\<lambda>ct. Inr (nonce, ct))"

definition lobby_decrypt :: "crates \<Rightarrow> bytes \<Rightarrow> bytes \<Rightarrow> bytes \<Rightarrow> io_error + bytes" where
  "lobby_decrypt C key nonce ct =
     (if length nonce \<noteq> NONCE_LEN then Inl (IoError InvalidInput ''bad nonce length'')
      else ok_or (IoError InvalidData ''lobby decryption failed'') (aead_open C key nonce [] ct))"

lemma lobby_roundtrip:
  assumes "aead_complete C" and "lobby_encrypt C nonce key t = Inr (n, ct)" and "length nonce = NONCE_LEN"
  shows "lobby_decrypt C key n ct = Inr t"
  using assms by (auto simp: lobby_encrypt_def lobby_decrypt_def aead_complete_def bind_simps)

section \<open>Names\<close>

definition slug_char :: "char \<Rightarrow> bool" where
  "slug_char c \<longleftrightarrow> is_ascii_alphanumeric c \<or> c = CHR ''_'' \<or> c = CHR ''-'' \<or> c = CHR ''.''"

definition slug :: "string \<Rightarrow> string" where
  "slug name = (let cleaned = map (\<lambda>c. if slug_char c then c else CHR ''-'') name;
      trimmed = trim_matches (\<lambda>c. c = CHR ''-'') cleaned in
    if trimmed = [] then ''lobby'' else trimmed)"

lemma trim_matches_subset: "set (trim_matches p s) \<subseteq> set s"
  unfolding trim_matches_def by (auto dest!: set_dropWhileD)

lemma slug_chars: "c \<in> set (slug name) \<Longrightarrow> slug_char c"
proof -
  assume c: "c \<in> set (slug name)"
  let ?cleaned = "map (\<lambda>c. if slug_char c then c else CHR ''-'') name"
  have l: "c \<in> set ''lobby'' \<Longrightarrow> slug_char c" by (auto simp: slug_char_def is_ascii_alphanumeric_def)
  have "c \<in> set ?cleaned \<Longrightarrow> slug_char c"
    by (auto simp: slug_char_def split: if_splits)
  moreover have "c \<in> set ?cleaned \<or> c \<in> set ''lobby''"
    using c trim_matches_subset [of "\<lambda>c. c = CHR ''-''" ?cleaned]
    unfolding slug_def Let_def by (auto simp del: set_map split: if_splits)
  ultimately show ?thesis using l by blast
qed

lemma slug_no_slash: "CHR ''/'' \<notin> set (slug name)"
  using slug_chars [of "CHR ''/''" name] by (auto simp: slug_char_def is_ascii_alphanumeric_def)

definition log_name :: "string \<Rightarrow> string" where
  "log_name name = slug name @ ''.log''"

section \<open>The roster\<close>

record member_lobby =
  ml_name :: string
  ml_host_alias :: string
  ml_host_fingerprint :: string
  ml_key_hex :: string
  ml_title :: string
  ml_welcome :: string

definition display_title :: "member_lobby \<Rightarrow> string" where
  "display_title l = (if ml_title l = [] then ml_name l else ml_title l)"

type_synonym roster = "member_lobby list"

definition roster_dir :: "path \<Rightarrow> path" where "roster_dir root = root @ [''lobbies'']"
definition roster_path :: "path \<Rightarrow> path" where "roster_path root = roster_dir root @ [''roster.json'']"
definition roster_tmp :: "path \<Rightarrow> path" where "roster_tmp root = roster_dir root @ [''roster.tmp'']"

definition load_roster :: "roster codec \<Rightarrow> path \<Rightarrow> store \<Rightarrow> roster" where
  "load_roster R root = load_doc R [] (roster_path root)"

definition write_roster :: "roster codec \<Rightarrow> path \<Rightarrow> roster \<Rightarrow> (store, io_error, unit) op" where
  "write_roster R root r =
     bindS (lift_result (encode_doc R r)) (\<lambda>b.
     bindS (fs_mkdirs (roster_dir root)) (\<lambda>_. write_then_rename (roster_tmp root) (roster_path root) b))"

definition find_roster :: "roster codec \<Rightarrow> path \<Rightarrow> string \<Rightarrow> store \<Rightarrow> member_lobby option" where
  "find_roster R root name s = find (\<lambda>l. ml_name l = name) (load_roster R root s)"

text \<open>\<open>iter_mut().find(..)\<close> replaces the first entry of that name.\<close>

fun replace_first :: "member_lobby \<Rightarrow> roster \<Rightarrow> roster" where
  "replace_first l [] = []"
| "replace_first l (e # es) = (if ml_name e = ml_name l then l # es else e # replace_first l es)"

definition roster_with :: "member_lobby \<Rightarrow> roster \<Rightarrow> roster" where
  "roster_with l r = (if list_ex (\<lambda>e. ml_name e = ml_name l) r then replace_first l r else r @ [l])"

definition add_to_roster :: "roster codec \<Rightarrow> path \<Rightarrow> member_lobby \<Rightarrow> (store, io_error, unit) op" where
  "add_to_roster R root l s = write_roster R root (roster_with l (load_roster R root s)) s"

definition roster_lobbies :: "roster codec \<Rightarrow> path \<Rightarrow> store \<Rightarrow> member_lobby list" where
  "roster_lobbies R root s = load_roster R root s"

definition last_roster :: "roster codec \<Rightarrow> path \<Rightarrow> store \<Rightarrow> member_lobby option" where
  "last_roster R root s = (case roster_lobbies R root s of [] \<Rightarrow> None | ls \<Rightarrow> Some (last ls))"

definition roster_healthy :: "path \<Rightarrow> store \<Rightarrow> bool" where
  "roster_healthy root s \<longleftrightarrow> is_dir s (roster_dir root) \<and> doc_healthy (roster_tmp root) (roster_path root) s"

lemma roster_ne: "roster_tmp root \<noteq> roster_path root"
  by (simp add: roster_tmp_def roster_path_def)

lemma write_roster_cases:
  assumes "write_roster R root r s = (s', x)"
  obtains (noenc) e where "s' = s" "x = Inl e"
  | (nodir) e where "fs_mkdirs (roster_dir root) s = (s', Inl e)" "x = Inl e"
  | (wrote) b t where "enc R r = Some b" "fs_mkdirs (roster_dir root) s = (t, Inr ())"
      "write_then_rename (roster_tmp root) (roster_path root) b t = (s', x)"
  using assms unfolding write_roster_def
  by (auto elim!: bindS_cases simp: lift_result_def encode_doc_def bind_simps)

interpretation roster: persisted "load_roster R root" "write_roster R root" "codec_ok_at R"
  "doc_readable (roster_path root)" "roster_healthy root" "doc_storable R" for R root
proof unfold_locales
  fix v s s' u
  assume w: "write_roster R root v s = (s', Inr u)" and c: "codec_ok_at R v"
    and rd: "doc_readable (roster_path root) s"
  from w show "load_roster R root s' = v"
  proof (cases rule: write_roster_cases)
    case (wrote b t)
    then have "save_doc R (roster_tmp root) (roster_path root) v t = (s', Inr u)"
      by (simp add: save_doc_def bindS_def lift_result_def encode_doc_def ok_or_def)
    moreover have "doc_readable (roster_path root) t"
      using rd fs_mkdirs_faults [OF wrote(2)] by (simp add: doc_readable_def)
    ultimately show ?thesis unfolding load_roster_def
      using c roster_ne by (intro doc_load_save) simp_all
  qed simp_all
next
  fix v s s' e
  assume w: "write_roster R root v s = (s', Inl e)"
  have "same_file (roster_path root) s s'"
    using w
  proof (cases rule: write_roster_cases)
    case (wrote b t)
    have "same_file (roster_path root) t s'"
      by (rule same_file_wtr [OF wrote(3) roster_ne]) (simp_all add: roster_ne [symmetric])
    with same_file_mkdirs [OF wrote(2)] show ?thesis by (rule same_file_trans)
  qed (auto intro: same_file_mkdirs)
  then show "load_roster R root s' = load_roster R root s"
    unfolding load_roster_def by (rule load_doc_same)
next
  fix v s s' x
  assume w: "write_roster R root v s = (s', x)"
  from w have "st_rfault s' = st_rfault s"
  proof (cases rule: write_roster_cases)
    case (nodir e)
    then show ?thesis using fs_mkdirs_faults by blast
  next
    case (wrote b t)
    then show ?thesis using fs_mkdirs_faults [OF wrote(2)] write_then_rename_env [OF wrote(3)] by simp
  qed simp
  then show "doc_readable (roster_path root) s' = doc_readable (roster_path root) s"
    by (simp add: doc_readable_def)
  assume h: "roster_healthy root s"
  then have mk: "fs_mkdirs (roster_dir root) s = (s, Inr ())" by (simp add: roster_healthy_def store_simps)
  from w show "roster_healthy root s'"
  proof (cases rule: write_roster_cases)
    case (wrote b t)
    then have "write_then_rename (roster_tmp root) (roster_path root) b s = (s', x)" using mk by simp
    from h write_then_rename_env [OF this] show ?thesis
      by (simp add: roster_healthy_def doc_healthy_def writable_def)
  qed (use h mk in simp_all)
next
  fix s v
  assume h: "roster_healthy root s" and "doc_storable R v"
  then obtain b where b: "enc R v = Some b" by (auto simp: doc_storable_def)
  obtain s' where "write_then_rename (roster_tmp root) (roster_path root) b s = (s', Inr ())"
    using h write_then_rename_total [of "roster_tmp root" s "roster_path root" b]
    by (auto simp: roster_healthy_def doc_healthy_def)
  with b h show "\<exists>s'. write_roster R root v s = (s', Inr ())"
    by (simp add: write_roster_def bindS_def lift_result_def encode_doc_def ok_or_def
        roster_healthy_def store_simps)
qed

lemma replace_first_names: "map ml_name (replace_first l r) = map ml_name r"
  by (induction r) simp_all

lemma find_replace_first:
  assumes "list_ex (\<lambda>e. ml_name e = ml_name l) r"
  shows "find (\<lambda>e. ml_name e = n) (replace_first l r)
    = (if n = ml_name l then Some l else find (\<lambda>e. ml_name e = n) r)"
  using assms by (induction r) auto

lemma find_snoc: "find p (xs @ [x]) = (case find p xs of None \<Rightarrow> if p x then Some x else None | Some y \<Rightarrow> Some y)"
  by (induction xs) auto

lemma roster_with_find:
  "find (\<lambda>e. ml_name e = n) (roster_with l r)
    = (if n = ml_name l then Some l else find (\<lambda>e. ml_name e = n) r)"
proof (cases "list_ex (\<lambda>e. ml_name e = ml_name l) r")
  case True
  then show ?thesis using find_replace_first [OF True] by (simp add: roster_with_def)
next
  case False
  then have "find (\<lambda>e. ml_name e = ml_name l) r = None" by (auto simp: find_None_all list_ex_iff)
  with False show ?thesis by (auto simp: roster_with_def find_snoc split: option.splits)
qed

lemma roster_with_distinct:
  "distinct (map ml_name r) \<Longrightarrow> distinct (map ml_name (roster_with l r))"
  by (auto simp: roster_with_def replace_first_names list_ex_iff)



section \<open>Logs\<close>

record log_line =
  ll_at :: u64
  ll_sender :: string
  ll_text :: string

definition sanitize_text :: "string \<Rightarrow> string" where
  "sanitize_text t = map (\<lambda>c. if c = CHR 0x0D \<or> c = CHR 0x0A then CHR '' '' else c) t"

text \<open>\<open>OpenOptions::new().create(true).append(true).open\<close>\<close>

definition fs_open_append :: "path \<Rightarrow> (store, io_error, unit) op" where
  "fs_open_append p s =
     (if is_dir s p then (s, Inl (os_error IsADirectory))
      else if st_wfault s p = Some Refused then (s, Inl (os_error PermissionDenied))
      else if file_at s p \<noteq> None then (s, Inr ())
      else if \<not> is_dir s (butlast p) then (s, Inl (os_error NotFound))
      else (put_file p [] s, Inr ()))"

definition log_line_text :: "u64 \<Rightarrow> string \<Rightarrow> string \<Rightarrow> string" where
  "log_line_text now sender t =
     dec_digits (unat now) @ [CHR 0x09] @ sender @ [CHR 0x09] @ sanitize_text t @ [CHR 0x0A]"

definition append_log ::
    "u64 \<Rightarrow> path \<Rightarrow> string \<Rightarrow> string \<Rightarrow> string \<Rightarrow> (store, io_error, unit) op" where
  "append_log now dir name sender t =
     bindS (fs_mkdirs dir) (\<lambda>_.
     bindS (fs_open_append (path_join dir name)) (\<lambda>_.
       fs_append (path_join dir name) (utf8_bytes (log_line_text now sender t))))"

text \<open>\<open>splitn(3, '\t')\<close> with the defaults of \<open>read_log\<close>; a line whose first field is not a number
  is skipped.\<close>

definition parse_line :: "string \<Rightarrow> log_line option" where
  "parse_line l = (let ps = split_on (CHR 0x09) l in
     map_option (\<lambda>n. \<lparr>ll_at = of_nat n,
         ll_sender = (case tl ps of [] \<Rightarrow> [] | p # _ \<Rightarrow> p),
         ll_text = join_with [CHR 0x09] (drop 2 ps)\<rparr>)
       (parse_nat (2 ^ 64) (hd ps)))"

definition read_log :: "path \<Rightarrow> store \<Rightarrow> log_line list" where
  "read_log p s = (case fs_read p s of
       Inl _ \<Rightarrow> []
     | Inr b \<Rightarrow> (case utf8_decode b of
         None \<Rightarrow> []
       | Some t \<Rightarrow> List.map_filter parse_line (str_lines t)))"

definition append_lobby :: "u64 \<Rightarrow> path \<Rightarrow> string \<Rightarrow> string \<Rightarrow> string \<Rightarrow> (store, io_error, unit) op" where
  "append_lobby now root name sender t = append_log now (root @ [''lobbies'']) (log_name name) sender t"

definition append_channel :: "u64 \<Rightarrow> path \<Rightarrow> string \<Rightarrow> string \<Rightarrow> (store, io_error, unit) op" where
  "append_channel now root sender t = append_log now (root @ [''channel'']) (log_name sender) sender t"

definition read_lobby :: "path \<Rightarrow> string \<Rightarrow> store \<Rightarrow> log_line list" where
  "read_lobby root name = read_log (path_join (root @ [''lobbies'']) (log_name name))"

definition read_channel :: "path \<Rightarrow> string \<Rightarrow> store \<Rightarrow> log_line list" where
  "read_channel root sender = read_log (path_join (root @ [''channel'']) (log_name sender))"

lemma log_name_plain: "plain_name (log_name name)" "log_name name \<noteq> ''roster.json''"
    "log_name name \<noteq> ''roster.tmp''"
proof -
  have l: "last (log_name name) = CHR ''g''" "length (log_name name) \<ge> 4" by (simp_all add: log_name_def)
  then show "plain_name (log_name name)" using slug_no_slash
    by (auto simp: plain_name_def log_name_def)
  show "log_name name \<noteq> ''roster.json''" "log_name name \<noteq> ''roster.tmp''" using l(1) by auto
qed

text \<open>A log that holds whole lines.\<close>

definition well_kept :: "path \<Rightarrow> store \<Rightarrow> bool" where
  "well_kept p s \<longleftrightarrow> (case file_at s p of None \<Rightarrow> True
     | Some b \<Rightarrow> (case utf8_decode b of None \<Rightarrow> False
        | Some t \<Rightarrow> b = utf8_bytes t \<and> (t = [] \<or> last t = CHR 0x0A)))"

definition log_text :: "path \<Rightarrow> store \<Rightarrow> string" where
  "log_text p s = (case file_at s p of None \<Rightarrow> [] | Some b \<Rightarrow> the (utf8_decode b))"

lemma str_lines_snoc:
  assumes "t = [] \<or> last t = CHR 0x0A" and "CHR 0x0A \<notin> set l" and "strip_cr l = l"
  shows "str_lines (t @ l @ [CHR 0x0A]) = str_lines t @ [l]"
proof (cases "t = []")
  case True
  have "split_on (CHR 0x0A) (l @ [CHR 0x0A]) = [l, []]"
    using split_on_append [OF assms(2), of "[]"] by simp
  then show ?thesis using True assms(3) by (simp add: str_lines_def Let_def)
next
  case False
  then obtain u where u: "t = u @ [CHR 0x0A]" using assms(1) by (metis append_butlast_last_id)
  have "split_on (CHR 0x0A) (t @ l @ [CHR 0x0A]) = split_on (CHR 0x0A) u @ [l, []]"
    using split_on_mid [of "CHR 0x0A" u "l @ [CHR 0x0A]"] split_on_append [OF assms(2), of "[]"]
    by (simp add: u)
  moreover have "split_on (CHR 0x0A) t = split_on (CHR 0x0A) u @ [[]]"
    using split_on_mid [of "CHR 0x0A" u "[]"] by (simp add: u)
  ultimately show ?thesis using assms(3) by (simp add: str_lines_def Let_def butlast_append)
qed

lemma parse_log_line:
  assumes "CHR 0x09 \<notin> set sender"
  shows "parse_line (butlast (log_line_text now sender t))
    = Some \<lparr>ll_at = now, ll_sender = sender, ll_text = sanitize_text t\<rparr>"
proof -
  have tab: "CHR 0x09 \<notin> set (dec_digits (unat now))"
    using dec_digits_digit by (fastforce simp: is_digit_def)
  have line: "butlast (log_line_text now sender t)
      = dec_digits (unat now) @ CHR 0x09 # (sender @ CHR 0x09 # sanitize_text t)"
    by (simp add: log_line_text_def butlast_append)
  have "parse_nat (2 ^ 64) (dec_digits (unat now)) = Some (unat now)"
    using unsigned_less [of now, where 'a = nat] by (intro parse_dec_digits) simp
  then show ?thesis
    unfolding line parse_line_def split_on_append [OF tab] split_on_append [OF assms]
    by (simp add: Let_def join_split)
qed

lemma last_not: "c \<notin> set xs \<Longrightarrow> xs \<noteq> [] \<Longrightarrow> last xs \<noteq> c"
  by (metis last_in_set)

lemma log_line_text_props:
  assumes "CHR 0x0A \<notin> set sender"
  shows "log_line_text now sender t = butlast (log_line_text now sender t) @ [CHR 0x0A]"
    "CHR 0x0A \<notin> set (butlast (log_line_text now sender t))"
    "strip_cr (butlast (log_line_text now sender t)) = butlast (log_line_text now sender t)"
proof -
  let ?l = "dec_digits (unat now) @ CHR 0x09 # (sender @ CHR 0x09 # sanitize_text t)"
  have l: "butlast (log_line_text now sender t) = ?l" by (simp add: log_line_text_def butlast_append)
  show "log_line_text now sender t = butlast (log_line_text now sender t) @ [CHR 0x0A]"
    unfolding l by (simp add: log_line_text_def)
  have "CHR 0x0A \<notin> set (dec_digits (unat now))"
    using dec_digits_digit by (fastforce simp: is_digit_def)
  then show "CHR 0x0A \<notin> set (butlast (log_line_text now sender t))"
    unfolding l using assms by (auto simp: sanitize_text_def)
  have "CHR 0x0D \<notin> set (CHR 0x09 # sanitize_text t)" by (auto simp: sanitize_text_def)
  then have "last (CHR 0x09 # sanitize_text t) \<noteq> CHR 0x0D"
    by (rule last_not) simp
  then show "strip_cr (butlast (log_line_text now sender t)) = butlast (log_line_text now sender t)"
    unfolding l by (simp add: strip_cr_def)
qed

lemma append_log_ok:
  assumes "append_log now dir name sender t s = (s', Inr u)"
  shows "file_at s' (path_join dir name)
    = Some ((case file_at s (path_join dir name) of None \<Rightarrow> [] | Some b \<Rightarrow> b)
        @ utf8_bytes (log_line_text now sender t))"
    "q \<noteq> path_join dir name \<Longrightarrow> file_at s' q = file_at s q"
    "st_rfault s' = st_rfault s" "\<not> is_dir s' (path_join dir name)"
proof -
  let ?p = "path_join dir name"
  from assms obtain s1 s2 where mk: "fs_mkdirs dir s = (s1, Inr ())" and op: "fs_open_append ?p s1 = (s2, Inr ())"
    and ap: "fs_append ?p (utf8_bytes (log_line_text now sender t)) s2 = (s', Inr u)"
    by (auto simp: append_log_def bindS_ok_iff)
  have s2: "file_at s2 q = (if q = ?p \<and> file_at s1 ?p = None then Some [] else file_at s1 q)"
    "st_rfault s2 = st_rfault s1" "is_dir s2 = is_dir s1" "\<not> is_dir s1 ?p" for q
    using op by (auto simp: fs_open_append_def store_simps fun_eq_iff split: if_splits)
  show "file_at s' ?p = Some ((case file_at s ?p of None \<Rightarrow> [] | Some b \<Rightarrow> b)
        @ utf8_bytes (log_line_text now sender t))"
    using fs_append_ok [OF ap] s2(1) [of ?p] fs_mkdirs_files [OF mk]
    by (auto simp: store_simps split: option.splits if_splits)
  show "q \<noteq> ?p \<Longrightarrow> file_at s' q = file_at s q"
    using fs_append_frame [OF ap] s2(1) [of q] fs_mkdirs_files [OF mk] by simp
  show "st_rfault s' = st_rfault s" "\<not> is_dir s' ?p"
    using fs_append_env [OF ap] s2 fs_mkdirs_faults [OF mk] by simp_all
qed

text \<open>C24: a lobby's log is faithful. A post that was appended is read back as the last line, with
  its time, its sender and its text (line breaks as spaces), after exactly the lines that were
  there before, whatever characters the text has; the log stays well kept, and nothing outside
  the lobby's own log file changes. The file lies directly under the lobbies directory whatever
  the lobby's name is.\<close>

theorem lobby_log_faithful:
  assumes "append_lobby now root name sender t s = (s', Inr u)"
    and "well_kept (path_join (root @ [''lobbies'']) (log_name name)) s"
    and "\<not> st_rfault s (path_join (root @ [''lobbies'']) (log_name name))"
    and "CHR 0x09 \<notin> set sender" and "CHR 0x0A \<notin> set sender"
  shows "read_lobby root name s'
      = read_lobby root name s @ [\<lparr>ll_at = now, ll_sender = sender, ll_text = sanitize_text t\<rparr>]
    \<and> well_kept (path_join (root @ [''lobbies'']) (log_name name)) s'
    \<and> (\<forall>q. q \<noteq> root @ [''lobbies'', log_name name] \<longrightarrow> file_at s' q = file_at s q)"
proof -
  let ?p = "path_join (root @ [''lobbies'']) (log_name name)"
  let ?l = "log_line_text now sender t" and ?T = "log_text ?p s"
  note a = append_log_ok [OF assms(1) [unfolded append_lobby_def]]
  note line = log_line_text_props [OF assms(5), of now t]
  have T: "?T = [] \<or> last ?T = CHR 0x0A"
    "(case file_at s ?p of None \<Rightarrow> [] | Some b \<Rightarrow> b) = utf8_bytes ?T"
    using assms(2) by (auto simp: well_kept_def log_text_def utf8_bytes_def split: option.splits)
  have s': "file_at s' ?p = Some (utf8_bytes (?T @ ?l))" using a(1) T(2) by simp
  have dec: "utf8_decode (utf8_bytes x) = Some x" for x using utf8_roundtrip [of x "[]"] by simp
  have read': "read_lobby root name s' = List.map_filter parse_line (str_lines (?T @ ?l))"
    using s' a(3,4) assms(3) by (simp add: read_lobby_def read_log_def fs_read_def ok_or_def dec del: utf8_bytes_append)
  have "str_lines (?T @ ?l) = str_lines ?T @ [butlast ?l]"
    using str_lines_snoc [OF T(1) line(2,3)] line(1) by simp
  moreover have "List.map_filter parse_line (str_lines ?T) = read_lobby root name s"
  proof (cases "file_at s ?p")
    case None
    then show ?thesis
      by (simp add: read_lobby_def read_log_def fs_read_def ok_or_def log_text_def str_lines_def map_filter_simps)
  next
    case (Some b)
    moreover have "\<not> is_dir s ?p"
      using a(4) assms(1) by (auto simp: append_lobby_def append_log_def bindS_ok_iff fs_open_append_def
          dest: fs_mkdirs_mono split: if_splits)
    ultimately show ?thesis using assms(2,3)
      by (auto simp: read_lobby_def read_log_def fs_read_def ok_or_def log_text_def well_kept_def
          split: option.splits)
  qed
  ultimately have "read_lobby root name s'
      = read_lobby root name s @ [\<lparr>ll_at = now, ll_sender = sender, ll_text = sanitize_text t\<rparr>]"
    using read' parse_log_line [OF assms(4), of now t] by (simp add: List.map_filter_def)
  moreover have "well_kept ?p s'"
  proof -
    have "last (?T @ ?l) = CHR 0x0A" by (simp add: log_line_text_def)
    then show ?thesis unfolding well_kept_def s' option.case dec by simp
  qed
  moreover have "?p = root @ [''lobbies'', log_name name]"
    using path_join_plain [OF log_name_plain(1)] by simp
  ultimately show ?thesis using a(2) by simp
qed

lemma lobby_log_faithful_witness:
  "let s = fst (append_lobby 7 [] ''../x'' ''ab'' ''hi'' (fresh_store [''lobbies''])) in
     last (read_lobby [] ''../x'' (fst (append_lobby 8 [] ''../x'' ''ab'' ''ho'' s)))
       = \<lparr>ll_at = 8, ll_sender = ''ab'', ll_text = ''ho''\<rparr>"
proof -
  let ?s = "fst (append_lobby 7 [] ''../x'' ''ab'' ''hi'' (fresh_store [''lobbies'']))"
  let ?r = "append_lobby 8 [] ''../x'' ''ab'' ''ho'' ?s"
  have "snd ?r = Inr ()" by code_simp
  then have r: "?r = (fst ?r, Inr ())" by (metis prod.collapse)
  have k: "well_kept (path_join ([] @ [''lobbies'']) (log_name ''../x'')) ?s" by code_simp
  have f: "\<not> st_rfault ?s (path_join ([] @ [''lobbies'']) (log_name ''../x''))" by code_simp
  have t: "CHR 0x09 \<notin> set ''ab''" "CHR 0x0A \<notin> set ''ab''" by simp_all
  have new: "sanitize_text ''ho'' = ''ho''" by code_simp
  have "read_lobby [] ''../x'' (fst ?r)
      = read_lobby [] ''../x'' ?s @ [\<lparr>ll_at = 8, ll_sender = ''ab'', ll_text = sanitize_text ''ho''\<rparr>]"
    by (rule conjunct1 [OF lobby_log_faithful [OF r k f t]])
  then show ?thesis unfolding Let_def new by (simp only: last_snoc)
qed

end
