(* ===== verification/Burrow.thy ===== *)
theory Burrow
  imports Files "HOL-Library.Sublist"
begin

text \<open>
  \<open>src/burrow/mod.rs\<close> and \<open>safe_relative_path\<close> of \<open>src/files/mod.rs\<close>: read-only sharing of a
  directory. Here the file system has symbolic links, and a path is resolved the way the kernel
  does it: component by component, each link replaced by its target, at most 40 links. What a
  fork writes goes to the node's own store.

  The size of a directory or link entry is the operating system's (\<open>osize\<close>).
\<close>

section \<open>A file system with symbolic links\<close>

text \<open>A link's target is absolute or relative, and given by its components.\<close>

datatype tree_node = Reg bytes | Dir | Sym bool "string list"

type_synonym tree = "(path \<times> tree_node) list"

definition node_at :: "tree \<Rightarrow> path \<Rightarrow> tree_node option" where
  "node_at t p = (if p = [] then Some Dir else map_of t p)"

definition skip_comp :: "string \<Rightarrow> bool" where
  "skip_comp c \<longleftrightarrow> c = [] \<or> c = ''.''"

text \<open>\<open>fl\<close> tells whether a link in the last place is followed.\<close>

function resolve :: "tree \<Rightarrow> nat \<Rightarrow> bool \<Rightarrow> path \<Rightarrow> string list \<Rightarrow> io_error + path" where
  "resolve t n fl base [] = Inr base"
| "resolve t n fl base (c # cs) =
     (if skip_comp c then resolve t n fl base cs
      else if c = ''..'' then resolve t n fl (butlast base) cs
      else (case node_at t (base @ [c]) of
          None \<Rightarrow> Inl (os_error NotFound)
        | Some (Reg b) \<Rightarrow> if cs = [] then Inr (base @ [c]) else Inl (os_error NotADirectory)
        | Some Dir \<Rightarrow> resolve t n fl (base @ [c]) cs
        | Some (Sym ab tgt) \<Rightarrow>
            if cs = [] \<and> \<not> fl then Inr (base @ [c])
            else (case n of 0 \<Rightarrow> Inl (os_error FilesystemLoop)
              | Suc m \<Rightarrow> resolve t m fl (if ab then [] else base) (tgt @ cs))))"
  by pat_completeness auto
termination
  by (relation "measures [\<lambda>(t, n, fl, base, cs). n, \<lambda>(t, n, fl, base, cs). length cs]") auto

declare resolve.simps(2) [simp del]

lemma resolve_skip [simp]: "skip_comp c \<Longrightarrow> resolve t n fl base (c # cs) = resolve t n fl base cs"
  and resolve_up [simp]: "\<not> skip_comp c \<Longrightarrow> c = ''..'' \<Longrightarrow>
    resolve t n fl base (c # cs) = resolve t n fl (butlast base) cs"
  by (simp_all add: resolve.simps(2))

lemma resolve_name:
  "\<not> skip_comp c \<Longrightarrow> c \<noteq> ''..'' \<Longrightarrow> resolve t n fl base (c # cs) =
     (case node_at t (base @ [c]) of
          None \<Rightarrow> Inl (os_error NotFound)
        | Some (Reg b) \<Rightarrow> if cs = [] then Inr (base @ [c]) else Inl (os_error NotADirectory)
        | Some Dir \<Rightarrow> resolve t n fl (base @ [c]) cs
        | Some (Sym ab tgt) \<Rightarrow>
            if cs = [] \<and> \<not> fl then Inr (base @ [c])
            else (case n of 0 \<Rightarrow> Inl (os_error FilesystemLoop)
              | Suc m \<Rightarrow> resolve t m fl (if ab then [] else base) (tgt @ cs)))"
  by (simp add: resolve.simps(2))

definition MAX_LINKS :: nat where "MAX_LINKS = 40"

text \<open>\<open>Path::canonicalize\<close>, \<open>fs::symlink_metadata\<close> and \<open>fs::read\<close> on the components of a path.\<close>

definition canonicalize :: "tree \<Rightarrow> string list \<Rightarrow> io_error + path" where
  "canonicalize t cs = resolve t MAX_LINKS True [] cs"

definition lstat :: "tree \<Rightarrow> string list \<Rightarrow> io_error + path \<times> tree_node" where
  "lstat t cs = bindR (resolve t MAX_LINKS False [] cs) (\<lambda>p. case node_at t p of
       None \<Rightarrow> Inl (os_error NotFound) | Some nd \<Rightarrow> Inr (p, nd))"

definition tree_read :: "tree \<Rightarrow> string list \<Rightarrow> io_error + bytes" where
  "tree_read t cs = bindR (canonicalize t cs) (\<lambda>p. case node_at t p of
       Some (Reg b) \<Rightarrow> Inr b | Some _ \<Rightarrow> Inl (os_error IsADirectory) | None \<Rightarrow> Inl (os_error NotFound))"

definition children :: "tree \<Rightarrow> path \<Rightarrow> string list" where
  "children t p = map (last \<circ> fst) (filter (\<lambda>(q, _). q \<noteq> [] \<and> butlast q = p) t)"

definition tree_dir :: "tree \<Rightarrow> string list \<Rightarrow> io_error + path" where
  "tree_dir t cs = bindR (canonicalize t cs) (\<lambda>p.
     if node_at t p = Some Dir then Inr p else Inl (os_error NotADirectory))"

section \<open>Paths inside a share\<close>

text \<open>\<open>safe_relative_path\<close>; the result is the path that is handed to the operating system, with
  the relative part as it was given.\<close>

definition safe_relative_path :: "tree \<Rightarrow> path \<Rightarrow> string \<Rightarrow> file_error + string list" where
  "safe_relative_path t root relative =
     bindR (map_err FIo (canonicalize t root)) (\<lambda>r.
       let raw = split_on (CHR ''/'') relative; comps = filter (\<lambda>c. \<not> skip_comp c) raw in
       if take 1 relative = ''/''
       then Inl (FIo (IoError PermissionDenied ''absolute path is not allowed''))
       else if ''..'' \<in> set comps
       then Inl (FIo (IoError PermissionDenied ''path escapes share root''))
       else if comps = [] then Inr (r @ raw)
       else bindR (map_err FIo (canonicalize t (r @ butlast comps))) (\<lambda>parent.
         if prefix r parent then Inr (r @ raw)
         else Inl (FIo (IoError PermissionDenied ''path escapes share root''))))"

section \<open>Shares\<close>

datatype entry_kind = KFile | KDirectory | KSymlink

record entry =
  en_name :: string
  en_kind :: entry_kind
  en_size :: u64

record read_only_share =
  sh_root :: path

definition share_open :: "tree \<Rightarrow> path \<Rightarrow> file_error + read_only_share" where
  "share_open t root = bindR (map_err FIo (canonicalize t root)) (\<lambda>r.
     if node_at t r \<noteq> Some Dir then Inl (FIo (IoError InvalidInput ''share root is not a directory''))
     else Inr \<lparr>sh_root = r\<rparr>)"

definition entry_of :: "(path \<Rightarrow> u64) \<Rightarrow> tree \<Rightarrow> path \<Rightarrow> string \<Rightarrow> entry" where
  "entry_of osize t p name = (case node_at t (p @ [name]) of
       Some (Reg b) \<Rightarrow> \<lparr>en_name = name, en_kind = KFile, en_size = of_nat (length b)\<rparr>
     | Some (Sym _ _) \<Rightarrow> \<lparr>en_name = name, en_kind = KSymlink, en_size = osize (p @ [name])\<rparr>
     | _ \<Rightarrow> \<lparr>en_name = name, en_kind = KDirectory, en_size = osize (p @ [name])\<rparr>)"

definition share_list :: "(path \<Rightarrow> u64) \<Rightarrow> tree \<Rightarrow> read_only_share \<Rightarrow> string \<Rightarrow> file_error + entry list" where
  "share_list osize t sh relative =
     bindR (safe_relative_path t (sh_root sh) relative) (\<lambda>path.
     bindR (map_err FIo (tree_dir t path)) (\<lambda>p.
       Inr (sort_key en_name (map (entry_of osize t p) (children t p)))))"

definition share_read :: "tree \<Rightarrow> read_only_share \<Rightarrow> string \<Rightarrow> file_error + bytes" where
  "share_read t sh relative =
     bindR (safe_relative_path t (sh_root sh) relative) (\<lambda>path.
     bindR (map_err FIo (lstat t path)) (\<lambda>(_, nd). case nd of
         Reg _ \<Rightarrow> map_err FIo (tree_read t path)
       | _ \<Rightarrow> Inl (FIo (IoError PermissionDenied ''only regular files are readable''))))"

text \<open>\<open>copy_dir\<close>, with the loop over a directory's entries written out: \<open>src\<close> is the directory the
  operating system opened.\<close>

definition depth_of :: "tree \<Rightarrow> nat" where
  "depth_of t = Max (insert 0 ((length \<circ> fst) ` set t))"

lemma node_at_depth: "node_at t p = Some nd \<Longrightarrow> length p \<le> depth_of t"
proof (cases "p = []")
  case False
  assume "node_at t p = Some nd"
  then have "(p, nd) \<in> set t" using False by (simp add: node_at_def map_of_SomeD)
  then have "length p \<in> insert 0 ((length \<circ> fst) ` set t)" by force
  then show ?thesis unfolding depth_of_def by (intro Max_ge) simp_all
qed simp

function copy_entries ::
    "tree \<Rightarrow> path \<Rightarrow> path \<Rightarrow> string list \<Rightarrow> (store, file_error, unit) op" where
  "copy_entries t src dst [] s = (s, Inr ())"
| "copy_entries t src dst (c # cs) s = (case node_at t (src @ [c]) of
       Some Dir \<Rightarrow> (case fs_mkdirs (dst @ [c]) s of
           (s1, Inl e) \<Rightarrow> (s1, Inl (FIo e))
         | (s1, Inr _) \<Rightarrow> (case copy_entries t (src @ [c]) (dst @ [c]) (children t (src @ [c])) s1 of
             (s2, Inl e) \<Rightarrow> (s2, Inl e)
           | (s2, Inr _) \<Rightarrow> copy_entries t src dst cs s2))
     | Some (Reg b) \<Rightarrow> (case fs_write (dst @ [c]) b s of
           (s1, Inl e) \<Rightarrow> (s1, Inl (FIo e))
         | (s1, Inr _) \<Rightarrow> copy_entries t src dst cs s1)
     | _ \<Rightarrow> (s, Inl (FIo (IoError PermissionDenied ''unsupported entry in fork''))))"
  by pat_completeness auto
termination
  by (relation "measures [\<lambda>(t, src, dst, cs, s). depth_of t - length src, \<lambda>(t, src, dst, cs, s). length cs]")
    (auto dest!: node_at_depth)

definition copy_dir :: "tree \<Rightarrow> path \<Rightarrow> path \<Rightarrow> (store, file_error, unit) op" where
  "copy_dir t src dst = bindS (map_errS FIo (fs_mkdirs dst)) (\<lambda>_. copy_entries t src dst (children t src))"

definition share_fork :: "tree \<Rightarrow> read_only_share \<Rightarrow> string \<Rightarrow> path \<Rightarrow> (store, file_error, unit) op" where
  "share_fork t sh relative destination =
     bindS (lift_result (safe_relative_path t (sh_root sh) relative)) (\<lambda>source.
     bindS (lift_result (map_err FIo (lstat t source))) (\<lambda>(p, nd). case nd of
         Sym _ _ \<Rightarrow> raise (FIo (IoError PermissionDenied ''symlinks cannot be forked''))
       | Reg _ \<Rightarrow>
           bindS (map_errS FIo (fs_mkdirs (butlast destination))) (\<lambda>_.
           bindS (lift_result (map_err FIo (tree_read t source))) (\<lambda>b.
             map_errS FIo (fs_write destination b)))
       | Dir \<Rightarrow> copy_dir t p destination))"

datatype burrow_request = ReqList string | ReqRead string | ReqFork string
datatype burrow_response = RespListing "entry list" | RespContent bytes | RespForkAccepted | RespError string

section \<open>Resolution\<close>

inductive skips :: "string list \<Rightarrow> string list \<Rightarrow> bool" where
  skips_Nil: "skips [] []"
| skips_keep: "skips xs ys \<Longrightarrow> skips (x # xs) (x # ys)"
| skips_drop: "skip_comp x \<Longrightarrow> skips xs ys \<Longrightarrow> skips (x # xs) ys"

inductive_cases skips_ConsE: "skips (x # xs) ys"
inductive_cases skips_NilE: "skips [] ys"

lemma skips_refl: "skips xs xs"
  by (induction xs) (auto intro: skips.intros)

lemma skips_append: "skips xs ys \<Longrightarrow> skips (zs @ xs) (zs @ ys)"
  by (induction zs) (auto intro: skips.intros)

lemma skips_filter: "skips xs (filter (\<lambda>c. \<not> skip_comp c) xs)"
  by (induction xs) (auto intro: skips.intros)

text \<open>Leaving out components that name nothing does not change where a path leads.\<close>

lemma resolve_skips:
  "resolve t n fl base xs = Inr p \<Longrightarrow> fl \<Longrightarrow> skips xs ys \<Longrightarrow> resolve t n fl base ys = Inr p"
proof (induction t n fl base xs arbitrary: ys rule: resolve.induct)
  case (1 t n fl base)
  then show ?case by (auto elim: skips_NilE)
next
  case (2 t n fl base c cs)
  note r = 2(5) and fl = 2(6)
  from 2(7) consider (keep) ys' where "ys = c # ys'" "skips cs ys'" | (drop) "skip_comp c" "skips cs ys"
    by (auto elim: skips_ConsE)
  then show ?case
  proof cases
    case drop
    then show ?thesis using 2(1) r fl by simp
  next
    case keep
    show ?thesis
    proof (cases "skip_comp c \<or> c = ''..''")
      case True
      then show ?thesis using 2(1) [OF _ _ fl keep(2)] 2(2) [OF _ _ _ fl keep(2)] r keep(1)
        by (cases "skip_comp c") auto
    next
      case False
      then have c: "\<not> skip_comp c" "c \<noteq> ''..''" by simp_all
      show ?thesis
      proof (cases "node_at t (base @ [c])")
        case None
        then show ?thesis using r c by (simp add: resolve_name)
      next
        case (Some nd)
        show ?thesis
        proof (cases nd)
          case (Reg b)
          then have "cs = []" using r c Some by (auto simp: resolve_name split: if_splits)
          then have "ys' = []" using keep(2) by (auto elim: skips_NilE)
          then show ?thesis using r c Some Reg keep(1) \<open>cs = []\<close> by (simp add: resolve_name)
        next
          case Dir
          then have "resolve t n fl (base @ [c]) cs = Inr p" using r c Some by (simp add: resolve_name)
          from 2(3) [OF c Some Dir this fl keep(2)] c Some Dir keep(1) show ?thesis
            by (simp add: resolve_name)
        next
          case (Sym a tgt)
          then obtain m where m: "n = Suc m" "resolve t m fl (if a then [] else base) (tgt @ cs) = Inr p"
            using r c Some fl by (cases n) (auto simp: resolve_name)
          from 2(4) [OF c Some Sym _ m fl skips_append [OF keep(2)]] c Some Sym keep(1) fl m(1)
          show ?thesis by (simp add: resolve_name)
        qed
      qed
    qed
  qed
qed

text \<open>A path ends in its last component, looked up in the directory the rest leads to.\<close>

lemma resolve_snoc:
  assumes "resolve t n fl base (xs @ [c]) = Inr p" and "\<not> skip_comp c" and "c \<noteq> ''..''" and g
  shows "\<exists>q m. resolve t n g base xs = Inr q \<and> resolve t m fl q [c] = Inr p"
  using assms
proof (induction t n g base xs rule: resolve.induct)
  case (1 t n g base)
  show ?case by (rule exI [of _ base], rule exI [of _ n]) (use 1 in simp)
next
  case (2 t n g base x xs)
  show ?case
  proof (cases "skip_comp x \<or> x = ''..''")
    case True
    then show ?thesis using 2(1) [OF _ _ 2(6-8)] 2(2) [OF _ _ _ 2(6-8)] 2(5)
      by (cases "skip_comp x") auto
  next
    case False
    then have x: "\<not> skip_comp x" "x \<noteq> ''..''" by simp_all
    show ?thesis
    proof (cases "node_at t (base @ [x])")
      case None
      then show ?thesis using 2(5) x by (simp add: resolve_name)
    next
      case (Some nd)
      show ?thesis
      proof (cases nd)
        case (Reg b)
        then show ?thesis using 2(5) x Some by (simp add: resolve_name)
      next
        case Dir
        then have "resolve t n fl (base @ [x]) (xs @ [c]) = Inr p" using 2(5) x Some
          by (simp add: resolve_name)
        from 2(3) [OF x Some Dir this 2(6-8)] x Some Dir show ?thesis by (simp add: resolve_name)
      next
        case (Sym a tgt)
        then obtain m where m: "n = Suc m" "resolve t m fl (if a then [] else base) ((tgt @ xs) @ [c]) = Inr p"
          using 2(5) x Some by (cases n) (auto simp: resolve_name)
        from 2(4) [OF x Some Sym _ m 2(6-8)] x Some Sym m(1) 2(8) show ?thesis
          by (simp add: resolve_name)
      qed
    qed
  qed
qed

text \<open>Leading empty and current-directory components vanish; without any other the result is the
  base itself.\<close>

lemma resolve_all_skipped: "list_all skip_comp xs \<Longrightarrow> resolve t n fl base xs = Inr base"
  by (induction xs) simp_all

text \<open>The components of a path up to its last name, and what follows it.\<close>

lemma last_name_split:
  assumes "filter (\<lambda>c. \<not> skip_comp c) xs \<noteq> []"
  obtains pre c post where "xs = pre @ c # post" "\<not> skip_comp c" "list_all skip_comp post"
    "filter (\<lambda>c. \<not> skip_comp c) xs = filter (\<lambda>c. \<not> skip_comp c) pre @ [c]"
  using assms
proof (induction xs arbitrary: thesis rule: rev_induct)
  case Nil
  then show ?case by simp
next
  case (snoc x xs)
  show ?case
  proof (cases "skip_comp x")
    case True
    then obtain pre c post where "xs = pre @ c # post" "\<not> skip_comp c" "list_all skip_comp post"
      "filter (\<lambda>c. \<not> skip_comp c) xs = filter (\<lambda>c. \<not> skip_comp c) pre @ [c]"
      using snoc.IH snoc.prems(2) by auto
    then show ?thesis using True by (intro snoc.prems(1) [of pre c "post @ [x]"]) simp_all
  next
    case False
    then show ?thesis by (intro snoc.prems(1) [of xs x "[]"]) simp_all
  qed
qed

text \<open>Every entry lies in a directory.\<close>

definition tree_ok :: "tree \<Rightarrow> bool" where
  "tree_ok t \<longleftrightarrow> list_all (\<lambda>(p, _). p \<noteq> [] \<and> node_at t (butlast p) = Some Dir) t"

lemma tree_ok_parent: "tree_ok t \<Longrightarrow> node_at t p = Some Dir \<Longrightarrow> node_at t (butlast p) = Some Dir"
proof (cases "p = []")
  case True
  assume "node_at t p = Some Dir"
  then show ?thesis using True by simp
next
  case False
  assume "tree_ok t" "node_at t p = Some Dir"
  then have "(p, Dir) \<in> set t" using False by (simp add: node_at_def map_of_SomeD)
  then show ?thesis using \<open>tree_ok t\<close> by (auto simp: tree_ok_def list_all_iff)
qed

text \<open>A path that ends in an empty or current-directory component leads to a directory.\<close>

lemma resolve_dir:
  assumes "resolve t n fl base (xs @ [y]) = Inr p" and "skip_comp y" and "tree_ok t"
    and "node_at t base = Some Dir" and g
  shows "node_at t p = Some Dir"
  using assms
proof (induction t n g base xs rule: resolve.induct)
  case (1 t n g base)
  then show ?case by simp
next
  case (2 t n g base x xs)
  show ?case
  proof (cases "skip_comp x \<or> x = ''..''")
    case True
    then show ?thesis
      using 2(1) [OF _ _ 2(6-9)] 2(2) [OF _ _ _ 2(6,7) tree_ok_parent [OF 2(7,8)] 2(9)] 2(5)
      by (cases "skip_comp x") auto
  next
    case False
    then have x: "\<not> skip_comp x" "x \<noteq> ''..''" by simp_all
    show ?thesis
    proof (cases "node_at t (base @ [x])")
      case None
      then show ?thesis using 2(5) x by (simp add: resolve_name)
    next
      case (Some nd)
      show ?thesis
      proof (cases nd)
        case (Reg b)
        then show ?thesis using 2(5) x Some by (simp add: resolve_name)
      next
        case Dir
        then have "resolve t n fl (base @ [x]) (xs @ [y]) = Inr p" using 2(5) x Some
          by (simp add: resolve_name)
        from 2(3) [OF x Some Dir this 2(6,7) _ 2(9)] Some Dir show ?thesis by simp
      next
        case (Sym a tgt)
        then obtain m where m: "n = Suc m" "resolve t m fl (if a then [] else base) ((tgt @ xs) @ [y]) = Inr p"
          using 2(5) x Some by (cases n) (auto simp: resolve_name)
        have "node_at t [] = Some Dir" by (simp add: node_at_def)
        then have "node_at t (if a then [] else base) = Some Dir" using 2(8) by (cases a) simp_all
        from 2(4) [OF x Some Sym _ m 2(6,7) this 2(9)] 2(9) show ?thesis by simp
      qed
    qed
  qed
qed

lemma tree_read_ok:
  assumes "tree_read t cs = Inr b"
  shows "\<exists>p. canonicalize t cs = Inr p \<and> node_at t p = Some (Reg b)"
proof -
  from assms obtain p where p: "canonicalize t cs = Inr p"
    and r: "(case node_at t p of Some (Reg b) \<Rightarrow> Inr b | Some _ \<Rightarrow> Inl (os_error IsADirectory)
      | None \<Rightarrow> Inl (os_error NotFound)) = Inr b"
    by (auto simp: tree_read_def bind_simps)
  show ?thesis
  proof (cases "node_at t p")
    case None
    then show ?thesis using r by simp
  next
    case (Some nd)
    then show ?thesis using r p by (cases nd) simp_all
  qed
qed

section \<open>Reads stay inside the share\<close>

lemma share_read_inside:
  assumes "tree_ok t" and "share_read t sh relative = Inr b"
  shows "\<exists>r p. canonicalize t (sh_root sh) = Inr r \<and> prefix r p \<and> node_at t p = Some (Reg b)"
proof -
  let ?raw = "split_on (CHR ''/'') relative"
  let ?comps = "filter (\<lambda>c. \<not> skip_comp c) ?raw"
  from assms(2) obtain path p nd where sp: "safe_relative_path t (sh_root sh) relative = Inr path"
    and ls0: "lstat t path = Inr (p, nd)"
    and rd0: "(case nd of Reg _ \<Rightarrow> map_err FIo (tree_read t path)
       | _ \<Rightarrow> Inl (FIo (IoError PermissionDenied ''only regular files are readable''))) = Inr b"
    by (auto simp: share_read_def bind_simps)
  from rd0 obtain b0 where "nd = Reg b0" and rd: "tree_read t path = Inr b"
    by (cases nd) (simp_all add: bind_simps)
  with ls0 have ls: "lstat t path = Inr (p, Reg b0)" by simp
  from sp obtain r where r: "canonicalize t (sh_root sh) = Inr r" and path: "path = r @ ?raw"
    and dots: "''..'' \<notin> set ?comps"
    and par: "?comps \<noteq> [] \<Longrightarrow> \<exists>q. canonicalize t (r @ butlast ?comps) = Inr q \<and> prefix r q"
    by (auto simp: safe_relative_path_def Let_def bind_simps split: if_splits)
  have res: "resolve t MAX_LINKS False [] path = Inr p" and reg: "node_at t p = Some (Reg b0)"
    using ls by (auto simp: lstat_def bind_simps split: option.splits)
  have root: "node_at t [] = Some Dir" by (simp add: node_at_def)
  have no_dir: False if "path = xs @ [y]" "skip_comp y" for xs y
    using resolve_dir [of t MAX_LINKS False "[]" xs y p True] res that assms(1) root reg by simp
  have "?comps \<noteq> []"
  proof
    assume "?comps = []"
    then have "skip_comp (last ?raw)" by (simp add: filter_empty_conv)
    moreover have "path = (r @ butlast ?raw) @ [last ?raw]" by (simp add: path)
    ultimately show False using no_dir by blast
  qed
  then obtain pre c post where raw: "?raw = pre @ c # post" and c: "\<not> skip_comp c"
    and post: "list_all skip_comp post" and comps: "?comps = filter (\<lambda>c. \<not> skip_comp c) pre @ [c]"
    by (rule last_name_split)
  have c': "c \<noteq> ''..''" using dots comps by auto
  have "post = []"
  proof (rule ccontr)
    assume "post \<noteq> []"
    then have "path = (r @ pre @ c # butlast post) @ [last post]" "skip_comp (last post)"
      using post by (simp_all add: path raw list_all_iff)
    then show False using no_dir by blast
  qed
  then have p1: "path = (r @ pre) @ [c]" by (simp add: path raw)
  obtain q0 where q0: "canonicalize t (r @ butlast ?comps) = Inr q0" "prefix r q0"
    using par [OF \<open>?comps \<noteq> []\<close>] by blast
  have clean: "q = q0" if "resolve t MAX_LINKS True [] (r @ pre) = Inr q" for q
  proof -
    have "skips (r @ pre) (r @ filter (\<lambda>c. \<not> skip_comp c) pre)" by (rule skips_append [OF skips_filter])
    from resolve_skips [OF that TrueI this] q0(1) comps show ?thesis by (simp add: canonicalize_def)
  qed
  obtain q m where q: "resolve t MAX_LINKS True [] (r @ pre) = Inr q" "resolve t m False q [c] = Inr p"
    using resolve_snoc [of t MAX_LINKS False "[]" "r @ pre" c p True] res c c' p1 by auto
  have p: "p = q0 @ [c]"
    using q(2) clean [OF q(1)] c c' reg by (auto simp: resolve_name split: option.splits tree_node.splits)
  obtain p' where p': "resolve t MAX_LINKS True [] path = Inr p'" "node_at t p' = Some (Reg b)"
    using tree_read_ok [OF rd] by (auto simp: canonicalize_def)
  obtain q' m' where q': "resolve t MAX_LINKS True [] (r @ pre) = Inr q'" "resolve t m' True q' [c] = Inr p'"
    using resolve_snoc [of t MAX_LINKS True "[]" "r @ pre" c p' True] p'(1) c c' p1 by auto
  have "p' = q0 @ [c]"
    using q'(2) clean [OF q'(1)] c c' reg p by (simp add: resolve_name)
  moreover have "prefix r (q0 @ [c])" using q0(2) by (rule prefix_prefix)
  ultimately show ?thesis using p'(2) r by blast
qed

text \<open>A peer can read nothing outside the share. Whatever path the peer asks for, and whatever
  links the share contains, the bytes of a successful read are those of a regular file whose real
  location lies under the real location of the share's root.\<close>

theorem share_read_confined:
  assumes "tree_ok t" and "share_read t sh relative = Inr b"
  shows "\<exists>r p. canonicalize t (sh_root sh) = Inr r \<and> prefix r p \<and> node_at t p = Some (Reg b)"
  using assms by (rule share_read_inside)

definition demo_tree :: tree where
  "demo_tree = [([''h''], Dir), ([''h'', ''share''], Dir), ([''h'', ''share'', ''f''], Reg [1]),
     ([''h'', ''share'', ''out''], Sym False [''..'', ''private'']),
     ([''h'', ''private''], Dir), ([''h'', ''private'', ''key''], Reg [9, 9])]"

lemma share_read_confined_witness:
  "share_read demo_tree \<lparr>sh_root = [''h'', ''share'']\<rparr> ''f'' = Inr [1]
    \<and> share_read demo_tree \<lparr>sh_root = [''h'', ''share'']\<rparr> ''out/key''
        = Inl (FIo (IoError PermissionDenied ''path escapes share root''))
    \<and> (\<exists>r p. canonicalize demo_tree [''h'', ''share''] = Inr r \<and> prefix r p \<and> node_at demo_tree p = Some (Reg [1]))"
proof -
  have t: "tree_ok demo_tree" by code_simp
  have r: "share_read demo_tree \<lparr>sh_root = [''h'', ''share'']\<rparr> ''f'' = Inr [1]" by code_simp
  have e: "share_read demo_tree \<lparr>sh_root = [''h'', ''share'']\<rparr> ''out/key''
      = Inl (FIo (IoError PermissionDenied ''path escapes share root''))" by code_simp
  from r e share_read_confined [OF t r] show ?thesis by simp
qed

text \<open>Listings and forks do not have that confinement. A link in the last place is followed by
  \<open>list\<close>, and by \<open>fork\<close> when the path ends in a slash, so a peer is shown names and sizes of a
  directory outside the share, and a fork copies its files, although reading through the same
  link is refused.\<close>

theorem share_list_follows_link:
  "share_list (\<lambda>_. 0) demo_tree \<lparr>sh_root = [''h'', ''share'']\<rparr> ''out''
      = Inr [\<lparr>en_name = ''key'', en_kind = KFile, en_size = 2\<rparr>]
    \<and> canonicalize demo_tree [''h'', ''share''] = Inr [''h'', ''share'']
    \<and> \<not> prefix [''h'', ''share''] [''h'', ''private'', ''key'']
    \<and> snd (share_fork demo_tree \<lparr>sh_root = [''h'', ''share'']\<rparr> ''out'' [''d''] (fresh_store []))
        = Inl (FIo (IoError PermissionDenied ''symlinks cannot be forked''))
    \<and> file_at (fst (share_fork demo_tree \<lparr>sh_root = [''h'', ''share'']\<rparr> ''out/'' [''d''] (fresh_store [])))
        [''d'', ''key''] = Some [9, 9]"
proof (intro conjI)
  show "share_list (\<lambda>_. 0) demo_tree \<lparr>sh_root = [''h'', ''share'']\<rparr> ''out''
      = Inr [\<lparr>en_name = ''key'', en_kind = KFile, en_size = 2\<rparr>]" by code_simp
  show "canonicalize demo_tree [''h'', ''share''] = Inr [''h'', ''share'']" by code_simp
  show "\<not> prefix [''h'', ''share''] [''h'', ''private'', ''key'']" by simp
  show "snd (share_fork demo_tree \<lparr>sh_root = [''h'', ''share'']\<rparr> ''out'' [''d''] (fresh_store []))
      = Inl (FIo (IoError PermissionDenied ''symlinks cannot be forked''))" by code_simp
  show "file_at (fst (share_fork demo_tree \<lparr>sh_root = [''h'', ''share'']\<rparr> ''out/'' [''d''] (fresh_store [])))
      [''d'', ''key''] = Some [9, 9]" by code_simp
qed

end
