(* ===== verification/App.thy ===== *)
theory App
  imports Messaging Receiver StorageLib Pair LobbyLib Burrow
begin

text \<open>
  \<open>src/app/mod.rs\<close> and the frame types of \<open>src/app/*.rs\<close>: the typed envelopes carried in message
  payloads, their encoding, the state a handler works on, and replies.

  A handler's state is the node: its identity, its home directory in the store, the lobbies this
  process hosts, and the outbox, which lists what it handed to the router with \<open>send_raw\<close>, in
  order. \<open>send_raw\<close> fails exactly when the router refuses the message for its size (see
  \<open>Router\<close>). The clock and the ids that are drawn at random are in the environment. Sharing
  reads a tree with symbolic links (\<open>Burrow\<close>).
\<close>

section \<open>Frames\<close>

datatype files_frame =
    FAnnounce string file_manifest string
  | FAccept string "u32 list"
  | FChunk string chunk
  | FReject string u32 string
  | FComplete string
  | FStatusRequest string
  | FStatus string transfer_state
  | FError "string option" string

datatype burrow_frame =
    BList string
  | BListing string "entry list"
  | BRead string
  | BContent string bytes
  | BFork string
  | BForkResult string bool "string option"
  | BError "string option" string

datatype storage_frame =
    StoreChunks string file_manifest "encrypted_chunk list"
  | StoreAck string
  | FetchChunks string u32
  | StoredChunks string "file_manifest option" "encrypted_chunk list"
  | StError string

datatype core_frame =
    ReconcileRequest "bytes list"
  | ReconcileMissing "bytes list"
  | ChunkData bytes "bytes option"
  | RevokeBroadcast public_identity u64 bytes
  | RevokeAck u64
  | RevokeRefuse u64 string
  | CoError string

record endpoint_record =
  ep_identity :: public_identity
  ep_address :: string
  ep_last_seen :: u64
  ep_expires_at :: u64

datatype rendezvous_frame =
    Register string u32 bytes
  | Registered
  | Lookup string
  | LookupResult string "endpoint_record list"
  | RList
  | ListResult "endpoint_record list"
  | Probe string
  | ProbeResult string bool
  | RError string

datatype pair_frame = Redeem string | Redeemed string | PError string

datatype lobby_frame =
    Join string string
  | Joined string string string
  | Posted string nat
  | Refuse string
  | Post string string bytes bytes
  | Relay string bytes bytes
  | Leave string
  | Left string
  | Members string
  | MemberList "string list"

datatype channel_frame = ChSend string | ChAck u64

datatype app_frame =
    AppRaw bytes
  | AppFiles files_frame
  | AppBurrow burrow_frame
  | AppStorage storage_frame
  | AppCore core_frame
  | AppRendezvous rendezvous_frame
  | AppPair pair_frame
  | AppLobby lobby_frame
  | AppChannel channel_frame

definition frame_encode :: "app_frame codec \<Rightarrow> app_frame \<Rightarrow> io_error + bytes" where
  "frame_encode A f = bindR (ok_or codec_error (enc A f)) (\<lambda>b.
     if length b > MAX_MESSAGE_SIZE then Inl (IoError InvalidInput ''application frame too large'')
     else Inr b)"

text \<open>What does not decode is a legacy text payload.\<close>

definition frame_decode :: "app_frame codec \<Rightarrow> bytes \<Rightarrow> app_frame" where
  "frame_decode A b = (case dec A b of None \<Rightarrow> AppRaw b | Some f \<Rightarrow> f)"

lemma frame_roundtrip:
  "codec_ok A \<Longrightarrow> frame_encode A f = Inr b \<Longrightarrow> frame_decode A b = f"
  by (auto simp: frame_encode_def frame_decode_def codec_ok_def bind_simps split: if_splits)

section \<open>The node a handler runs on\<close>

record host_state =
  hs_key :: string
  hs_members :: "public_identity list"
  hs_title :: string
  hs_welcome :: string
  hs_max_members :: "nat option"

record node =
  n_identity :: identity
  n_home :: path
  n_store :: store
  n_outbox :: "message list"
  n_hosts :: "((path \<times> string) \<times> host_state) list"

text \<open>The serialisation formats in use, one codec per document and frame type.\<close>

record codecs =
  k_app :: "app_frame codec"
  k_message :: "message codec"
  k_manifest :: "file_manifest codec"
  k_state :: "transfer_state codec"
  k_encrypted :: "encrypted_chunk codec"
  k_fingerprints :: "string set codec"
  k_records :: "(string \<times> endpoint_record) list codec"
  k_ledger :: "pair_ledger codec"
  k_pending :: "pending_token codec"
  k_roster :: "roster codec"

record env =
  e_crates :: crates
  e_codecs :: codecs
  e_now :: u64
  e_ids :: "nat \<Rightarrow> bytes"
  e_tree :: tree
  e_osize :: "path \<Rightarrow> u64"

text \<open>The same environment at another time.\<close>

definition at_time :: "env \<Rightarrow> u64 \<Rightarrow> env" where
  "at_time E t = E\<lparr>e_now := t\<rparr>"

type_synonym handling = "string option"
type_synonym handler = "node \<Rightarrow> node \<times> (io_error + handling)"

definition on_store :: "(store, 'e, 'a) op \<Rightarrow> (node, 'e, 'a) op" where
  "on_store m n = (case m (n_store n) of (s', r) \<Rightarrow> (n\<lparr>n_store := s'\<rparr>, r))"

definition node_public :: "env \<Rightarrow> node \<Rightarrow> public_identity" where
  "node_public E n = public_of (e_crates E) (n_identity n)"

definition finger :: "env \<Rightarrow> public_identity \<Rightarrow> string" where
  "finger E i = fingerprint (e_crates E) i"

text \<open>\<open>Node::send_raw\<close>\<close>

definition send_raw :: "env \<Rightarrow> message \<Rightarrow> (node, io_error, unit) op" where
  "send_raw E m n = (case validate_size (k_message (e_codecs E)) m of
       Inl e \<Rightarrow> (n, Inl e) | Inr _ \<Rightarrow> (n\<lparr>n_outbox := n_outbox n @ [m]\<rparr>, Inr ()))"

text \<open>\<open>reply\<close>: back to the sender, under the id of the request.\<close>

definition reply :: "env \<Rightarrow> message \<Rightarrow> app_frame \<Rightarrow> (node, io_error, unit) op" where
  "reply E req f n = (case frame_encode (k_app (e_codecs E)) f of
       Inl e \<Rightarrow> (n, Inl e)
     | Inr b \<Rightarrow> send_raw E \<lparr>m_id = m_id req, m_sender = node_public E n,
         m_recipient = m_sender req, m_payload = b\<rparr> n)"

text \<open>\<open>let _ = reply(..).await\<close> and then the outcome.\<close>

definition reply_then :: "env \<Rightarrow> message \<Rightarrow> app_frame \<Rightarrow> handling \<Rightarrow> handler" where
  "reply_then E req f h n = (fst (reply E req f n), Inr h)"

section \<open>Texts\<close>

definition io_display :: "io_error \<Rightarrow> string" where
  "io_display e = err_text e"

fun file_display :: "file_error \<Rightarrow> string" where
  "file_display (FIo e) = ''I/O: '' @ io_display e"
| "file_display (FCodec s) = ''codec: '' @ s"
| "file_display (HashMismatch i) = ''chunk '' @ dec_digits (unat i) @ '' hash mismatch''"
| "file_display FInvalidSignature = ''manifest signature invalid''"
| "file_display InvalidIndex = ''chunk index out of range''"
| "file_display FPanic = ''panic''"

definition show_nat :: "nat \<Rightarrow> string" where
  "show_nat n = dec_digits n"

fun hex_digits :: "nat \<Rightarrow> string" where
  "hex_digits n = (let d = n mod 16; c = char_of (if d < 10 then 48 + d else 87 + d) in
     if n < 16 then [c] else hex_digits (n div 16) @ [c])"

declare hex_digits.simps [simp del]

text \<open>The \<open>Debug\<close> rendering of a string: quotes, and escapes for what does not print.\<close>

definition debug_char :: "char \<Rightarrow> string" where
  "debug_char c = (let n = of_char c :: nat in
     if n = 0 then [CHR 0x5C, CHR ''0'']
     else if n = 9 then [CHR 0x5C, CHR ''t'']
     else if n = 10 then [CHR 0x5C, CHR ''n'']
     else if n = 13 then [CHR 0x5C, CHR ''r'']
     else if n = 34 \<or> n = 92 then [CHR 0x5C, c]
     else if n < 32 \<or> (127 \<le> n \<and> n \<le> 160) \<or> n = 173
       then [CHR 0x5C, CHR ''u'', CHR 0x7B] @ hex_digits n @ [CHR 0x7D]
     else [c])"

definition debug_str :: "string \<Rightarrow> string" where
  "debug_str s = [CHR 0x22] @ concat (map debug_char s) @ [CHR 0x22]"

definition debug_u32s :: "u32 list \<Rightarrow> string" where
  "debug_u32s is = ''['' @ join_with '', '' (map (\<lambda>i. dec_digits (unat i)) is) @ '']''"

definition newline :: string where "newline = [CHR 0x0A]"

section \<open>Facts about replies\<close>

lemma at_time_simps [simp]:
  "e_crates (at_time E t) = e_crates E" "e_codecs (at_time E t) = e_codecs E" "e_now (at_time E t) = t"
  "e_ids (at_time E t) = e_ids E" "finger (at_time E t) = finger E" "node_public (at_time E t) = node_public E"
  by (simp_all add: at_time_def finger_def node_public_def fun_eq_iff)

lemma send_raw_frame:
  assumes "send_raw E m n = (n', r)"
  shows "n_store n' = n_store n" "n_hosts n' = n_hosts n" "n_home n' = n_home n" "n_identity n' = n_identity n"
    "n_outbox n' = n_outbox n \<or> n_outbox n' = n_outbox n @ [m]"
  using assms by (auto simp: send_raw_def split: sum.splits)

lemma reply_frame:
  assumes "reply E req f n = (n', r)"
  shows "n_store n' = n_store n" "n_hosts n' = n_hosts n" "n_home n' = n_home n" "n_identity n' = n_identity n"
  using assms send_raw_frame unfolding reply_def
  by (auto split: sum.splits)

lemma reply_outbox:
  assumes "reply E req f n = (n', r)"
  shows "n_outbox n' = n_outbox n \<or>
    (\<exists>b. frame_encode (k_app (e_codecs E)) f = Inr b \<and>
      n_outbox n' = n_outbox n @ [\<lparr>m_id = m_id req, m_sender = node_public E n,
         m_recipient = m_sender req, m_payload = b\<rparr>])"
  using assms send_raw_frame(5) unfolding reply_def by (auto split: sum.splits)

lemma reply_then_simps [handler_defs]:
  "n_store (fst (reply_then E req f h n)) = n_store n" "n_hosts (fst (reply_then E req f h n)) = n_hosts n"
  "n_home (fst (reply_then E req f h n)) = n_home n" "snd (reply_then E req f h n) = Inr h"
  "n_identity (fst (reply_then E req f h n)) = n_identity n"
  unfolding reply_then_def by (auto simp: reply_frame [OF surjective_pairing])

lemma reply_thenD:
  assumes "reply_then E req f h n = (n', r)"
  shows "n_store n' = n_store n \<and> n_hosts n' = n_hosts n \<and> n_home n' = n_home n \<and> r = Inr h
    \<and> n_identity n' = n_identity n"
  using assms reply_then_simps [of E req f h n] by simp_all

text \<open>A reply that is sent carries the frame, to the requester, under the request's id.\<close>

definition sends :: "env \<Rightarrow> node \<Rightarrow> node \<Rightarrow> message \<Rightarrow> app_frame \<Rightarrow> bool" where
  "sends E n n' req f \<longleftrightarrow> n_outbox n' = n_outbox n \<or>
     (\<exists>m. n_outbox n' = n_outbox n @ [m] \<and> m_id m = m_id req \<and> m_recipient m = m_sender req \<and>
        m_sender m = node_public E n \<and> frame_encode (k_app (e_codecs E)) f = Inr (m_payload m))"

lemma reply_then_sends: "sends E n (fst (reply_then E req f h n)) req f"
  using reply_outbox [of E req f n "fst (reply E req f n)" "snd (reply E req f n)"]
  by (auto simp: reply_then_def sends_def)

text \<open>A reply within the size limits is what the requester decodes.\<close>

lemma reply_decodes:
  assumes "\<And>n. snd (reply E req f n) = Inr ()" and "codec_ok (k_app (e_codecs E))" and "n_outbox n = []"
  shows "\<exists>r. n_outbox (fst (reply_then E req f h n)) = [r] \<and> frame_decode (k_app (e_codecs E)) (m_payload r) = f"
proof -
  have "snd (reply E req f n) = Inr ()" by (rule assms(1))
  then obtain b where "frame_encode (k_app (e_codecs E)) f = Inr b"
    "n_outbox (fst (reply E req f n)) = [\<lparr>m_id = m_id req, m_sender = node_public E n,
       m_recipient = m_sender req, m_payload = b\<rparr>]"
    using assms(3) by (auto simp: reply_def send_raw_def split: sum.splits)
  with frame_roundtrip [OF assms(2)] show ?thesis by (simp add: reply_then_def)
qed

section \<open>A node for closed examples\<close>

definition no_codec :: "'a codec" where
  "no_codec = \<lparr>enc = (\<lambda>_. None), dec = (\<lambda>_. None)\<rparr>"

lemma no_codec_ok: "codec_ok no_codec"
  by (simp add: codec_ok_def no_codec_def)

definition demo_app_codecs :: codecs where
  "demo_app_codecs = \<lparr>k_app = no_codec, k_message = no_codec, k_manifest = no_codec, k_state = no_codec,
     k_encrypted = no_codec, k_fingerprints = no_codec, k_records = no_codec, k_ledger = no_codec,
     k_pending = no_codec, k_roster = no_codec\<rparr>"

definition demo_node :: "store \<Rightarrow> node" where
  "demo_node s = \<lparr>n_identity = demo_signer, n_home = [''h''], n_store = s, n_outbox = [], n_hosts = []\<rparr>"

lemma demo_node_simps [simp]:
  "n_home (demo_node s) = [''h'']" "n_store (demo_node s) = s" "n_identity (demo_node s) = demo_signer"
  "n_outbox (demo_node s) = []" "n_hosts (demo_node s) = []"
  by (simp_all add: demo_node_def)

definition demo_env :: "u64 \<Rightarrow> env" where
  "demo_env now = \<lparr>e_crates = demo_crates, e_codecs = demo_app_codecs, e_now = now, e_ids = (\<lambda>i. [of_nat i]),
     e_tree = [], e_osize = (\<lambda>_. 0)\<rparr>"

definition raw_message :: "message codec" where
  "raw_message = \<lparr>enc = (\<lambda>m. Some (m_payload m)), dec = (\<lambda>_. None)\<rparr>"

definition demo_request :: "public_identity \<Rightarrow> message" where
  "demo_request i = \<lparr>m_id = [1], m_sender = i, m_recipient = \<lparr>public_key = [9]\<rparr>, m_payload = []\<rparr>"

lemma reply_small:
  assumes "k_message (e_codecs E) = raw_message" and "enc (k_app (e_codecs E)) f = Some b" and "length b \<le> 100"
  shows "snd (reply E req f n) = Inr ()"
  using assms
  by (simp add: reply_def frame_encode_def ok_or_def send_raw_def validate_size_def raw_message_def MAX_MESSAGE_SIZE_def)

end
