(* ===== verification/AppPair.thy ===== *)
theory AppPair
  imports App
begin

text \<open>
  \<open>src/app/pair.rs\<close>: the acceptor's side of flash pairing. A presented token is consumed; on
  success the authenticated sender enters the pairing ledger.
\<close>

definition handle_pair :: "env \<Rightarrow> message \<Rightarrow> pair_frame \<Rightarrow> handler" where
  "handle_pair E req f n = (case f of
       Redeem token \<Rightarrow>
         (case on_store (consume_token (k_pending (e_codecs E)) (e_now E) (n_home n) token) n of
            (n1, Inr True) \<Rightarrow>
              bindS (on_store (record_pairing (e_crates E) (k_ledger (e_codecs E)) (e_now E) (n_home n1)
                  (m_sender req)))
                (\<lambda>_. reply_then E req (AppPair (Redeemed (finger E (m_sender req))))
                  (Some (''paired '' @ finger E (m_sender req) @ '' (single-use token consumed)''))) n1
          | (n1, Inr False) \<Rightarrow>
              reply_then E req (AppPair (PError ''token is invalid, expired, or already used'')) None n1
          | (n1, Inl e) \<Rightarrow>
              reply_then E req (AppPair (PError (''could not consume token: '' @ io_display e))) None n1)
     | Redeemed _ \<Rightarrow> (n, Inr None)
     | PError msg \<Rightarrow> (n, Inr (Some (''pairing error: '' @ msg))))"

definition node_ledger :: "env \<Rightarrow> node \<Rightarrow> pair_ledger" where
  "node_ledger E n = load_ledger (k_ledger (e_codecs E)) (n_home n) (n_store n)"

definition node_token :: "env \<Rightarrow> node \<Rightarrow> pending_token option" where
  "node_token E n = load_pending (k_pending (e_codecs E)) (n_home n) (n_store n)"

lemma consume_token_true:
  assumes "consume_token P now root token s = (s', Inr True)"
  obtains t where "load_pending P root s = Some t" "\<not> pt_used t" "now < pt_expires_at t" "pt_token t = token"
  using assms by (auto simp: consume_token_alt not_le split: option.splits if_splits)

text \<open>C5: nobody enters the pairing ledger without the token. If handling a frame makes the ledger
  hold a device it did not hold before, then the frame presented the token that was pending,
  unused and in its window, the device is the authenticated sender of the request, recorded with
  the sender's own key, and the token cannot be redeemed again. Earlier entries are never lost.\<close>

theorem pairing_needs_token:
  assumes "handle_pair E req f n = (n', r)" and "codec_ok (k_ledger (e_codecs E))"
    and "codec_ok (k_pending (e_codecs E))" and "\<not> st_rfault (n_store n) (ledger_path (n_home n))"
  shows "set (node_ledger E n) \<subseteq> set (node_ledger E n')
    \<and> (\<forall>d \<in> set (node_ledger E n') - set (node_ledger E n).
        pd_public_key d = public_key (m_sender req) \<and> pd_fingerprint d = finger E (m_sender req)
        \<and> (\<exists>token t. f = Redeem token \<and> node_token E n = Some t \<and> pt_token t = token \<and> \<not> pt_used t
            \<and> e_now E < pt_expires_at t)
        \<and> dead (k_pending (e_codecs E)) (n_home n) (n_store n'))"
proof -
  let ?P = "k_pending (e_codecs E)" and ?L = "k_ledger (e_codecs E)" and ?h = "n_home n"
  show ?thesis
  proof (cases f)
    case (Redeem token)
    obtain s1 x where c: "consume_token ?P (e_now E) ?h token (n_store n) = (s1, x)"
      by (cases "consume_token ?P (e_now E) ?h token (n_store n)")
    let ?n1 = "n\<lparr>n_store := s1\<rparr>"
    have on: "on_store (consume_token ?P (e_now E) ?h token) n = (?n1, x)" by (simp add: on_store_def c)
    note led = consume_token_env(3,1) [OF c]
    show ?thesis
    proof (cases "x = Inr True")
      case False
      then have "n_store n' = s1 \<and> n_home n' = ?h"
        using assms(1) Redeem on
        by (cases x) (auto simp: handle_pair_def dest!: reply_thenD split: bool.splits)
      then show ?thesis using led by (simp add: node_ledger_def)
    next
      case True
      obtain s2 y where rp: "record_pairing (e_crates E) ?L (e_now E) ?h (m_sender req) s1 = (s2, y)"
        by (cases "record_pairing (e_crates E) ?L (e_now E) ?h (m_sender req) s1")
      have on2: "on_store (record_pairing (e_crates E) ?L (e_now E) ?h (m_sender req)) ?n1
          = (n\<lparr>n_store := s2\<rparr>, y)" by (simp add: on_store_def rp)
      have "n_store n' = s2 \<and> n_home n' = ?h"
        using assms(1) Redeem on on2 True
        by (cases y) (auto simp: handle_pair_def bindS_def dest!: reply_thenD)
      moreover have "load_ledger ?L ?h s2 = load_ledger ?L ?h s1
        \<or> load_ledger ?L ?h s2 = load_ledger ?L ?h s1 @ [\<lparr>pd_fingerprint = finger E (m_sender req),
            pd_public_key = public_key (m_sender req), pd_paired_at = e_now E\<rparr>]"
        using record_pairing_ledger [OF rp assms(2)] led(2) assms(4) by (simp add: finger_def)
      moreover have "dead ?P ?h s2"
        using consume_step [OF c assms(3)] True record_pairing_token [OF rp, of ?P] by (simp add: dead_def)
      moreover have "\<exists>token t. f = Redeem token \<and> node_token E n = Some t \<and> pt_token t = token \<and> \<not> pt_used t
            \<and> e_now E < pt_expires_at t"
        using consume_token_true [of ?P "e_now E" ?h token "n_store n" s1] c True Redeem
        unfolding node_token_def by blast
      ultimately show ?thesis using led(1) unfolding node_ledger_def
        by (intro grows_by [where d = "\<lparr>pd_fingerprint = finger E (m_sender req),
            pd_public_key = public_key (m_sender req), pd_paired_at = e_now E\<rparr>"]) simp_all
    qed
  qed (use assms(1) in \<open>auto simp: handle_pair_def\<close>)
qed

definition pair_device :: paired_device where
  "pair_device = \<lparr>pd_fingerprint = ''B'', pd_public_key = [66], pd_paired_at = 101\<rparr>"

definition pair_env :: env where
  "pair_env = (demo_env 101)\<lparr>e_codecs := demo_app_codecs\<lparr>k_ledger := table_codec [[pair_device]], k_pending := demo_pc\<rparr>\<rparr>"

definition pair_store :: store where
  "pair_store = fst (issue_token demo_crates demo_pc [65] 100 [''h''] None (fresh_store [''h'']))"

definition pair_codec :: "pair_ledger codec" where
  "pair_codec = table_codec [[pair_device]]"

lemma pair_env_simps:
  "k_pending (e_codecs pair_env) = demo_pc" "k_ledger (e_codecs pair_env) = pair_codec"
  "e_now pair_env = 101" "e_crates pair_env = demo_crates"
  by (simp_all add: pair_env_def demo_env_def demo_app_codecs_def pair_codec_def)

lemma pair_redeemed:
  "node_ledger pair_env (fst (handle_pair pair_env (demo_request \<lparr>public_key = [66]\<rparr>) (Redeem ''A'')
     (demo_node pair_store))) = [pair_device]"
proof -
  let ?c = "consume_token demo_pc 101 [''h''] ''A'' pair_store"
  let ?p = "record_pairing demo_crates pair_codec 101 [''h''] \<lparr>public_key = [66]\<rparr> (fst ?c)"
  have "snd ?c = Inr True" by code_simp
  then have c: "?c = (fst ?c, Inr True)" by (metis prod.collapse)
  have "snd ?p = Inr ()" by code_simp
  then have p: "?p = (fst ?p, Inr ())" by (metis prod.collapse)
  have l: "load_ledger pair_codec [''h''] (fst ?p) = [pair_device]" by code_simp
  have s: "m_sender (demo_request i) = i" for i by (simp add: demo_request_def)
  have "n_store (fst (handle_pair pair_env (demo_request \<lparr>public_key = [66]\<rparr>) (Redeem ''A'')
      (demo_node pair_store))) = fst ?p
    \<and> n_home (fst (handle_pair pair_env (demo_request \<lparr>public_key = [66]\<rparr>) (Redeem ''A'')
      (demo_node pair_store))) = [''h'']"
    unfolding handle_pair_def pair_frame.case demo_node_simps on_store_def pair_env_simps
    by (subst (1 2) c, simp add: bindS_def on_store_def pair_env_simps s handler_defs, subst (1 2) p)
      (simp add: handler_defs)
  then show ?thesis unfolding node_ledger_def pair_env_simps using l by simp
qed

lemma pairing_needs_token_witness:
  "let n' = fst (handle_pair pair_env (demo_request \<lparr>public_key = [66]\<rparr>) (Redeem ''A'') (demo_node pair_store)) in
     node_ledger pair_env n' = [pair_device] \<and> dead demo_pc [''h''] (n_store n')"
proof -
  let ?n = "demo_node pair_store"
  let ?r = "handle_pair pair_env (demo_request \<lparr>public_key = [66]\<rparr>) (Redeem ''A'') ?n"
  have r: "?r = (fst ?r, snd ?r)" by simp
  have c: "codec_ok (k_ledger (e_codecs pair_env))" "codec_ok (k_pending (e_codecs pair_env))"
    by (simp_all add: pair_env_simps pair_codec_def demo_pc_def table_codec_ok)
  have "\<not> st_rfault pair_store (ledger_path [''h''])" by code_simp
  then have f: "\<not> st_rfault (n_store ?n) (ledger_path (n_home ?n))" by simp
  have "node_ledger pair_env ?n = []"
    unfolding node_ledger_def pair_env_simps demo_node_simps by code_simp
  with pairing_needs_token [OF r c f] have "dead demo_pc [''h''] (n_store (fst ?r))"
    unfolding pair_redeemed pair_env_simps demo_node_simps by simp
  with pair_redeemed show ?thesis unfolding Let_def by blast
qed

end
