(* ===== verification/AppStorage.thy ===== *)
theory AppStorage
  imports App
begin

text \<open>
  \<open>src/app/storage.rs\<close>: encrypted storage on a core. The serving side keeps the opaque chunks of a
  file, its manifest and its reader list under \<open>blobs/<file id>\<close> in the node's home, gates reads
  on the list and on the revocations, and answers in pages. The client side pushes batches and
  pulls pages through a request/response channel, which is an argument. The pulling loop runs on
  fuel, since a peer can keep it going.

  \<open>read_dir\<close> gives the entries in the order of the store; a \<open>HashSet\<close> is a set.
\<close>

section \<open>Revocations\<close>

definition fingerprints :: "env \<Rightarrow> string set codec" where
  "fingerprints E = k_fingerprints (e_codecs E)"

definition revocations_path :: "path \<Rightarrow> path" where
  "revocations_path home = home @ [''revocations.json'']"

definition revocations_tmp :: "path \<Rightarrow> path" where
  "revocations_tmp home = home @ [with_extension ''tmp'' ''revocations.json'']"

definition revoked_set :: "env \<Rightarrow> path \<Rightarrow> store \<Rightarrow> string set" where
  "revoked_set E home = load_doc (fingerprints E) {} (revocations_path home)"

definition node_is_revoked :: "env \<Rightarrow> path \<Rightarrow> public_identity \<Rightarrow> store \<Rightarrow> bool" where
  "node_is_revoked E home i s \<longleftrightarrow> finger E i \<in> revoked_set E home s"

definition write_revoked :: "env \<Rightarrow> path \<Rightarrow> string set \<Rightarrow> (store, io_error, unit) op" where
  "write_revoked E home = save_doc (fingerprints E) (revocations_tmp home) (revocations_path home)"

definition add_revoked :: "env \<Rightarrow> path \<Rightarrow> string \<Rightarrow> (store, io_error, unit) op" where
  "add_revoked E home fp s = write_revoked E home (insert fp (revoked_set E home s)) s"

definition revoke_identity :: "env \<Rightarrow> path \<Rightarrow> public_identity \<Rightarrow> (store, io_error, unit) op" where
  "revoke_identity E home i = add_revoked E home (finger E i)"

section \<open>The reader list of a file\<close>

definition blob_dir :: "path \<Rightarrow> string \<Rightarrow> path" where
  "blob_dir home fid = path_join (home @ [''blobs'']) fid"

definition acl_path :: "path \<Rightarrow> string \<Rightarrow> path" where
  "acl_path home fid = blob_dir home fid @ [''acl.json'']"

definition read_acl :: "env \<Rightarrow> path \<Rightarrow> string \<Rightarrow> store \<Rightarrow> io_error + string set" where
  "read_acl E home fid s =
     (if \<not> fs_exists s (acl_path home fid) then Inr {}
      else bindR (fs_read (acl_path home fid) s) (\<lambda>b. ok_or codec_error (dec (fingerprints E) b)))"

definition write_acl :: "env \<Rightarrow> path \<Rightarrow> string \<Rightarrow> string set \<Rightarrow> (store, io_error, unit) op" where
  "write_acl E home fid A =
     bindS (fs_mkdirs (blob_dir home fid)) (\<lambda>_.
     bindS (lift_result (encode_doc (fingerprints E) A)) (\<lambda>b. fs_write (acl_path home fid) b))"

section \<open>Storing\<close>

definition blob_id :: "env \<Rightarrow> bytes \<Rightarrow> string" where
  "blob_id E b = hash_hex (e_crates E) (blake3 (e_crates E) b)"

definition put_blob :: "env \<Rightarrow> path \<Rightarrow> encrypted_chunk \<Rightarrow> (store, io_error, unit) op" where
  "put_blob E root c =
     bindS (lift_result (ok_or codec_error (enc (k_encrypted (e_codecs E)) c))) (\<lambda>b.
       write_then_rename (path_join root (blob_id E b @ ''.tmp'')) (path_join root (blob_id E b)) b)"

fun put_blobs :: "env \<Rightarrow> path \<Rightarrow> encrypted_chunk list \<Rightarrow> (store, io_error, unit) op" where
  "put_blobs E root [] = ret ()"
| "put_blobs E root (c # cs) = bindS (put_blob E root c) (\<lambda>_. put_blobs E root cs)"

definition store_chunks ::
    "env \<Rightarrow> path \<Rightarrow> public_identity \<Rightarrow> string \<Rightarrow> file_manifest \<Rightarrow> encrypted_chunk list \<Rightarrow>
     (store, io_error, unit) op" where
  "store_chunks E home i fid m cs s =
     (if \<not> is_ok (verify_signature (e_crates E) (k_manifest (e_codecs E)) m)
      then (s, Inl (IoError InvalidData ''manifest signature is invalid''))
      else if node_is_revoked E home i s
      then (s, Inl (IoError PermissionDenied ''requester is revoked''))
      else (let root = blob_dir home fid in
        bindS (fs_mkdirs root) (\<lambda>_.
        bindS (put_blobs E root cs) (\<lambda>_.
        bindS (lift_result (encode_doc (k_manifest (e_codecs E)) m)) (\<lambda>b.
        bindS (fs_write (root @ [''manifest.json'']) b) (\<lambda>_.
        bindS (\<lambda>t. (t, read_acl E home fid t)) (\<lambda>A.
        write_acl E home fid (insert (finger E i) A)))))) s))"

section \<open>Fetching\<close>

definition MAX_BATCH_PAYLOAD :: nat where "MAX_BATCH_PAYLOAD = 900 * 1024"

definition ends_with :: "string \<Rightarrow> string \<Rightarrow> bool" where
  "ends_with suf s \<longleftrightarrow> length suf \<le> length s \<and> drop (length s - length suf) s = suf"

definition not_a_blob :: "string \<Rightarrow> bool" where
  "not_a_blob name \<longleftrightarrow> name = ''manifest.json'' \<or> ends_with ''.tmp'' name \<or> name = ''acl.json''"

fun read_blobs :: "env \<Rightarrow> path \<Rightarrow> string list \<Rightarrow> store \<Rightarrow> io_error + encrypted_chunk list" where
  "read_blobs E root [] s = Inr []"
| "read_blobs E root (name # names) s =
     (if not_a_blob name then read_blobs E root names s
      else bindR (fs_read (root @ [name]) s) (\<lambda>b. bindR (read_blobs E root names s) (\<lambda>cs.
        Inr (case dec (k_encrypted (e_codecs E)) b of None \<Rightarrow> cs | Some c \<Rightarrow> c # cs))))"

text \<open>The page: \<open>b\<close> is the budget that is left, \<open>first\<close> whether the page is still empty. Natural
  subtraction is \<open>saturating_sub\<close>.\<close>

fun take_page :: "encrypted_chunk codec \<Rightarrow> nat \<Rightarrow> bool \<Rightarrow> encrypted_chunk list \<Rightarrow>
    io_error + encrypted_chunk list" where
  "take_page K b first [] = Inr []"
| "take_page K b first (c # cs) = bindR (ok_or codec_error (enc K c)) (\<lambda>bs.
     if \<not> first \<and> b < length bs then Inr []
     else bindR (take_page K (b - length bs) False cs) (\<lambda>p. Inr (c # p)))"

definition stored_manifest :: "env \<Rightarrow> path \<Rightarrow> store \<Rightarrow> file_manifest option" where
  "stored_manifest E root s = (case fs_read (root @ [''manifest.json'']) s of
       Inl _ \<Rightarrow> None | Inr b \<Rightarrow> dec (k_manifest (e_codecs E)) b)"

definition fetch_chunks ::
    "env \<Rightarrow> path \<Rightarrow> public_identity \<Rightarrow> string \<Rightarrow> u32 \<Rightarrow> store \<Rightarrow>
     io_error + file_manifest option \<times> encrypted_chunk list" where
  "fetch_chunks E home i fid off s =
     (if node_is_revoked E home i s then Inl (IoError PermissionDenied ''requester is revoked'')
      else bindR (read_acl E home fid s) (\<lambda>A.
        if finger E i \<notin> A
        then Inl (IoError PermissionDenied ''not in the reader ACL for this file'')
        else (let root = blob_dir home fid in
          if \<not> is_dir s root then Inr (None, [])
          else bindR (fs_list_dir root s) (\<lambda>names.
            bindR (read_blobs E root names s) (\<lambda>held.
            bindR (take_page (k_encrypted (e_codecs E)) MAX_BATCH_PAYLOAD True
                (drop (unat off) (sort_key ec_index held)))
              (\<lambda>page. Inr (stored_manifest E root s, page)))))))"

section \<open>The handler\<close>

definition handle_storage :: "env \<Rightarrow> message \<Rightarrow> storage_frame \<Rightarrow> handler" where
  "handle_storage E req f n = (case f of
       StoreChunks fid m cs \<Rightarrow>
         (case on_store (store_chunks E (n_home n) (m_sender req) fid m cs) n of
            (n1, Inr _) \<Rightarrow> reply_then E req (AppStorage (StoreAck fid)) None n1
          | (n1, Inl e) \<Rightarrow> reply_then E req (AppStorage (StError (io_display e))) None n1)
     | FetchChunks fid off \<Rightarrow>
         (case fetch_chunks E (n_home n) (m_sender req) fid off (n_store n) of
            Inr (m, cs) \<Rightarrow> reply_then E req (AppStorage (StoredChunks fid m cs)) None n
          | Inl e \<Rightarrow> reply_then E req (AppStorage (StError (io_display e))) None n)
     | StoreAck fid \<Rightarrow> (n, Inr (Some (''storage acknowledged: '' @ fid)))
     | StoredChunks fid m cs \<Rightarrow>
         (n, Inr (Some (''core holds '' @ show_nat (length cs) @ '' encrypted chunk(s) for '' @ fid)))
     | StError msg \<Rightarrow> (n, Inr (Some (''storage error: '' @ msg))))"

section \<open>The client\<close>

text \<open>\<open>Client::call\<close> as the client code here sees it: send one frame, get the decoded reply or an
  error, the world behind the connection having moved on.\<close>

type_synonym 'w call = "app_frame \<Rightarrow> ('w, io_error, app_frame) op"

text \<open>Greedy batching: \<open>carried\<close> is the size of the batch that is being filled.\<close>

fun fill_batches :: "nat \<Rightarrow> encrypted_chunk list list \<Rightarrow> (encrypted_chunk \<times> nat) list \<Rightarrow>
    encrypted_chunk list list" where
  "fill_batches carried bs [] = bs"
| "fill_batches carried bs ((c, sz) # cs) =
     (if bs = [] \<or> carried + sz > MAX_BATCH_PAYLOAD then fill_batches sz (bs @ [[c]]) cs
      else fill_batches (carried + sz) (butlast bs @ [last bs @ [c]]) cs)"

fun push_batches :: "'w call \<Rightarrow> string \<Rightarrow> file_manifest \<Rightarrow> encrypted_chunk list list \<Rightarrow>
    ('w, io_error, unit) op" where
  "push_batches call fid m [] = ret ()"
| "push_batches call fid m (b # bs) =
     bindS (call (AppStorage (StoreChunks fid m b))) (\<lambda>r. case r of
         AppStorage (StoreAck _) \<Rightarrow> push_batches call fid m bs
       | AppStorage (StError msg) \<Rightarrow> raise (IoError Other msg)
       | _ \<Rightarrow> raise (IoError InvalidData ''unexpected store reply''))"

definition chunk_sizes :: "encrypted_chunk codec \<Rightarrow> encrypted_chunk list \<Rightarrow> io_error + nat list" where
  "chunk_sizes K cs = mapR (\<lambda>c. bindR (ok_or codec_error (enc K c)) (\<lambda>b. Inr (length b))) cs"

definition push_chunks :: "encrypted_chunk codec \<Rightarrow> 'w call \<Rightarrow> string \<Rightarrow> file_manifest \<Rightarrow>
    encrypted_chunk list \<Rightarrow> ('w, io_error, unit) op" where
  "push_chunks K call fid m cs =
     bindS (lift_result (chunk_sizes K cs)) (\<lambda>szs.
       push_batches call fid m (fill_batches 0 [] (zip cs szs)))"

text \<open>\<open>None\<close>: out of fuel. \<open>sat_add\<close> is \<open>u32::saturating_add\<close>; the page length is truncated to 32
  bits first, as the cast does.\<close>

definition sat_add :: "u32 \<Rightarrow> u32 \<Rightarrow> u32" where
  "sat_add a b = (if unat a + unat b < 2 ^ 32 then a + b else -1)"

fun pull_pages :: "nat \<Rightarrow> 'w call \<Rightarrow> string \<Rightarrow> file_manifest option \<Rightarrow> encrypted_chunk list \<Rightarrow> u32 \<Rightarrow>
    'w \<Rightarrow> ('w \<times> (io_error + file_manifest option \<times> encrypted_chunk list)) option" where
  "pull_pages 0 call fid m got off w = None"
| "pull_pages (Suc n) call fid m got off w =
     (case call (AppStorage (FetchChunks fid off)) w of
        (w1, Inl e) \<Rightarrow> Some (w1, Inl e)
      | (w1, Inr (AppStorage (StoredChunks _ m1 page))) \<Rightarrow>
          (let m' = (case m of None \<Rightarrow> m1 | Some _ \<Rightarrow> m);
               off' = sat_add off (of_nat (length page));
               got' = got @ page;
               expected = (case m' of None \<Rightarrow> 0 | Some mf \<Rightarrow> length (fm_chunks mf)) in
           if (0 < expected \<and> expected \<le> length got') \<or> page = [] then Some (w1, Inr (m', got'))
           else pull_pages n call fid m' got' off' w1)
      | (w1, Inr (AppStorage (StError msg))) \<Rightarrow> Some (w1, Inl (IoError PermissionDenied msg))
      | (w1, Inr _) \<Rightarrow> Some (w1, Inl (IoError InvalidData ''unexpected fetch reply'')))"

definition pull_chunks :: "nat \<Rightarrow> 'w call \<Rightarrow> string \<Rightarrow> 'w \<Rightarrow>
    ('w \<times> (io_error + file_manifest \<times> encrypted_chunk list)) option" where
  "pull_chunks fuel call fid w =
     map_option (map_prod (\<lambda>w. w) (\<lambda>r. bindR r (\<lambda>(m, got).
       case m of None \<Rightarrow> Inl (IoError NotFound (fid @ '' not stored at this core''))
       | Some mf \<Rightarrow>
           if length got \<noteq> length (fm_chunks mf)
           then Inl (IoError InvalidData (''core returned '' @ show_nat (length got) @ '' of '' @
             show_nat (length (fm_chunks mf)) @ '' chunks for '' @ fid))
           else Inr (mf, sort_key ec_index got))))
       (pull_pages fuel call fid None [] 0 w)"

text \<open>A core at the other end of the call: it handles the frame as coming from \<open>i\<close>, and the caller
  gets what it replies.\<close>

definition ask_core :: "env \<Rightarrow> public_identity \<Rightarrow> node call" where
  "ask_core E i f n =
     (case f of
        AppStorage g \<Rightarrow>
          (let n1 = fst (handle_storage E \<lparr>m_id = [], m_sender = i, m_recipient = node_public E n,
                 m_payload = []\<rparr> g (n\<lparr>n_outbox := []\<rparr>)) in
           (n1, case n_outbox n1 of
              [] \<Rightarrow> Inl (IoError BrokenPipe ''peer closed the response channel'')
            | r # _ \<Rightarrow> Inr (frame_decode (k_app (e_codecs E)) (m_payload r))))
      | _ \<Rightarrow> (n, Inl (IoError BrokenPipe ''peer closed the response channel'')))"

section \<open>The revocations are a persisted set\<close>

lemma revocations_tmp: "revocations_tmp home = home @ [''revocations.tmp'']"
  by (simp add: revocations_tmp_def) (code_simp)

interpretation revocations: persisted_set "revoked_set E home" "write_revoked E home"
    "codec_ok_at (fingerprints E)" "doc_readable (revocations_path home)"
    "doc_healthy (revocations_tmp home) (revocations_path home)" "doc_storable (fingerprints E)"
    "add_revoked E home"
  for E :: env and home :: path
proof (rule persisted_set.intro)
  show "persisted (revoked_set E home) (write_revoked E home) (codec_ok_at (fingerprints E))
      (doc_readable (revocations_path home)) (doc_healthy (revocations_tmp home) (revocations_path home))
      (doc_storable (fingerprints E))"
    unfolding revoked_set_def write_revoked_def
    by (rule doc_persisted) (simp add: revocations_tmp revocations_path_def)
  show "persisted_set_axioms (revoked_set E home) (write_revoked E home) (add_revoked E home)"
    by unfold_locales (simp add: add_revoked_def)
qed

section \<open>Names\<close>

text \<open>What the code relies on: \<open>to_hex\<close> gives hexadecimal digits.\<close>

definition is_hex_digit :: "char \<Rightarrow> bool" where
  "is_hex_digit c \<longleftrightarrow> (let n = (of_char c :: nat) in (48 \<le> n \<and> n \<le> 57) \<or> (97 \<le> n \<and> n \<le> 102))"

definition hex_names :: "crates \<Rightarrow> bool" where
  "hex_names C \<longleftrightarrow> (\<forall>h. hash_hex C h \<noteq> [] \<and> list_all is_hex_digit (hash_hex C h))"

lemma hex_name_chars: "hex_names C \<Longrightarrow> c \<in> set (hash_hex C h) \<Longrightarrow> c \<noteq> CHR ''.'' \<and> c \<noteq> CHR ''/''"
proof -
  assume "hex_names C" "c \<in> set (hash_hex C h)"
  then have "is_hex_digit c" by (auto simp: hex_names_def list_all_iff)
  then show ?thesis by (auto simp: is_hex_digit_def)
qed

lemma blob_id_plain:
  assumes "hex_names (e_crates E)"
  shows "path_join root (blob_id E b) = root @ [blob_id E b]"
    "path_join root (blob_id E b @ ''.tmp'') = root @ [blob_id E b @ ''.tmp'']"
    "CHR ''.'' \<notin> set (blob_id E b)"
proof -
  have c: "c \<in> set (blob_id E b) \<Longrightarrow> c \<noteq> CHR ''.'' \<and> c \<noteq> CHR ''/''" for c
    using hex_name_chars [OF assms] by (simp add: blob_id_def)
  have ne: "blob_id E b \<noteq> []" using assms by (simp add: blob_id_def hex_names_def)
  then obtain d ds where d: "blob_id E b = d # ds" by (cases "blob_id E b") auto
  then have "d \<noteq> CHR ''.''" using c by simp
  moreover have "CHR ''/'' \<notin> set (blob_id E b)" using c by blast
  ultimately show "path_join root (blob_id E b) = root @ [blob_id E b]"
    "path_join root (blob_id E b @ ''.tmp'') = root @ [blob_id E b @ ''.tmp'']"
    using d by (auto intro!: path_join_plain simp: plain_name_def)
  show "CHR ''.'' \<notin> set (blob_id E b)" using c by auto
qed

lemma ends_with_append [simp]: "ends_with suf (s @ suf)"
  by (simp add: ends_with_def)

lemma ends_with_mem: "ends_with suf s \<Longrightarrow> c \<in> set suf \<Longrightarrow> c \<in> set s"
  unfolding ends_with_def by (metis in_set_dropD)

lemma blob_id_names:
  assumes "hex_names (e_crates E)"
  shows "\<not> not_a_blob (blob_id E b)" "not_a_blob (blob_id E b @ ''.tmp'')"
    "blob_id E b \<noteq> ''acl.json''" "blob_id E b \<noteq> ''manifest.json''"
    "blob_id E b @ ''.tmp'' \<noteq> ''acl.json''" "blob_id E b @ ''.tmp'' \<noteq> ''manifest.json''"
proof -
  note dot = blob_id_plain(3) [OF assms, of b]
  show ne: "blob_id E b \<noteq> ''acl.json''" "blob_id E b \<noteq> ''manifest.json''" using dot by auto
  then show "\<not> not_a_blob (blob_id E b)" using dot ends_with_mem [of "''.tmp''" "blob_id E b" "CHR ''.''"]
    by (auto simp: not_a_blob_def)
  show "not_a_blob (blob_id E b @ ''.tmp'')" by (simp add: not_a_blob_def)
  have t: "last (blob_id E b @ ''.tmp'') = CHR ''p''" by simp
  show "blob_id E b @ ''.tmp'' \<noteq> ''acl.json''"
  proof
    assume "blob_id E b @ ''.tmp'' = ''acl.json''"
    with t have "last ''acl.json'' = CHR ''p''" by metis
    then show False by simp
  qed
  show "blob_id E b @ ''.tmp'' \<noteq> ''manifest.json''"
  proof
    assume "blob_id E b @ ''.tmp'' = ''manifest.json''"
    with t have "last ''manifest.json'' = CHR ''p''" by metis
    then show False by simp
  qed
qed

lemma blob_dir_plain: "plain_name fid \<Longrightarrow> blob_dir home fid = home @ [''blobs'', fid]"
  by (simp add: blob_dir_def path_join_plain)

section \<open>What storing changes\<close>

text \<open>The files that storing chunks can touch, and what they then hold.\<close>

lemma put_blob_files:
  assumes "put_blob E root c s = (s', r)" and "hex_names (e_crates E)"
  shows "file_at s' q = file_at s q
    \<or> (\<exists>b. enc (k_encrypted (e_codecs E)) c = Some b \<and>
        (q = root @ [blob_id E b @ ''.tmp''] \<or> q = root @ [blob_id E b] \<and> file_at s' q = Some b))"
proof (cases "enc (k_encrypted (e_codecs E)) c")
  case None
  then show ?thesis using assms(1) by (simp add: put_blob_def bindS_def lift_result_def ok_or_def)
next
  case (Some b)
  let ?t = "root @ [blob_id E b @ ''.tmp'']" and ?p = "root @ [blob_id E b]"
  have w: "write_then_rename ?t ?p b s = (s', r)"
    using assms(1) Some by (simp add: put_blob_def bindS_def lift_result_def ok_or_def blob_id_plain [OF assms(2)])
  have ne: "?t \<noteq> ?p" by simp
  show ?thesis
  proof (cases r)
    case (Inl e)
    with w have "q \<noteq> ?t \<Longrightarrow> file_at s' q = file_at s q" by (auto intro: write_then_rename_err)
    with Some show ?thesis by blast
  next
    case (Inr u)
    with w have "file_at s' q = (if q = ?p then Some b else if q = ?t then None else file_at s q)"
      using write_then_rename_ok ne by blast
    with Some show ?thesis by auto
  qed
qed

lemma put_blob_env:
  assumes "put_blob E root c s = (s', r)"
  shows "is_dir s' = is_dir s \<and> st_wfault s' = st_wfault s \<and> st_rfault s' = st_rfault s \<and> st_dirs s' = st_dirs s"
  using assms write_then_rename_env
  by (auto simp: put_blob_def bindS_def lift_result_def ok_or_def split: option.splits)

lemma put_blobs_files:
  assumes "put_blobs E root cs s = (s', r)" and "hex_names (e_crates E)"
  shows "file_at s' q = file_at s q
    \<or> (\<exists>c \<in> set cs. \<exists>b. enc (k_encrypted (e_codecs E)) c = Some b \<and>
        (q = root @ [blob_id E b @ ''.tmp''] \<or> q = root @ [blob_id E b] \<and> file_at s' q = Some b))"
  using assms(1)
proof (induction cs arbitrary: s)
  case Nil
  then show ?case by (simp add: ret_def)
next
  case (Cons c cs)
  from Cons.prems have "bindS (put_blob E root c) (\<lambda>_. put_blobs E root cs) s = (s', r)" by simp
  then show ?case
  proof (cases rule: bindS_cases)
    case (1 e)
    from put_blob_files [OF 1(1) assms(2), of q] show ?thesis by auto
  next
    case (2 u t)
    from Cons.IH [OF 2(2)] consider "file_at s' q = file_at t q"
      | "\<exists>c \<in> set cs. \<exists>b. enc (k_encrypted (e_codecs E)) c = Some b \<and>
        (q = root @ [blob_id E b @ ''.tmp''] \<or> q = root @ [blob_id E b] \<and> file_at s' q = Some b)" by blast
    then show ?thesis
    proof cases
      case 1
      with put_blob_files [OF 2(1) assms(2), of q] show ?thesis by auto
    qed auto
  qed
qed

lemma put_blobs_env:
  assumes "put_blobs E root cs s = (s', r)"
  shows "is_dir s' = is_dir s \<and> st_wfault s' = st_wfault s \<and> st_rfault s' = st_rfault s \<and> st_dirs s' = st_dirs s"
  using assms
proof (induction cs arbitrary: s)
  case (Cons c cs)
  from Cons.prems have "bindS (put_blob E root c) (\<lambda>_. put_blobs E root cs) s = (s', r)" by simp
  then show ?case
    by (cases rule: bindS_cases) (use put_blob_env Cons.IH in \<open>metis+\<close>)
qed (simp add: ret_def)

lemma fs_write_torn:
  assumes "fs_write p b s = (s', r)"
  shows "file_at s' q = file_at s q \<or> q = p \<and> (\<exists>k. file_at s' q = Some (take k b))"
proof (cases "q = p")
  case True
  then show ?thesis
    using assms by (auto simp: fs_write_def store_simps split: if_splits option.splits fault.splits
        intro: exI [of _ "length b"])
next
  case False
  then show ?thesis using fs_write_frame [OF assms] by simp
qed

lemma write_acl_files:
  assumes "write_acl E home fid A s = (s', r)"
  shows "file_at s' q = file_at s q
    \<or> q = acl_path home fid \<and> (\<exists>b k. enc (fingerprints E) A = Some b \<and> file_at s' q = Some (take k b))"
  using assms unfolding write_acl_def
proof (cases rule: bindS_cases)
  case (1 e)
  then show ?thesis by (simp add: fs_mkdirs_files)
next
  case (2 u t)
  note t = fs_mkdirs_files [OF 2(1)]
  from 2(2) show ?thesis
  proof (cases rule: bindS_cases)
    case (1 e)
    then show ?thesis using t by (auto simp: lift_result_def)
  next
    case (2 b t')
    then have "fs_write (acl_path home fid) b t = (s', r)" "enc (fingerprints E) A = Some b"
      by (auto simp: lift_result_def encode_doc_def bind_simps)
    then show ?thesis using fs_write_torn [of "acl_path home fid" b t s' r q] by (auto simp: t)
  qed
qed

lemma read_acl_value:
  assumes "read_acl E home fid s = Inr A"
  shows "A = {} \<and> file_at s (acl_path home fid) = None
    \<or> (\<exists>b. file_at s (acl_path home fid) = Some b \<and> dec (fingerprints E) b = Some A)"
  using assms by (auto simp: read_acl_def fs_exists_def fs_read_def bind_simps split: if_splits)

text \<open>What a store request can change: it touches blobs of its own chunks, the manifest, and the
  reader list, which becomes a (perhaps torn) copy of the old list with the requester added; and
  nothing at all unless the manifest's signature verifies.\<close>

lemma store_chunks_files:
  assumes "store_chunks E home i fid m cs s = (s', r)" and hex: "hex_names (e_crates E)"
    and fid: "plain_name fid"
  shows "file_at s' q = file_at s q
    \<or> is_ok (verify_signature (e_crates E) (k_manifest (e_codecs E)) m) \<and>
      ((\<exists>c \<in> set cs. \<exists>b. enc (k_encrypted (e_codecs E)) c = Some b \<and>
          (q = blob_dir home fid @ [blob_id E b @ ''.tmp'']
           \<or> q = blob_dir home fid @ [blob_id E b] \<and> file_at s' q = Some b))
       \<or> q = blob_dir home fid @ [''manifest.json'']
       \<or> q = acl_path home fid \<and> (\<exists>A b k.
          (A = {} \<and> file_at s q = None \<or> (\<exists>b0. file_at s q = Some b0 \<and> dec (fingerprints E) b0 = Some A)) \<and>
          enc (fingerprints E) (insert (finger E i) A) = Some b \<and> file_at s' q = Some (take k b)))"
    (is "_ \<or> ?v \<and> (?blob q s' \<or> ?man q \<or> ?acl q s')")
proof (cases "?v \<and> \<not> node_is_revoked E home i s")
  case False
  then show ?thesis using assms(1) by (auto simp: store_chunks_def split: if_splits)
next
  case True
  let ?root = "blob_dir home fid" and ?acl = "acl_path home fid"
  have apart: "\<not> ?blob ?acl t" "?acl \<noteq> ?root @ [''manifest.json'']" for t
    using blob_id_names(3,5) [OF hex] by (auto simp: acl_path_def dest: sym)
  from True assms(1) have "bindS (fs_mkdirs ?root) (\<lambda>_. bindS (put_blobs E ?root cs) (\<lambda>_.
        bindS (lift_result (encode_doc (k_manifest (e_codecs E)) m)) (\<lambda>b.
        bindS (fs_write (?root @ [''manifest.json'']) b) (\<lambda>_.
        bindS (\<lambda>t. (t, read_acl E home fid t)) (\<lambda>A.
        write_acl E home fid (insert (finger E i) A)))))) s = (s', r)"
    by (simp add: store_chunks_def Let_def)
  then show ?thesis
  proof (cases rule: bindS_cases)
    case (1 e)
    then show ?thesis by (simp add: fs_mkdirs_files)
  next
    case (2 u s1)
    have f1: "file_at s1 = file_at s" by (rule fs_mkdirs_files [OF 2(1)])
    from 2(2) show ?thesis
    proof (cases rule: bindS_cases)
      case (1 e)
      from put_blobs_files [OF 1(1) hex, of q] True show ?thesis by (auto simp: f1)
    next
      case (2 u s2)
      have f2: "file_at s2 q = file_at s q \<or> ?blob q s2" for q
        using put_blobs_files [OF 2(1) hex, of q] by (auto simp: f1)
      from 2(2) show ?thesis
      proof (cases rule: bindS_cases)
        case (1 e)
        then show ?thesis using f2 [of q] True by (auto simp: lift_result_def)
      next
        case (2 b s2')
        then have "s2' = s2" by (simp add: lift_result_def)
        with 2(2) have "bindS (fs_write (?root @ [''manifest.json'']) b) (\<lambda>_.
            bindS (\<lambda>t. (t, read_acl E home fid t)) (\<lambda>A.
            write_acl E home fid (insert (finger E i) A))) s2 = (s', r)" by simp
        then show ?thesis
        proof (cases rule: bindS_cases)
          case (1 e)
          show ?thesis
          proof (cases "?man q")
            case False
            then show ?thesis using fs_write_frame [OF 1(1)] f2 [of q] True by auto
          qed (use True in blast)
        next
          case (2 u s3)
          have f3: "file_at s3 q = file_at s q \<or> ?blob q s3 \<or> ?man q" for q
          proof (cases "?man q")
            case False
            with fs_write_frame [OF 2(1)] have eq: "file_at s3 q = file_at s2 q" by blast
            from f2 [of q] show ?thesis unfolding eq by blast
          qed simp
          from 2(2) show ?thesis
          proof (cases rule: bindS_cases)
            case (1 e)
            then have "s' = s3" by simp
            with f3 [of q] True show ?thesis by blast
          next
            case (2 A s4)
            then have w: "write_acl E home fid (insert (finger E i) A) s3 = (s', r)"
              and rd: "read_acl E home fid s3 = Inr A" by auto
            have old: "file_at s3 ?acl = file_at s ?acl" using f3 [of ?acl] apart by blast
            from write_acl_files [OF w, of q] show ?thesis
            proof
              assume eq: "file_at s' q = file_at s3 q"
              from f3 [of q] True show ?thesis unfolding eq by blast
            next
              assume "q = ?acl \<and> (\<exists>b k. enc (fingerprints E) (insert (finger E i) A) = Some b \<and>
                file_at s' q = Some (take k b))"
              with read_acl_value [OF rd] True show ?thesis unfolding old by blast
            qed
          qed
        qed
      qed
    qed
  qed
qed

text \<open>Any relation that the single steps of a store request keep, the request keeps.\<close>

lemma store_chunks_preserves:
  assumes "reflp R" and "transp R" and "\<And>p. preserves R (fs_mkdirs p)"
    and "\<And>c. preserves R (put_blob E (blob_dir home fid) c)"
    and "\<And>x b. preserves R (fs_write (blob_dir home fid @ [x]) b)"
  shows "preserves R (store_chunks E home i fid m cs)"
proof -
  have blobs: "preserves R (put_blobs E (blob_dir home fid) cs)"
    by (induction cs) (auto intro!: preserves_bindS preserves_pure assms)
  have "preserves R (bindS (fs_mkdirs (blob_dir home fid)) (\<lambda>_.
      bindS (put_blobs E (blob_dir home fid) cs) (\<lambda>_.
      bindS (lift_result (encode_doc (k_manifest (e_codecs E)) m)) (\<lambda>b.
      bindS (fs_write (blob_dir home fid @ [''manifest.json'']) b) (\<lambda>_.
      bindS (\<lambda>t. (t, read_acl E home fid t)) (\<lambda>A.
      write_acl E home fid (insert (finger E i) A)))))))"
    unfolding write_acl_def acl_path_def by (intro preserves_bindS preserves_pure assms blobs)
  then show ?thesis using assms(1)
    unfolding preserves_def by (auto simp: store_chunks_def Let_def reflp_def split: if_splits)
qed

lemma same_faults_store: "preserves same_faults (store_chunks E home i fid m cs)"
  by (rule store_chunks_preserves) (auto intro!: same_faults_rules same_faults_preorder simp: put_blob_def)

lemma same_file_store:
  assumes "hex_names (e_crates E)" and "\<And>x. q \<noteq> blob_dir home fid @ [x]"
  shows "preserves (same_file q) (store_chunks E home i fid m cs)"
  by (rule store_chunks_preserves)
    (auto intro!: same_file_rules same_file_preorder simp: put_blob_def assms blob_id_plain [OF assms(1)])

lemma same_faults_revoke: "preserves same_faults (revoke_identity E home i)"
  by (rule preservesI) (auto simp: revoke_identity_def add_revoked_def write_revoked_def
      dest: preservesD [OF same_faults_doc])

section \<open>Histories of a core's blob store\<close>

datatype storage_op =
    SStore public_identity string file_manifest "encrypted_chunk list"
  | SRevoke public_identity
  | SWeather "path \<Rightarrow> fault option" "path \<Rightarrow> bool"

fun storage_step :: "env \<Rightarrow> path \<Rightarrow> storage_op \<Rightarrow> store \<Rightarrow> store" where
  "storage_step E home (SStore i fid m cs) s = fst (store_chunks E home i fid m cs s)"
| "storage_step E home (SRevoke i) s = fst (revoke_identity E home i s)"
| "storage_step E home (SWeather wr rd) s = s\<lparr>st_wfault := wr, st_rfault := rd\<rparr>"

definition storage_run :: "env \<Rightarrow> path \<Rightarrow> storage_op list \<Rightarrow> store \<Rightarrow> store" where
  "storage_run E home ops s = fold (storage_step E home) ops s"

fun plain_op :: "storage_op \<Rightarrow> bool" where
  "plain_op (SStore i fid m cs) = plain_name fid"
| "plain_op _ = True"

text \<open>A store request whose manifest is signed by whom it names.\<close>

definition accepted :: "env \<Rightarrow> storage_op set \<Rightarrow> public_identity \<Rightarrow> string \<Rightarrow> encrypted_chunk list \<Rightarrow> bool" where
  "accepted E ops i fid cs \<longleftrightarrow> (\<exists>m. SStore i fid m cs \<in> ops \<and>
     is_ok (verify_signature (e_crates E) (k_manifest (e_codecs E)) m))"

lemma accepted_mono: "accepted E ops i fid cs \<Longrightarrow> ops \<subseteq> ops' \<Longrightarrow> accepted E ops' i fid cs"
  by (auto simp: accepted_def)

text \<open>What a JSON array offers beyond decoding what was encoded: a proper prefix does not decode.\<close>

definition codec_strict :: "'a codec \<Rightarrow> bool" where
  "codec_strict c \<longleftrightarrow> (\<forall>v b k. enc c v = Some b \<longrightarrow> k < length b \<longrightarrow> dec c (take k b) = None)"

lemma torn_value:
  assumes "codec_ok c" and "codec_strict c" and "enc c v = Some b" and "dec c (take k b) = Some w"
  shows "w = v"
proof (cases "k < length b")
  case True
  then show ?thesis using assms(2-4) by (simp add: codec_strict_def)
next
  case False
  then show ?thesis using codec_okD [OF assms(1,3)] assms(4) by simp
qed

definition readers_inv :: "env \<Rightarrow> path \<Rightarrow> storage_op set \<Rightarrow> string \<Rightarrow> store \<Rightarrow> bool" where
  "readers_inv E home ops fid s \<longleftrightarrow> (\<forall>b A x. file_at s (acl_path home fid) = Some b \<longrightarrow>
     dec (fingerprints E) b = Some A \<longrightarrow> x \<in> A \<longrightarrow> (\<exists>i cs. accepted E ops i fid cs \<and> finger E i = x))"

definition blobs_inv :: "env \<Rightarrow> path \<Rightarrow> storage_op set \<Rightarrow> string \<Rightarrow> store \<Rightarrow> bool" where
  "blobs_inv E home ops fid s \<longleftrightarrow> (\<forall>name b. file_at s (blob_dir home fid @ [name]) = Some b \<longrightarrow>
     \<not> not_a_blob name \<longrightarrow> (\<exists>i cs c. accepted E ops i fid cs \<and> c \<in> set cs \<and>
       enc (k_encrypted (e_codecs E)) c = Some b))"

lemma inv_unchanged:
  assumes "\<And>name. file_at s' (blob_dir home fid @ [name]) = file_at s (blob_dir home fid @ [name])"
    and "ops \<subseteq> ops'"
  shows "readers_inv E home ops fid s \<Longrightarrow> readers_inv E home ops' fid s'"
    "blobs_inv E home ops fid s \<Longrightarrow> blobs_inv E home ops' fid s'"
  unfolding readers_inv_def blobs_inv_def acl_path_def assms(1)
  by (blast intro: accepted_mono [OF _ assms(2)])+

lemma readers_inv_store:
  assumes "readers_inv E home ops fid s" and "store_chunks E home i fid m cs s = (s', r)"
    and "hex_names (e_crates E)" and "plain_name fid"
    and "codec_ok (fingerprints E)" and "codec_strict (fingerprints E)"
  shows "readers_inv E home (insert (SStore i fid m cs) ops) fid s'"
  unfolding readers_inv_def
proof (intro allI impI)
  fix b A x
  assume b: "file_at s' (acl_path home fid) = Some b" "dec (fingerprints E) b = Some A" "x \<in> A"
  let ?ops = "insert (SStore i fid m cs) ops" and ?q = "acl_path home fid"
  note inv = assms(1) [unfolded readers_inv_def, rule_format]
  have up: "accepted E ops j fid ds \<Longrightarrow> accepted E ?ops j fid ds" for j ds
    by (erule accepted_mono) blast
  have ne: "''acl.json'' \<noteq> blob_id E b'" "''acl.json'' \<noteq> blob_id E b' @ ''.tmp''" for b'
    using blob_id_names(3,5) [OF assms(3), of b'] by metis+
  from store_chunks_files [OF assms(2-4), of ?q, unfolded acl_path_def append1_eq_conv]
  consider "file_at s' ?q = file_at s ?q"
    | A0 b' k where "is_ok (verify_signature (e_crates E) (k_manifest (e_codecs E)) m)"
      "A0 = {} \<or> (\<exists>b0. file_at s ?q = Some b0 \<and> dec (fingerprints E) b0 = Some A0)"
      "enc (fingerprints E) (insert (finger E i) A0) = Some b'" "file_at s' ?q = Some (take k b')"
    unfolding acl_path_def by (simp add: ne) blast
  then show "\<exists>i' cs'. accepted E ?ops i' fid cs' \<and> finger E i' = x"
  proof cases
    case 1
    then show ?thesis using inv b up by metis
  next
    case 2
    then have "A = insert (finger E i) A0" using b(1,2) torn_value [OF assms(5,6)] by auto
    with b(3) consider "x = finger E i" | "x \<in> A0" by blast
    then show ?thesis
    proof cases
      case 1
      with 2(1) show ?thesis by (auto simp: accepted_def)
    next
      case x: 2
      with 2(2) obtain b0 where "file_at s ?q = Some b0" "dec (fingerprints E) b0 = Some A0" by auto
      with inv x up show ?thesis by metis
    qed
  qed
qed

lemma blobs_inv_store:
  assumes "blobs_inv E home ops fid s" and "store_chunks E home i fid m cs s = (s', r)"
    and "hex_names (e_crates E)" and "plain_name fid"
  shows "blobs_inv E home (insert (SStore i fid m cs) ops) fid s'"
  unfolding blobs_inv_def
proof (intro allI impI)
  fix name b
  assume b: "file_at s' (blob_dir home fid @ [name]) = Some b" "\<not> not_a_blob name"
  let ?ops = "insert (SStore i fid m cs) ops" and ?q = "blob_dir home fid @ [name]"
  have "name \<noteq> blob_id E b' @ ''.tmp''" for b' using b(2) by (auto simp: not_a_blob_def)
  with b(2) store_chunks_files [OF assms(2-4), of ?q]
  consider "file_at s' ?q = file_at s ?q"
    | c where "is_ok (verify_signature (e_crates E) (k_manifest (e_codecs E)) m)" "c \<in> set cs"
      "enc (k_encrypted (e_codecs E)) c = file_at s' ?q"
    by (auto simp: acl_path_def not_a_blob_def)
  then show "\<exists>i' cs' c. accepted E ?ops i' fid cs' \<and> c \<in> set cs' \<and> enc (k_encrypted (e_codecs E)) c = Some b"
  proof cases
    case 1
    then obtain i' cs' c where "accepted E ops i' fid cs'" "c \<in> set cs'"
        "enc (k_encrypted (e_codecs E)) c = Some b"
      using assms(1) b unfolding blobs_inv_def by metis
    moreover from this(1) have "accepted E ?ops i' fid cs'" by (rule accepted_mono) blast
    ultimately show ?thesis by blast
  next
    case 2
    then have "accepted E ?ops i fid cs" by (auto simp: accepted_def)
    with 2 b(1) show ?thesis by auto
  qed
qed

definition storage_inv :: "env \<Rightarrow> path \<Rightarrow> storage_op set \<Rightarrow> store \<Rightarrow> bool" where
  "storage_inv E home ops s \<longleftrightarrow>
     (\<forall>fid. plain_name fid \<longrightarrow> readers_inv E home ops fid s \<and> blobs_inv E home ops fid s)"

lemma storage_step_other:
  assumes "hex_names (e_crates E)" and "plain_op a" and "plain_name fid"
    and "\<And>i m cs. a \<noteq> SStore i fid m cs"
  shows "file_at (storage_step E home a s) (blob_dir home fid @ [name]) = file_at s (blob_dir home fid @ [name])"
proof (cases a)
  case (SStore i fid' m cs)
  then have f: "plain_name fid'" "fid' \<noteq> fid" using assms(2,4) by auto
  obtain s' r where r: "store_chunks E home i fid' m cs s = (s', r)" by (cases "store_chunks E home i fid' m cs s")
  from store_chunks_files [OF r assms(1) f(1), of "blob_dir home fid @ [name]"] f(2)
  have "file_at s' (blob_dir home fid @ [name]) = file_at s (blob_dir home fid @ [name])"
    by (simp add: acl_path_def blob_dir_plain [OF f(1)] blob_dir_plain [OF assms(3)])
  then show ?thesis using SStore r by simp
next
  case (SRevoke i)
  obtain s' r where r: "save_doc (fingerprints E) (revocations_tmp home) (revocations_path home)
      (insert (finger E i) (revoked_set E home s)) s = (s', r)"
    by (cases "save_doc (fingerprints E) (revocations_tmp home) (revocations_path home)
      (insert (finger E i) (revoked_set E home s)) s")
  have "file_at s' (blob_dir home fid @ [name]) = file_at s (blob_dir home fid @ [name])"
    by (rule save_doc_frame [OF r])
      (simp_all add: blob_dir_plain [OF assms(3)] revocations_tmp revocations_path_def)
  then show ?thesis using SRevoke r by (simp add: revoke_identity_def add_revoked_def write_revoked_def)
qed (simp add: file_at_def)

lemma storage_step_inv:
  assumes "storage_inv E home ops s" and "hex_names (e_crates E)" and "plain_op a"
    and "codec_ok (fingerprints E)" and "codec_strict (fingerprints E)"
  shows "storage_inv E home (insert a ops) (storage_step E home a s)"
  unfolding storage_inv_def
proof (intro allI impI)
  fix fid assume fid: "plain_name fid"
  with assms(1) have inv: "readers_inv E home ops fid s" "blobs_inv E home ops fid s"
    by (simp_all add: storage_inv_def)
  show "readers_inv E home (insert a ops) fid (storage_step E home a s)
    \<and> blobs_inv E home (insert a ops) fid (storage_step E home a s)"
  proof (cases "\<exists>i m cs. a = SStore i fid m cs")
    case True
    then obtain i m cs where a: "a = SStore i fid m cs" by blast
    obtain s' r where r: "store_chunks E home i fid m cs s = (s', r)" by (cases "store_chunks E home i fid m cs s")
    show ?thesis
      using readers_inv_store [OF inv(1) r assms(2) fid assms(4,5)] blobs_inv_store [OF inv(2) r assms(2) fid]
      by (simp add: a r)
  next
    case False
    then have "file_at (storage_step E home a s) (blob_dir home fid @ [name])
        = file_at s (blob_dir home fid @ [name])" for name
      using storage_step_other [OF assms(2,3) fid] by blast
    from inv_unchanged [OF this subset_insertI] inv show ?thesis by blast
  qed
qed

lemma storage_run_inv:
  assumes "list_all plain_op ops" and "hex_names (e_crates E)"
    and "codec_ok (fingerprints E)" and "codec_strict (fingerprints E)"
  shows "storage_inv E home O1 s \<Longrightarrow> storage_inv E home (O1 \<union> set ops) (storage_run E home ops s)"
  using assms(1)
proof (induction ops arbitrary: s O1)
  case Nil
  then show ?case by (simp add: storage_run_def)
next
  case (Cons a as)
  from storage_step_inv [OF Cons.prems(1) assms(2) _ assms(3,4), of a] Cons.prems(2)
  have "storage_inv E home (insert a O1) (storage_step E home a s)" by simp
  from Cons.IH [OF this] Cons.prems(2) show ?case by (simp add: storage_run_def)
qed

section \<open>What a fetch serves\<close>

lemma read_blobs_from:
  "read_blobs E root names s = Inr cs \<Longrightarrow> c \<in> set cs \<Longrightarrow>
   \<exists>name b. \<not> not_a_blob name \<and> file_at s (root @ [name]) = Some b \<and>
     dec (k_encrypted (e_codecs E)) b = Some c"
proof (induction names arbitrary: cs)
  case Nil
  then show ?case by simp
next
  case (Cons name names)
  show ?case
  proof (cases "not_a_blob name")
    case True
    then show ?thesis using Cons by simp
  next
    case False
    with Cons.prems(1) obtain b ds where b: "file_at s (root @ [name]) = Some b"
      "read_blobs E root names s = Inr ds"
      "cs = (case dec (k_encrypted (e_codecs E)) b of None \<Rightarrow> ds | Some c \<Rightarrow> c # ds)"
      by (auto simp: bind_simps fs_read_def split: if_splits)
    with Cons.prems(2) consider "c \<in> set ds" | "dec (k_encrypted (e_codecs E)) b = Some c"
      by (auto split: option.splits)
    then show ?thesis using Cons.IH [OF b(2)] b(1) False by cases blast+
  qed
qed

lemma take_page_prefix:
  "take_page K b first cs = Inr p \<Longrightarrow> p = take (length p) cs"
  by (induction cs arbitrary: p b first) (auto simp: bind_simps split: if_splits)

lemma fetch_gate:
  assumes "fetch_chunks E home i fid off s = Inr (m, page)"
  obtains A where "\<not> node_is_revoked E home i s" "read_acl E home fid s = Inr A" "finger E i \<in> A"
  using assms by (auto simp: fetch_chunks_def bind_simps split: if_splits)

lemma fetch_from_blobs:
  assumes "fetch_chunks E home i fid off s = Inr (m, page)" and "c \<in> set page"
  shows "\<exists>name b. \<not> not_a_blob name \<and> file_at s (blob_dir home fid @ [name]) = Some b \<and>
     dec (k_encrypted (e_codecs E)) b = Some c"
proof -
  from assms obtain names held where "read_blobs E (blob_dir home fid) names s = Inr held"
    and tp: "take_page (k_encrypted (e_codecs E)) MAX_BATCH_PAYLOAD True
      (drop (unat off) (sort_key ec_index held)) = Inr page"
    by (auto simp: fetch_chunks_def Let_def bind_simps split: if_splits)
  moreover have "c \<in> set held"
    using assms(2) take_page_prefix [OF tp] by (metis in_set_dropD in_set_takeD set_sort)
  ultimately show ?thesis using read_blobs_from by blast
qed

text \<open>C4: a core gives a file only to those who stored it. In any history of store requests,
  revocations and disk faults, a fetch that succeeds comes from an identity that is not on the
  revocation set as it is read and that made an accepted store request for this file; every
  chunk in the answer is one that such a request for this file carried.\<close>

theorem storage_serves_uploaders:
  assumes "fetch_chunks E home i fid off (storage_run E home ops (fresh_store home)) = Inr (m, page)"
    and "list_all plain_op ops" and "plain_name fid" and "hex_names (e_crates E)"
    and "codec_ok (fingerprints E)" and "codec_strict (fingerprints E)"
    and "codec_ok (k_encrypted (e_codecs E))"
  shows "\<not> node_is_revoked E home i (storage_run E home ops (fresh_store home))
    \<and> (\<exists>j cs. accepted E (set ops) j fid cs \<and> finger E j = finger E i)
    \<and> (\<forall>c \<in> set page. \<exists>j cs. accepted E (set ops) j fid cs \<and> c \<in> set cs)"
proof -
  let ?s = "storage_run E home ops (fresh_store home)"
  have "storage_inv E home {} (fresh_store home)"
    by (simp add: storage_inv_def readers_inv_def blobs_inv_def file_at_def fresh_store_def)
  from storage_run_inv [OF assms(2,4,5,6) this] assms(3)
  have inv: "readers_inv E home (set ops) fid ?s" "blobs_inv E home (set ops) fid ?s"
    by (simp_all add: storage_inv_def)
  obtain A where A: "\<not> node_is_revoked E home i ?s" "read_acl E home fid ?s = Inr A" "finger E i \<in> A"
    using fetch_gate [OF assms(1)] .
  from read_acl_value [OF A(2)] A(3) inv(1) have "\<exists>j cs. accepted E (set ops) j fid cs \<and> finger E j = finger E i"
    unfolding readers_inv_def by blast
  moreover have "\<exists>j cs. accepted E (set ops) j fid cs \<and> c \<in> set cs" if "c \<in> set page" for c
  proof -
    from fetch_from_blobs [OF assms(1) that] inv(2) obtain b j cs c'
      where "dec (k_encrypted (e_codecs E)) b = Some c" "accepted E (set ops) j fid cs" "c' \<in> set cs"
        "enc (k_encrypted (e_codecs E)) c' = Some b"
      unfolding blobs_inv_def by metis
    with codec_okD [OF assms(7)] show ?thesis by fastforce
  qed
  ultimately show ?thesis using A(1) by blast
qed

text \<open>A core for closed examples: hexadecimal names, and a codec no torn value of which decodes.\<close>

definition hex_digit :: "nat \<Rightarrow> char" where
  "hex_digit k = char_of (if k < 10 then 48 + k else 87 + k)"

definition hex_of :: "bytes \<Rightarrow> string" where
  "hex_of h = CHR ''a'' # concat (map (\<lambda>b. [hex_digit (unat b div 16), hex_digit (unat b mod 16)]) h)"

definition hex_crates :: crates where
  "hex_crates = demo_crates\<lparr>hash_hex := hex_of, hex_encode := hex_of\<rparr>"

lemma hex_digit_ok: "k < 16 \<Longrightarrow> is_hex_digit (hex_digit k)"
  by (simp add: is_hex_digit_def hex_digit_def Let_def of_char_of)

lemma hex_crates_names: "hex_names hex_crates"
proof -
  have "unat (b :: byte) div 16 < 16" for b
    using unsigned_less [of b, where 'a = nat] by simp
  then show ?thesis
    by (auto simp: hex_names_def hex_crates_def hex_of_def list_all_iff hex_digit_ok) (simp add: is_hex_digit_def)
qed

definition line_codec :: "'a list \<Rightarrow> 'a codec" where
  "line_codec xs = \<lparr>enc = (\<lambda>v. map_option (\<lambda>i. replicate i 1 @ [0]) (find (\<lambda>i. xs ! i = v) [0..<length xs])),
     dec = (\<lambda>b. let n = length b - 1 in if b = replicate n 1 @ [0] \<and> n < length xs then Some (xs ! n) else None)\<rparr>"

lemma line_codec_ok: "codec_ok (line_codec xs)"
  by (auto simp: codec_ok_def line_codec_def dest: find_Some_mem)

lemma line_codec_strict: "codec_strict (line_codec xs)"
proof -
  have "take k (replicate i (1 :: byte) @ [0]) \<noteq> replicate n 1 @ [0]" if "k < Suc i" for k i n
  proof
    assume "take k (replicate i (1 :: byte) @ [0]) = replicate n 1 @ [0]"
    moreover have "take k (replicate i (1 :: byte) @ [0]) = replicate k 1" using that by (simp add: take_replicate min_def)
    ultimately have "(0 :: byte) \<in> set (replicate k 1)" by (metis in_set_conv_decomp)
    then show False by (auto split: if_splits)
  qed
  then show ?thesis by (auto simp: codec_strict_def line_codec_def Let_def)
qed

definition demo_blobs :: "encrypted_chunk list" where
  "demo_blobs = [\<lparr>ec_index = 0, ec_nonce = [4], ec_ciphertext = [7, 4, 0, 0, 0, 0, 1, 2]\<rparr>,
     \<lparr>ec_index = 1, ec_nonce = [5], ec_ciphertext = [7, 5, 1, 0, 0, 0, 3]\<rparr>]"

definition stored_codec :: "file_manifest codec" where
  "stored_codec = table_codec [demo_manifest\<lparr>fm_signature := replicate 64 0\<rparr>, demo_manifest]"

definition core_env :: env where
  "core_env = (demo_env 100)\<lparr>e_crates := hex_crates, e_codecs := demo_app_codecs\<lparr>k_manifest := stored_codec,
     k_encrypted := table_codec demo_blobs, k_fingerprints := line_codec [{}, {''a42''}, {''a43''}]\<rparr>\<rparr>"

lemma core_env_simps:
  "e_crates core_env = hex_crates" "fingerprints core_env = line_codec [{}, {''a42''}, {''a43''}]"
  "k_encrypted (e_codecs core_env) = table_codec demo_blobs" "k_manifest (e_codecs core_env) = stored_codec"
  by (simp_all add: core_env_def demo_env_def demo_app_codecs_def fingerprints_def)

definition demo_history :: "storage_op list" where
  "demo_history = [SStore \<lparr>public_key = [66]\<rparr> ''f'' demo_manifest [demo_blobs ! 1],
     SRevoke \<lparr>public_key = [67]\<rparr>, SStore \<lparr>public_key = [66]\<rparr> ''f'' demo_manifest [demo_blobs ! 0]]"

definition demo_core :: store where
  "demo_core = storage_run core_env [''h''] demo_history (fresh_store [''h''])"

text \<open>A page that has room for everything.\<close>

lemma take_page_all:
  assumes "chunk_sizes K cs = Inr szs" and "sum_list szs \<le> b"
  shows "take_page K b first cs = Inr cs"
  using assms
proof (induction cs arbitrary: szs b first)
  case Nil
  then show ?case by simp
next
  case (Cons c cs)
  then obtain bs rest where c: "enc K c = Some bs" "chunk_sizes K cs = Inr rest" "szs = length bs # rest"
    by (auto simp: chunk_sizes_def bind_simps)
  then have "length bs \<le> b" "sum_list rest \<le> b - length bs" using Cons.prems(2) by auto
  with c Cons.IH [OF c(2)] show ?case by (simp add: ok_or_def)
qed

lemma step_faults:
  "st_wfault (storage_step E home (SStore i fid m cs) s) = st_wfault s"
  "st_rfault (storage_step E home (SStore i fid m cs) s) = st_rfault s"
  "st_wfault (storage_step E home (SRevoke i) s) = st_wfault s"
  "st_rfault (storage_step E home (SRevoke i) s) = st_rfault s"
  using preservesD [OF same_faults_store [of E home i fid m cs], of s]
    preservesD [OF same_faults_revoke [of E home i], of s]
  by (cases "store_chunks E home i fid m cs s"; cases "revoke_identity E home i s"; simp add: same_faults_def)+

lemma demo_core: "demo_core = \<lparr>st_files =
     [([''h'', ''blobs'', ''f'', ''a01''], [1]), ([''h'', ''blobs'', ''f'', ''manifest.json''], [1]),
      ([''h'', ''blobs'', ''f'', ''acl.json''], [1, 0]), ([''h'', ''revocations.json''], [1, 1, 0]),
      ([''h'', ''blobs'', ''f'', ''a''], [])],
     st_dirs = [[''h''], [''h'', ''blobs''], [''h'', ''blobs'', ''f'']],
     st_wfault = (\<lambda>_. None), st_rfault = (\<lambda>_. False)\<rparr>"
proof -
  have "st_files demo_core = [([''h'', ''blobs'', ''f'', ''a01''], [1]),
      ([''h'', ''blobs'', ''f'', ''manifest.json''], [1]), ([''h'', ''blobs'', ''f'', ''acl.json''], [1, 0]),
      ([''h'', ''revocations.json''], [1, 1, 0]), ([''h'', ''blobs'', ''f'', ''a''], [])]
    \<and> st_dirs demo_core = [[''h''], [''h'', ''blobs''], [''h'', ''blobs'', ''f'']]"
    by code_simp
  moreover have "st_wfault demo_core = (\<lambda>_. None) \<and> st_rfault demo_core = (\<lambda>_. False)"
    by (simp add: demo_core_def demo_history_def storage_run_def fresh_store_def step_faults
        del: storage_step.simps)
  ultimately show ?thesis by (cases demo_core) simp
qed

lemma demo_fetch:
  "fetch_chunks core_env [''h''] \<lparr>public_key = [66]\<rparr> ''f'' 0 demo_core = Inr (Some demo_manifest, demo_blobs)"
proof -
  let ?d = "blob_dir [''h''] ''f''"
  have "\<not> node_is_revoked core_env [''h''] \<lparr>public_key = [66]\<rparr> demo_core" unfolding demo_core by code_simp
  moreover have "read_acl core_env [''h''] ''f'' demo_core = Inr {''a42''}" unfolding demo_core by code_simp
  moreover have "finger core_env \<lparr>public_key = [66]\<rparr> = ''a42''" by code_simp
  moreover have "is_dir demo_core ?d" unfolding demo_core by code_simp
  moreover have "fs_list_dir ?d demo_core = Inr [''a01'', ''manifest.json'', ''acl.json'', ''a'']" unfolding demo_core by code_simp
  moreover have "read_blobs core_env ?d [''a01'', ''manifest.json'', ''acl.json'', ''a''] demo_core
      = Inr [demo_blobs ! 1, demo_blobs ! 0]" unfolding demo_core by code_simp
  moreover have "sort_key ec_index [demo_blobs ! 1, demo_blobs ! 0] = demo_blobs" by code_simp
  moreover have "stored_manifest core_env ?d demo_core = Some demo_manifest" unfolding demo_core by code_simp
  moreover have "chunk_sizes (table_codec demo_blobs) demo_blobs = Inr [0, 1]" by code_simp
  then have "take_page (table_codec demo_blobs) MAX_BATCH_PAYLOAD True demo_blobs = Inr demo_blobs"
    by (rule take_page_all) (simp add: MAX_BATCH_PAYLOAD_def)
  ultimately show ?thesis by (simp add: fetch_chunks_def Let_def core_env_simps)
qed

lemma storage_serves_uploaders_witness:
  "fetch_chunks core_env [''h''] \<lparr>public_key = [66]\<rparr> ''f'' 0 demo_core = Inr (Some demo_manifest, demo_blobs)
    \<and> \<not> node_is_revoked core_env [''h''] \<lparr>public_key = [66]\<rparr> demo_core
    \<and> (\<exists>j cs. accepted core_env (set demo_history) j ''f'' cs \<and> demo_blobs ! 1 \<in> set cs)"
proof -
  have ops: "list_all plain_op demo_history" and f: "plain_name ''f''"
    by (simp_all add: demo_history_def plain_name_def)
  have "hex_names (e_crates core_env)" "codec_ok (fingerprints core_env)" "codec_strict (fingerprints core_env)"
    "codec_ok (k_encrypted (e_codecs core_env))"
    unfolding core_env_simps by (simp_all add: hex_crates_names line_codec_ok line_codec_strict table_codec_ok)
  from storage_serves_uploaders [OF demo_fetch [unfolded demo_core_def] ops f this] demo_fetch
  show ?thesis unfolding demo_core_def [symmetric] by (simp add: demo_blobs_def)
qed

end
