(* ===== verification/StorageSync.thy ===== *)
theory StorageSync
  imports AppStorage
begin

text \<open>
  Pushing a file to a core and pulling it back (\<open>push_chunks\<close>, \<open>pull_chunks\<close> against the handler of
  \<open>src/app/storage.rs\<close>): batches and pages, the contents of the file's directory on a core without
  faults, and the round trip through both.
\<close>

section \<open>Batches\<close>

definition fits_batch :: "('c \<Rightarrow> nat) \<Rightarrow> 'c list \<Rightarrow> bool" where
  "fits_batch f b \<longleftrightarrow> (\<exists>c. b = [c]) \<or> b \<noteq> [] \<and> sum_list (map f b) \<le> MAX_BATCH_PAYLOAD"

lemma fill_batches_spec:
  assumes "\<forall>(c, sz) \<in> set cs. sz = f c" and "bs \<noteq> [] \<longrightarrow> carried = sum_list (map f (last bs))"
    and "\<forall>b \<in> set bs. fits_batch f b"
  shows "concat (fill_batches carried bs cs) = concat bs @ map fst cs
    \<and> (\<forall>b \<in> set (fill_batches carried bs cs). fits_batch f b)"
  using assms
proof (induction carried bs cs rule: fill_batches.induct)
  case (1 carried bs)
  then show ?case by simp
next
  case (2 carried bs c sz cs)
  then have sz: "sz = f c" by simp
  show ?case
  proof (cases "bs = [] \<or> carried + sz > MAX_BATCH_PAYLOAD")
    case True
    then show ?thesis using 2 sz by (simp add: fits_batch_def)
  next
    case False
    then have bs: "bs = butlast bs @ [last bs]" by simp
    then have "last bs \<in> set bs" by (metis last_in_set append_is_Nil_conv list.distinct(1))
    with False 2(4,5) sz have "fits_batch f (last bs @ [c])" by (auto simp: fits_batch_def)
    moreover have "\<forall>b \<in> set (butlast bs). fits_batch f b" using 2(5) by (meson in_set_butlastD)
    ultimately have "concat (fill_batches (carried + sz) (butlast bs @ [last bs @ [c]]) cs)
        = concat (butlast bs @ [last bs @ [c]]) @ map fst cs
      \<and> (\<forall>b \<in> set (fill_batches (carried + sz) (butlast bs @ [last bs @ [c]]) cs). fits_batch f b)"
      using False 2 sz by (intro 2(2)) auto
    moreover have "concat bs = concat (butlast bs) @ last bs" using bs by (metis concat.simps concat_append append_Nil2)
    ultimately show ?thesis using False by simp
  qed
qed

text \<open>The batches carry the chunks in order, none is empty, and each but a single oversized chunk
  stays within the limit.\<close>

lemma batches_cover:
  assumes "chunk_sizes K cs = Inr szs"
  shows "concat (fill_batches 0 [] (zip cs szs)) = cs"
    "\<forall>b \<in> set (fill_batches 0 [] (zip cs szs)). fits_batch (\<lambda>c. length (the (enc K c))) b"
proof -
  have len: "length szs = length cs" using assms mapR_ok_length unfolding chunk_sizes_def by blast
  have "sz = length (the (enc K c))" if "(c, sz) \<in> set (zip cs szs)" for c sz
  proof -
    from that obtain k where "k < length cs" "c = cs ! k" "sz = szs ! k" by (auto simp: set_zip)
    with mapR_ok_nth [OF assms [unfolded chunk_sizes_def], of k] show ?thesis by (auto simp: bind_simps)
  qed
  then have "\<forall>(c, sz) \<in> set (zip cs szs). sz = length (the (enc K c))" by auto
  from fill_batches_spec [OF this, of "[]" 0] len
  show "concat (fill_batches 0 [] (zip cs szs)) = cs"
    "\<forall>b \<in> set (fill_batches 0 [] (zip cs szs)). fits_batch (\<lambda>c. length (the (enc K c))) b" by simp_all
qed

section \<open>A core without faults\<close>

definition quiet :: "store \<Rightarrow> bool" where
  "quiet s \<longleftrightarrow> st_wfault s = (\<lambda>_. None) \<and> st_rfault s = (\<lambda>_. False) \<and> distinct (map fst (st_files s))"

definition wire :: "env \<Rightarrow> encrypted_chunk \<Rightarrow> bytes" where
  "wire E c = the (enc (k_encrypted (e_codecs E)) c)"

definition bid :: "env \<Rightarrow> encrypted_chunk \<Rightarrow> string" where
  "bid E c = blob_id E (wire E c)"

text \<open>The directory of a file holds exactly the blobs of \<open>cs\<close>, the manifest and the reader list.\<close>

definition holding :: "env \<Rightarrow> path \<Rightarrow> file_manifest \<Rightarrow> string set \<Rightarrow> encrypted_chunk list \<Rightarrow> store \<Rightarrow> bool" where
  "holding E d m A cs s \<longleftrightarrow> quiet s \<and> is_dir s d \<and> (\<forall>x. \<not> is_dir s (d @ [x]))
     \<and> file_at s (d @ [''manifest.json'']) = enc (k_manifest (e_codecs E)) m
     \<and> file_at s (d @ [''acl.json'']) = enc (fingerprints E) A
     \<and> enc (k_manifest (e_codecs E)) m \<noteq> None \<and> enc (fingerprints E) A \<noteq> None
     \<and> (\<forall>c \<in> set cs. file_at s (d @ [bid E c]) = Some (wire E c))
     \<and> (\<forall>x. x \<noteq> ''manifest.json'' \<longrightarrow> x \<noteq> ''acl.json'' \<longrightarrow> x \<notin> bid E ` set cs \<longrightarrow> file_at s (d @ [x]) = None)"

text \<open>Nothing of the file is there yet.\<close>

definition vacant :: "path \<Rightarrow> store \<Rightarrow> bool" where
  "vacant d s \<longleftrightarrow> quiet s \<and> (\<forall>q \<in> set (prefixes_of d). file_at s q = None)
     \<and> (\<forall>x. file_at s (d @ [x]) = None \<and> \<not> is_dir s (d @ [x]))"

lemma quiet_put: "quiet s \<Longrightarrow> quiet (put_file p b s)"
  by (simp add: quiet_def put_file_def distinct_update)

lemma quiet_wtr:
  assumes "quiet s" and "write_then_rename t p b s = (s', r)"
  shows "quiet s'"
proof -
  have "distinct (map fst (st_files s'))"
    using assms unfolding quiet_def
    by (auto simp: write_then_rename_def bindS_def fs_write_def fs_rename_def put_file_def
        distinct_update distinct_delete split: prod.splits sum.splits if_splits option.splits fault.splits)
  then show ?thesis using assms(1) write_then_rename_env [OF assms(2)] by (simp add: quiet_def)
qed

lemma put_blob_quiet:
  assumes "quiet s" and "is_dir s d" and "\<forall>x. \<not> is_dir s (d @ [x])" and "hex_names (e_crates E)"
    and "enc (k_encrypted (e_codecs E)) c \<noteq> None"
  shows "\<exists>s'. put_blob E d c s = (s', Inr ()) \<and> quiet s' \<and> is_dir s' = is_dir s \<and> st_dirs s' = st_dirs s
    \<and> (\<forall>q. file_at s' q = (if q = d @ [bid E c] then Some (wire E c)
         else if q = d @ [bid E c @ ''.tmp''] then None else file_at s q))"
proof -
  let ?t = "d @ [bid E c @ ''.tmp'']" and ?p = "d @ [bid E c]"
  have e: "enc (k_encrypted (e_codecs E)) c = Some (wire E c)" using assms(5) by (auto simp: wire_def)
  have "writable ?t s" "writable ?p s" using assms(1-3) by (simp_all add: writable_def quiet_def)
  then obtain s' where w: "write_then_rename ?t ?p (wire E c) s = (s', Inr ())"
    using write_then_rename_total by blast
  moreover have "put_blob E d c s = write_then_rename ?t ?p (wire E c) s"
    by (simp add: put_blob_def bindS_def lift_result_def ok_or_def e bid_def blob_id_plain [OF assms(4)])
  ultimately have "put_blob E d c s = (s', Inr ())" by simp
  moreover have "file_at s' q = (if q = ?p then Some (wire E c) else if q = ?t then None else file_at s q)" for q
    by (rule write_then_rename_ok [OF w]) simp
  ultimately show ?thesis
    using quiet_wtr [OF assms(1) w] write_then_rename_env [OF w] by blast
qed

definition blobs_at :: "env \<Rightarrow> path \<Rightarrow> encrypted_chunk list \<Rightarrow> store \<Rightarrow> store \<Rightarrow> bool" where
  "blobs_at E d cs s s' \<longleftrightarrow> quiet s' \<and> is_dir s' = is_dir s \<and> st_dirs s' = st_dirs s
     \<and> (\<forall>c \<in> set cs. file_at s' (d @ [bid E c]) = Some (wire E c))
     \<and> (\<forall>c \<in> set cs. file_at s' (d @ [bid E c @ ''.tmp'']) = None)
     \<and> (\<forall>q. (\<forall>c \<in> set cs. q \<noteq> d @ [bid E c] \<and> q \<noteq> d @ [bid E c @ ''.tmp'']) \<longrightarrow> file_at s' q = file_at s q)"

lemma tmp_apart:
  assumes "hex_names (e_crates E)"
  shows "bid E a \<noteq> bid E b @ ''.tmp''"
proof
  assume "bid E a = bid E b @ ''.tmp''"
  with blob_id_names(1,2) [OF assms] show False unfolding bid_def by metis
qed

lemma put_blobs_quiet:
  assumes "quiet s" and "is_dir s d" and "\<forall>x. \<not> is_dir s (d @ [x])" and "hex_names (e_crates E)"
    and "\<forall>c \<in> set cs. enc (k_encrypted (e_codecs E)) c \<noteq> None" and "distinct (map (bid E) cs)"
  shows "\<exists>s'. put_blobs E d cs s = (s', Inr ()) \<and> blobs_at E d cs s s'"
  using assms(1-3,5,6)
proof (induction cs arbitrary: s)
  case Nil
  then show ?case by (simp add: ret_def blobs_at_def)
next
  case (Cons c cs)
  from put_blob_quiet [OF Cons.prems(1-3) assms(4), of c] Cons.prems(4)
  obtain t where t: "put_blob E d c s = (t, Inr ())" "quiet t" "is_dir t = is_dir s" "st_dirs t = st_dirs s"
    "\<forall>q. file_at t q = (if q = d @ [bid E c] then Some (wire E c)
       else if q = d @ [bid E c @ ''.tmp''] then None else file_at s q)" by auto
  from Cons.IH [of t] t(2,3) Cons.prems(2-5)
  obtain s' where s': "put_blobs E d cs t = (s', Inr ())" "blobs_at E d cs t s'" by auto
  note b = s'(2) [unfolded blobs_at_def]
  have c: "\<forall>a \<in> set cs. bid E c \<noteq> bid E a" using Cons.prems(5) by auto
  note tmp = tmp_apart [OF assms(4)]
  have "\<forall>a \<in> set cs. d @ [bid E c] \<noteq> d @ [bid E a] \<and> d @ [bid E c] \<noteq> d @ [bid E a @ ''.tmp'']"
    using c tmp by simp
  with b t(5) have c1: "file_at s' (d @ [bid E c]) = Some (wire E c)" by metis
  have "\<forall>a \<in> set cs. d @ [bid E c @ ''.tmp''] \<noteq> d @ [bid E a] \<and> d @ [bid E c @ ''.tmp''] \<noteq> d @ [bid E a @ ''.tmp'']"
    using c tmp [of _ c] by (auto dest: sym)
  then have "file_at s' (d @ [bid E c @ ''.tmp'']) = file_at t (d @ [bid E c @ ''.tmp''])" using b by blast
  then have c2: "file_at s' (d @ [bid E c @ ''.tmp'']) = None" using t(5) by simp
  have "put_blobs E d (c # cs) s = (s', Inr ())" using t(1) s'(1) by (simp add: bindS_def)
  moreover have "blobs_at E d (c # cs) s s'"
    unfolding blobs_at_def using b c1 c2 t(3,4,5) by auto
  ultimately show ?case by blast
qed

text \<open>Either nothing was stored yet, or exactly \<open>cs\<close>, with the reader list \<open>A\<close>.\<close>

definition prepared :: "env \<Rightarrow> path \<Rightarrow> file_manifest \<Rightarrow> string set \<Rightarrow> encrypted_chunk list \<Rightarrow> store \<Rightarrow> bool" where
  "prepared E d m A cs s \<longleftrightarrow> cs = [] \<and> A = {} \<and> vacant d s \<or> holding E d m A cs s"

lemma prepared_contents:
  assumes "prepared E d m A cs s"
  shows "quiet s" "\<forall>x. \<not> is_dir s (d @ [x])"
    "\<forall>c \<in> set cs. file_at s (d @ [bid E c]) = Some (wire E c)"
    "\<forall>x. x \<noteq> ''manifest.json'' \<longrightarrow> x \<noteq> ''acl.json'' \<longrightarrow> x \<notin> bid E ` set cs \<longrightarrow> file_at s (d @ [x]) = None"
    "A = {} \<and> file_at s (d @ [''acl.json'']) = None \<or> file_at s (d @ [''acl.json'']) = enc (fingerprints E) A"
  using assms by (auto simp: prepared_def holding_def vacant_def)

lemma prepared_mkdirs:
  assumes "prepared E d m A cs s"
  shows "\<exists>s1. fs_mkdirs d s = (s1, Inr ()) \<and> quiet s1 \<and> is_dir s1 d \<and> (\<forall>x. \<not> is_dir s1 (d @ [x]))
    \<and> file_at s1 = file_at s"
proof (cases "is_dir s d")
  case True
  then show ?thesis using prepared_contents(1,2) [OF assms] by (auto simp: fs_mkdirs_def)
next
  case False
  then have v: "vacant d s" using assms by (auto simp: prepared_def holding_def)
  let ?s1 = "s\<lparr>st_dirs := st_dirs s @ filter (\<lambda>q. \<not> is_dir s q) (prefixes_of d)\<rparr>"
  have mk: "fs_mkdirs d s = (?s1, Inr ())"
    using False v by (simp add: fs_mkdirs_def vacant_def quiet_def list_ex_iff)
  have "d @ [x] \<notin> set (prefixes_of d)" for x
  proof
    assume "d @ [x] \<in> set (prefixes_of d)"
    then obtain n where "d @ [x] = take n d" by (auto simp: prefixes_of_def)
    then have "length (d @ [x]) \<le> length d" by (metis length_take min.cobounded1)
    then show False by simp
  qed
  then have "\<forall>x. \<not> is_dir ?s1 (d @ [x])" using v by (auto simp: vacant_def is_dir_def)
  moreover have "quiet ?s1" using v by (simp add: vacant_def quiet_def)
  ultimately show ?thesis using mk fs_mkdirs_dir [OF mk] fs_mkdirs_files [OF mk] by blast
qed

lemma store_quiet:
  assumes "prepared E (blob_dir home fid) m A don s" and hex: "hex_names (e_crates E)"
    and "\<not> node_is_revoked E home i s"
    and "verify_signature (e_crates E) (k_manifest (e_codecs E)) m = Inr ()"
    and em: "enc (k_manifest (e_codecs E)) m \<noteq> None"
    and ea: "enc (fingerprints E) (insert (finger E i) A) \<noteq> None" and "codec_ok (fingerprints E)"
    and "\<forall>c \<in> set cs. enc (k_encrypted (e_codecs E)) c \<noteq> None" and "distinct (map (bid E) (don @ cs))"
  shows "\<exists>s'. store_chunks E home i fid m cs s = (s', Inr ())
    \<and> holding E (blob_dir home fid) m (insert (finger E i) A) (don @ cs) s'"
proof -
  let ?d = "blob_dir home fid" and ?A = "insert (finger E i) A"
  note pre = prepared_contents [OF assms(1)]
  obtain bm ba where bm: "enc (k_manifest (e_codecs E)) m = Some bm" and ba: "enc (fingerprints E) ?A = Some ba"
    using em ea by auto
  obtain s1 where s1: "fs_mkdirs ?d s = (s1, Inr ())" "quiet s1" "is_dir s1 ?d" "\<forall>x. \<not> is_dir s1 (?d @ [x])"
    "file_at s1 = file_at s" using prepared_mkdirs [OF assms(1)] by blast
  have dc: "distinct (map (bid E) cs)" using assms(9) by simp
  obtain s2 where s2: "put_blobs E ?d cs s1 = (s2, Inr ())" "blobs_at E ?d cs s1 s2"
    using put_blobs_quiet [OF s1(2-4) hex assms(8) dc] by blast
  note b = s2(2) [unfolded blobs_at_def]
  let ?s3 = "put_file (?d @ [''manifest.json'']) bm s2" let ?s4 = "put_file (?d @ [''acl.json'']) ba ?s3"
  have nd: "is_dir s2 ?d" "\<forall>x. \<not> is_dir s2 (?d @ [x])" using b s1(3,4) by auto
  have nw: "st_wfault s2 = (\<lambda>_. None)" "st_rfault s2 = (\<lambda>_. False)" using b by (simp_all add: quiet_def)
  have w3: "fs_write (?d @ [''manifest.json'']) bm s2 = (?s3, Inr ())"
    using nd nw by (simp add: fs_write_total writable_def)
  have w4: "fs_write (?d @ [''acl.json'']) ba ?s3 = (?s4, Inr ())"
    using nd nw by (simp add: fs_write_total writable_def store_simps)
  have names: "bid E c \<noteq> ''acl.json''" "bid E c \<noteq> ''manifest.json''"
    "bid E c @ ''.tmp'' \<noteq> ''acl.json''" "bid E c @ ''.tmp'' \<noteq> ''manifest.json''" for c
    using blob_id_names(3-6) [OF hex, of "wire E c"] by (simp_all add: bid_def)
  have other: "file_at s2 (?d @ [x]) = file_at s (?d @ [x])"
    if "\<forall>c \<in> set cs. x \<noteq> bid E c \<and> x \<noteq> bid E c @ ''.tmp''" for x
    using b that s1(5) by (metis append1_eq_conv)
  have acl2: "file_at s2 (?d @ [''acl.json'']) = file_at s (?d @ [''acl.json''])"
    using names by (intro other) metis
  have "read_acl E home fid ?s3 = Inr A"
    using pre(5)
  proof
    assume "A = {} \<and> file_at s (?d @ [''acl.json'']) = None"
    then show ?thesis using acl2 nd by (simp add: read_acl_def acl_path_def fs_exists_def store_simps)
  next
    assume e: "file_at s (?d @ [''acl.json'']) = enc (fingerprints E) A"
    show ?thesis
    proof (cases "enc (fingerprints E) A")
      case None
      then have "A = {}" using assms(1) by (auto simp: prepared_def holding_def)
      then show ?thesis using None e acl2 nd by (simp add: read_acl_def acl_path_def fs_exists_def store_simps)
    next
      case (Some x)
      then show ?thesis using e acl2 nd nw codec_okD [OF assms(7) Some]
        by (simp add: read_acl_def acl_path_def fs_exists_def fs_read_def store_simps ok_or_def)
    qed
  qed
  then have run: "store_chunks E home i fid m cs s = (?s4, Inr ())"
    using assms(3,4) s1(1) s2(1) w3 w4 bm ba nd
    by (simp add: store_chunks_def Let_def bindS_def lift_result_def encode_doc_def ok_or_def write_acl_def
        acl_path_def store_simps)
  have new: "file_at ?s4 (?d @ [bid E c]) = Some (wire E c)" if "c \<in> set (don @ cs)" for c
  proof (cases "c \<in> set cs")
    case True
    then show ?thesis using b names by (simp add: store_simps)
  next
    case False
    then have "c \<in> set don" using that by simp
    moreover have "\<forall>a \<in> set cs. bid E c \<noteq> bid E a \<and> bid E c \<noteq> bid E a @ ''.tmp''"
      using \<open>c \<in> set don\<close> assms(9) tmp_apart [OF hex] by auto
    ultimately show ?thesis using other pre(3) names by (simp add: store_simps)
  qed
  have gone: "file_at ?s4 (?d @ [x]) = None"
    if x: "x \<noteq> ''manifest.json''" "x \<noteq> ''acl.json''" "x \<notin> bid E ` set (don @ cs)" for x
  proof (cases "\<exists>c \<in> set cs. x = bid E c @ ''.tmp''")
    case True
    then show ?thesis using b x by (auto simp: store_simps)
  next
    case False
    then have "file_at s2 (?d @ [x]) = file_at s (?d @ [x])" using x by (intro other) auto
    moreover have "x \<notin> bid E ` set don" using x(3) by auto
    ultimately show ?thesis using pre(4) x(1,2) by (simp add: store_simps)
  qed
  have "holding E ?d m ?A (don @ cs) ?s4"
    unfolding holding_def using nd b new gone bm ba
    by (auto simp: quiet_put store_simps)
  with run show ?thesis by blast
qed

section \<open>What a core answers\<close>

lemma holding_names:
  assumes "holding E d m A cs s" and "hex_names (e_crates E)"
  shows "\<exists>names. fs_list_dir d s = Inr names \<and> distinct names
    \<and> set names = {''manifest.json'', ''acl.json''} \<union> bid E ` set cs"
proof -
  note h = assms(1) [unfolded holding_def]
  let ?in = "\<lambda>q. q \<noteq> [] \<and> butlast q = d"
  let ?ks = "filter ?in (map fst (st_files s))"
  have in_iff: "?in q \<longleftrightarrow> q = d @ [last q]" for q by (metis append_butlast_last_id snoc_eq_iff_butlast)
  have "\<not> is_dir s q" if "?in q" for q using that h in_iff by metis
  then have "filter ?in (st_dirs s) = []" by (auto simp: filter_empty_conv is_dir_def)
  then have ls: "fs_list_dir d s = Inr (map last ?ks)" using h by (simp add: fs_list_dir_def)
  have "distinct ?ks" using h by (simp add: quiet_def)
  moreover have "inj_on last (set ?ks)"
  proof (rule inj_onI)
    fix p q assume pq: "p \<in> set ?ks" "q \<in> set ?ks" "last p = last q"
    then have "?in p" "?in q" by simp_all
    then show "p = q" using in_iff [of p] in_iff [of q] pq(3) by metis
  qed
  ultimately have "distinct (map last ?ks)" by (simp add: distinct_map)
  moreover have "x \<in> set (map last ?ks) \<longleftrightarrow> file_at s (d @ [x]) \<noteq> None" for x
  proof
    assume "x \<in> set (map last ?ks)"
    then obtain q where q: "q \<in> fst ` set (st_files s)" "?in q" "x = last q" by auto
    then have "q = d @ [x]" using in_iff by metis
    then have "d @ [x] \<in> fst ` set (st_files s)" using q by simp
    then show "file_at s (d @ [x]) \<noteq> None" by (simp add: file_at_def map_of_eq_None_iff)
  next
    assume "file_at s (d @ [x]) \<noteq> None"
    then have "d @ [x] \<in> fst ` set (st_files s)" by (simp add: file_at_def map_of_eq_None_iff)
    then have "d @ [x] \<in> set ?ks" by simp
    then have "last (d @ [x]) \<in> last ` set ?ks" by (rule imageI)
    then show "x \<in> set (map last ?ks)" by simp
  qed
  moreover have "file_at s (d @ [x]) \<noteq> None \<longleftrightarrow> x \<in> {''manifest.json'', ''acl.json''} \<union> bid E ` set cs" for x
  proof -
    have "file_at s (d @ [''manifest.json'']) \<noteq> None" "file_at s (d @ [''acl.json'']) \<noteq> None" using h by simp_all
    moreover have "\<forall>c \<in> set cs. file_at s (d @ [bid E c]) \<noteq> None" using h by simp
    moreover have "x \<noteq> ''manifest.json'' \<Longrightarrow> x \<noteq> ''acl.json'' \<Longrightarrow> x \<notin> bid E ` set cs \<Longrightarrow> file_at s (d @ [x]) = None"
      using h by blast
    ultimately show ?thesis
      by (cases "x = ''manifest.json''"; cases "x = ''acl.json''"; cases "x \<in> bid E ` set cs") auto
  qed
  ultimately show ?thesis using ls by (intro exI [of _ "map last ?ks"] conjI set_eqI) simp_all
qed

lemma read_blobs_wire:
  assumes "distinct names" and "\<forall>x \<in> set names. not_a_blob x \<or> (\<exists>c \<in> set cs. x = bid E c)"
    and "\<forall>c \<in> set cs. fs_read (d @ [bid E c]) s = Inr (wire E c) \<and> \<not> not_a_blob (bid E c)
      \<and> dec (k_encrypted (e_codecs E)) (wire E c) = Some c"
  shows "\<exists>held. read_blobs E d names s = Inr held \<and> distinct held
    \<and> set held = {c \<in> set cs. bid E c \<in> set names}"
  using assms(1,2)
proof (induction names)
  case Nil
  then show ?case by simp
next
  case (Cons x xs)
  then obtain held where h: "read_blobs E d xs s = Inr held" "distinct held"
    "set held = {c \<in> set cs. bid E c \<in> set xs}" by auto
  have inj: "a = c" if "a \<in> set cs" "c \<in> set cs" "bid E a = bid E c" for a c
  proof -
    have "wire E a = wire E c" using assms(3) that by (metis sum.inject(2))
    then show ?thesis using assms(3) that by (metis option.inject)
  qed
  show ?case
  proof (cases "not_a_blob x")
    case True
    then have "{c \<in> set cs. bid E c \<in> set (x # xs)} = {c \<in> set cs. bid E c \<in> set xs}" using assms(3) by auto
    then show ?thesis using h True by simp
  next
    case False
    then obtain c where c: "c \<in> set cs" "x = bid E c" using Cons.prems(2) by auto
    then have "c \<notin> set held" using h(3) Cons.prems(1) by auto
    moreover have "{a \<in> set cs. bid E a \<in> set (x # xs)} = insert c {a \<in> set cs. bid E a \<in> set xs}"
      using c inj by auto
    ultimately show ?thesis using h False c assms(3) by simp
  qed
qed

lemma take_page_some:
  assumes "\<forall>c \<in> set cs. enc K c \<noteq> None" and "cs \<noteq> []"
  shows "\<exists>p. take_page K b True cs = Inr p \<and> p \<noteq> [] \<and> p = take (length p) cs"
proof -
  have ok: "\<exists>p. take_page K b first cs = Inr p" if "\<forall>c \<in> set cs. enc K c \<noteq> None" for b first cs
    using that
  proof (induction cs arbitrary: b first)
    case (Cons c cs)
    then obtain bs p where "enc K c = Some bs" "take_page K (b - length bs) False cs = Inr p" by fastforce
    then show ?case by (simp add: ok_or_def)
  qed simp
  obtain c ds where cs: "cs = c # ds" using assms(2) by (cases cs) auto
  obtain p where p: "take_page K b True cs = Inr p" using ok assms(1) by blast
  then have "p \<noteq> []" by (auto simp: cs bind_simps)
  with p take_page_prefix [OF p] show ?thesis by blast
qed

text \<open>A page of what is held: never empty while something is left.\<close>

lemma fetch_page:
  assumes "holding E (blob_dir home fid) m A cs s" and hex: "hex_names (e_crates E)"
    and "finger E i \<in> A" and "\<not> node_is_revoked E home i s"
    and "codec_ok (fingerprints E)" and "codec_ok (k_manifest (e_codecs E))"
    and ec: "codec_ok (k_encrypted (e_codecs E))" "\<forall>c \<in> set cs. enc (k_encrypted (e_codecs E)) c \<noteq> None"
    and "sorted (map ec_index cs)" and "distinct (map ec_index cs)"
  shows "\<exists>p. fetch_chunks E home i fid off s = Inr (Some m, p) \<and> p = take (length p) (drop (unat off) cs)
    \<and> (unat off < length cs \<longrightarrow> p \<noteq> [])"
proof -
  let ?d = "blob_dir home fid" and ?K = "k_encrypted (e_codecs E)"
  note h = assms(1) [unfolded holding_def]
  have acl: "read_acl E home fid s = Inr A"
    using h assms(5) by (auto simp: read_acl_def acl_path_def fs_exists_def fs_read_def quiet_def ok_or_def
        dest: codec_okD)
  have man: "stored_manifest E ?d s = Some m"
    using h assms(6) by (auto simp: stored_manifest_def fs_read_def quiet_def ok_or_def dest: codec_okD)
  obtain names where n: "fs_list_dir ?d s = Inr names" "distinct names"
    "set names = {''manifest.json'', ''acl.json''} \<union> bid E ` set cs"
    using holding_names [OF assms(1) hex] by blast
  have "fs_read (?d @ [bid E c]) s = Inr (wire E c) \<and> \<not> not_a_blob (bid E c) \<and> dec ?K (wire E c) = Some c"
    if "c \<in> set cs" for c
  proof -
    have "dec ?K (wire E c) = Some c" using that ec by (auto simp: wire_def intro: codec_okD)
    then show ?thesis using h that blob_id_names(1) [OF hex, of "wire E c"]
      by (simp add: fs_read_def quiet_def ok_or_def bid_def)
  qed
  moreover have named: "\<forall>x \<in> set names. not_a_blob x \<or> (\<exists>c \<in> set cs. x = bid E c)"
    unfolding n(3) by (auto simp: not_a_blob_def)
  moreover have sel: "{c \<in> set cs. bid E c \<in> set names} = set cs" unfolding n(3) by auto
  ultimately obtain held where held: "read_blobs E ?d names s = Inr held" "distinct held" "set held = set cs"
    using read_blobs_wire [OF n(2), of cs E ?d s] sel named by auto
  have "distinct cs" using assms(10) by (simp add: distinct_map)
  with held have "mset held = mset cs" by (metis set_eq_iff_mset_eq_distinct)
  then have sorted: "sort_key ec_index held = cs" using assms(9,10) by (intro sort_key_perm)
  have "\<exists>p. take_page ?K MAX_BATCH_PAYLOAD True (drop (unat off) cs) = Inr p
    \<and> p = take (length p) (drop (unat off) cs) \<and> (unat off < length cs \<longrightarrow> p \<noteq> [])"
  proof (cases "unat off < length cs")
    case True
    moreover have "\<forall>c \<in> set (drop (unat off) cs). enc ?K c \<noteq> None" using ec(2) by (meson in_set_dropD)
    ultimately show ?thesis using take_page_some [of "drop (unat off) cs" ?K] by auto
  qed simp
  then obtain p where "take_page ?K MAX_BATCH_PAYLOAD True (drop (unat off) cs) = Inr p"
    "p = take (length p) (drop (unat off) cs)" "unat off < length cs \<longrightarrow> p \<noteq> []" by blast
  then have "fetch_chunks E home i fid off s = Inr (Some m, p)"
    using assms(3,4) acl h n(1) held(1) sorted man by (simp add: fetch_chunks_def Let_def)
  with \<open>p = _\<close> \<open>_ \<longrightarrow> p \<noteq> []\<close> show ?thesis by blast
qed

section \<open>The two ends together\<close>

text \<open>A frame whose replies are within the size limits.\<close>

definition fits_frame :: "env \<Rightarrow> storage_frame \<Rightarrow> bool" where
  "fits_frame E g \<longleftrightarrow> (\<forall>req n. snd (reply E req (AppStorage g) n) = Inr ())"

lemma reply_delivers:
  assumes "fits_frame E g" and "codec_ok (k_app (e_codecs E))" and "n_outbox n = []"
  shows "\<exists>r. n_outbox (fst (reply_then E req (AppStorage g) h n)) = [r]
    \<and> frame_decode (k_app (e_codecs E)) (m_payload r) = AppStorage g"
  using assms by (intro reply_decodes) (simp_all add: fits_frame_def)

lemma ask_store:
  assumes "store_chunks E (n_home n) i fid m cs (n_store n) = (s', Inr ())"
    and "codec_ok (k_app (e_codecs E))" and "fits_frame E (StoreAck fid)"
  shows "\<exists>n'. ask_core E i (AppStorage (StoreChunks fid m cs)) n = (n', Inr (AppStorage (StoreAck fid)))
    \<and> n_store n' = s' \<and> n_home n' = n_home n"
proof -
  let ?req = "\<lparr>m_id = [], m_sender = i, m_recipient = node_public E n, m_payload = []\<rparr>"
  let ?n1 = "n\<lparr>n_outbox := [], n_store := s'\<rparr>"
  have "handle_storage E ?req (StoreChunks fid m cs) (n\<lparr>n_outbox := []\<rparr>)
      = reply_then E ?req (AppStorage (StoreAck fid)) None ?n1"
    using assms(1) by (simp add: handle_storage_def on_store_def)
  moreover obtain r where "n_outbox (fst (reply_then E ?req (AppStorage (StoreAck fid)) None ?n1)) = [r]"
    "frame_decode (k_app (e_codecs E)) (m_payload r) = AppStorage (StoreAck fid)"
    using reply_delivers [OF assms(3,2), of ?n1] by auto
  ultimately show ?thesis by (simp add: ask_core_def Let_def handler_defs)
qed

lemma ask_fetch:
  assumes "fetch_chunks E (n_home n) i fid off (n_store n) = Inr (mo, p)"
    and "codec_ok (k_app (e_codecs E))" and "fits_frame E (StoredChunks fid mo p)"
  shows "\<exists>n'. ask_core E i (AppStorage (FetchChunks fid off)) n = (n', Inr (AppStorage (StoredChunks fid mo p)))
    \<and> n_store n' = n_store n \<and> n_home n' = n_home n"
proof -
  let ?req = "\<lparr>m_id = [], m_sender = i, m_recipient = node_public E n, m_payload = []\<rparr>"
  let ?n1 = "n\<lparr>n_outbox := []\<rparr>"
  have "handle_storage E ?req (FetchChunks fid off) ?n1
      = reply_then E ?req (AppStorage (StoredChunks fid mo p)) None ?n1"
    using assms(1) by (simp add: handle_storage_def)
  moreover obtain r where "n_outbox (fst (reply_then E ?req (AppStorage (StoredChunks fid mo p)) None ?n1)) = [r]"
    "frame_decode (k_app (e_codecs E)) (m_payload r) = AppStorage (StoredChunks fid mo p)"
    using reply_delivers [OF assms(3,2), of ?n1] by auto
  ultimately show ?thesis by (simp add: ask_core_def Let_def handler_defs)
qed

lemma revoked_after_store:
  assumes "store_chunks E home i fid m cs s = (s', r)" and "hex_names (e_crates E)" and "plain_name fid"
  shows "revoked_set E home s' = revoked_set E home s"
proof -
  have "revocations_path home \<noteq> blob_dir home fid @ [x]" for x
    by (simp add: revocations_path_def blob_dir_plain [OF assms(3)])
  from preservesD [OF same_file_store [OF assms(2) this] assms(1)] show ?thesis
    unfolding revoked_set_def by (rule load_doc_same)
qed

lemma push_batches_holds:
  assumes "prepared E (blob_dir (n_home n) fid) m A don (n_store n)" and "A \<subseteq> {finger E i}"
    and hex: "hex_names (e_crates E)" and fid: "plain_name fid"
    and "\<not> node_is_revoked E (n_home n) i (n_store n)"
    and sig: "verify_signature (e_crates E) (k_manifest (e_codecs E)) m = Inr ()"
    and em: "enc (k_manifest (e_codecs E)) m \<noteq> None"
    and ea: "enc (fingerprints E) {finger E i} \<noteq> None" "codec_ok (fingerprints E)"
    and "\<forall>c \<in> set (concat bs). enc (k_encrypted (e_codecs E)) c \<noteq> None"
    and "distinct (map (bid E) (don @ concat bs))"
    and app: "codec_ok (k_app (e_codecs E))" "fits_frame E (StoreAck fid)"
  shows "\<exists>n'. push_batches (ask_core E i) fid m bs n = (n', Inr ()) \<and> n_home n' = n_home n
    \<and> \<not> node_is_revoked E (n_home n) i (n_store n')
    \<and> prepared E (blob_dir (n_home n) fid) m (if bs = [] then A else {finger E i}) (don @ concat bs) (n_store n')"
  using assms(1,2,5,10,11)
proof (induction bs arbitrary: n A don)
  case Nil
  then show ?case by (simp add: ret_def)
next
  case (Cons b bs)
  have A: "insert (finger E i) A = {finger E i}" using Cons.prems(2) by auto
  have cb: "\<forall>c \<in> set b. enc (k_encrypted (e_codecs E)) c \<noteq> None" "distinct (map (bid E) (don @ b))"
    using Cons.prems(4,5) by auto
  obtain s' where s': "store_chunks E (n_home n) i fid m b (n_store n) = (s', Inr ())"
    "holding E (blob_dir (n_home n) fid) m {finger E i} (don @ b) s'"
    using store_quiet [OF Cons.prems(1) hex Cons.prems(3) sig em, of b] cb ea A by auto
  obtain n1 where n1: "ask_core E i (AppStorage (StoreChunks fid m b)) n = (n1, Inr (AppStorage (StoreAck fid)))"
    "n_store n1 = s'" "n_home n1 = n_home n"
    using ask_store [OF s'(1) app] by blast
  have rev: "\<not> node_is_revoked E (n_home n1) i (n_store n1)"
    using Cons.prems(3) revoked_after_store [OF s'(1) hex fid] n1 by (simp add: node_is_revoked_def)
  have p1: "prepared E (blob_dir (n_home n1) fid) m {finger E i} (don @ b) (n_store n1)"
    using s'(2) n1 by (simp add: prepared_def)
  have "\<forall>c \<in> set (concat bs). enc (k_encrypted (e_codecs E)) c \<noteq> None"
    "distinct (map (bid E) ((don @ b) @ concat bs))" using Cons.prems(4,5) by auto
  from Cons.IH [OF p1 _ rev this] obtain n' where
    "push_batches (ask_core E i) fid m bs n1 = (n', Inr ())" "n_home n' = n_home n1"
    "\<not> node_is_revoked E (n_home n1) i (n_store n')"
    "prepared E (blob_dir (n_home n1) fid) m {finger E i} ((don @ b) @ concat bs) (n_store n')"
    by auto
  then show ?case using n1 by (simp add: bindS_def)
qed

lemma pull_pages_all:
  assumes serve: "\<And>w off. P w \<Longrightarrow> \<exists>w' p. call (AppStorage (FetchChunks fid off)) w
      = (w', Inr (AppStorage (StoredChunks fid (Some m) p))) \<and> P w' \<and> p = take (length p) (drop (unat off) cs)
      \<and> (unat off < length cs \<longrightarrow> p \<noteq> [])"
    and len: "length (fm_chunks m) = length cs" "length cs < 2 ^ 32" "cs \<noteq> []"
    and "P w" and "got = take (unat off) cs" and "unat off < length cs" and "mo = None \<or> mo = Some m"
    and "length cs < n + unat off"
  shows "\<exists>w'. pull_pages n call fid mo got off w = Some (w', Inr (Some m, cs)) \<and> P w'"
  using assms(5-9)
proof (induction n arbitrary: w got off mo)
  case 0
  then show ?case by simp
next
  case (Suc n)
  obtain w' p where p: "call (AppStorage (FetchChunks fid off)) w = (w', Inr (AppStorage (StoredChunks fid (Some m) p)))"
    "P w'" "p = take (length p) (drop (unat off) cs)" "p \<noteq> []"
    using serve [OF Suc.prems(1), of off] Suc.prems(3) by blast
  have lp: "unat off + length p \<le> length cs"
    using arg_cong [OF p(3), of length] Suc.prems(3) by simp
  have got: "got @ p = take (unat off + length p) cs"
    using p(3) by (subst p(3)) (simp add: Suc.prems(2) take_add)
  let ?off = "sat_add off (of_nat (length p))"
  have "unat (of_nat (length p) :: u32) = length p" using lp len(2)
    by (simp add: unsigned_of_nat take_bit_nat_eq_self)
  then have off: "unat ?off = unat off + length p"
    using lp len(2) by (simp add: sat_add_def unat_word_ariths)
  have mo: "(case mo of None \<Rightarrow> Some m | Some _ \<Rightarrow> mo) = Some m" using Suc.prems(4) by auto
  show ?case
  proof (cases "length cs \<le> unat off + length p")
    case True
    then have all: "got @ p = cs" using got by simp
    then have "length got + length p = length cs" by (metis length_append)
    then show ?thesis using all p(1,2,4) len mo by (simp add: Let_def)
  next
    case False
    then have "unat ?off < length cs" "length cs < n + unat ?off" using off Suc.prems(5) p(4)
      by (simp_all add: Suc_leI) (cases p; simp)
    moreover have "got @ p = take (unat ?off) cs" using got off by simp
    ultimately have "\<exists>w2. pull_pages n call fid (Some m) (got @ p) ?off w' = Some (w2, Inr (Some m, cs)) \<and> P w2"
      using Suc.IH [OF p(2), of "got @ p" ?off "Some m"] by blast
    moreover have "length got + length p < length cs" using arg_cong [OF got, of length] False by simp
    ultimately show ?thesis using p(1,4) len mo by (simp add: Let_def)
  qed
qed

text \<open>Chunks encrypted for a built manifest carry the indices 0, 1, 2, and so on.\<close>

lemma encrypt_chunk_index: "encrypt_chunk C nonce key c = Inr e \<Longrightarrow> ec_index e = ck_index c"
  by (auto simp: encrypt_chunk_def bind_simps)

lemma encrypted_indices:
  assumes "encrypt_all C key (zip ns chunks) = Inr cs" and "length ns = length chunks"
    and "build_chunks C 0 blocks = Inr chunks"
  shows "length cs = length chunks" "\<forall>k < length cs. unat (ec_index (cs ! k)) = k"
proof -
  show len: "length cs = length chunks"
    using mapR_ok_length [OF assms(1) [unfolded encrypt_all_def]] assms(2) by simp
  show "\<forall>k < length cs. unat (ec_index (cs ! k)) = k"
  proof (intro allI impI)
    fix k assume k: "k < length cs"
    then have "encrypt_chunk C (ns ! k) key (chunks ! k) = Inr (cs ! k)"
      using mapR_ok_nth [OF assms(1) [unfolded encrypt_all_def], of k] len assms(2) by simp
    then have "ec_index (cs ! k) = ck_index (chunks ! k)" by (rule encrypt_chunk_index)
    then show "unat (ec_index (cs ! k)) = k" using build_chunks_ok(2) [OF assms(3)] k len by simp
  qed
qed


text \<open>A core whose replies always fit, for a closed example.\<close>

definition page_frames :: "app_frame list" where
  "page_frames = map AppStorage [StoreAck ''f'', StoredChunks ''f'' (Some demo_manifest) [],
     StoredChunks ''f'' (Some demo_manifest) [demo_blobs ! 0], StoredChunks ''f'' (Some demo_manifest) [demo_blobs ! 1],
     StoredChunks ''f'' (Some demo_manifest) demo_blobs]"

definition sync_env :: env where
  "sync_env = core_env\<lparr>e_codecs := (e_codecs core_env)\<lparr>k_app := table_codec page_frames,
     k_message := \<lparr>enc = (\<lambda>_. Some []), dec = (\<lambda>_. None)\<rparr>\<rparr>\<rparr>"

lemma sync_env_simps:
  "e_crates sync_env = hex_crates" "fingerprints sync_env = line_codec [{}, {''a42''}, {''a43''}]"
  "k_encrypted (e_codecs sync_env) = table_codec demo_blobs" "k_manifest (e_codecs sync_env) = stored_codec"
  "k_app (e_codecs sync_env) = table_codec page_frames"
  by (simp_all add: sync_env_def core_env_def demo_env_def demo_app_codecs_def fingerprints_def)

lemma hex_crates_complete: "ed_complete hex_crates" "aead_complete hex_crates"
  by (auto simp: ed_complete_def aead_complete_def hex_crates_def demo_crates_def)

lemma sync_built:
  "build_manifest hex_crates stored_codec demo_signer (Some ''f'') (Inr (3, [[1, 2], [3]])) 2
     = Inr (demo_manifest, demo_chunks)"
  by (simp add: build_manifest_def map_err_def Let_def unsigned_bytes_def ok_or_def stored_codec_def
      table_codec_def hex_crates_def demo_crates_def demo_manifest_def demo_signer_def demo_chunks_def
      public_of_def sign_with_def upt_rec)

lemma sync_sealed:
  "encrypt_all hex_crates [7] (zip [[4], [5]] demo_chunks) = Inr demo_blobs"
  by (simp add: encrypt_all_def demo_chunks_def demo_blobs_def encrypt_chunk_def hex_crates_def demo_crates_def
      ok_or_def le_bytes32_def upt_rec)

lemma sync_fits: "AppStorage g \<in> set page_frames \<Longrightarrow> fits_frame sync_env g"
proof -
  assume g: "AppStorage g \<in> set page_frames"
  let ?f = "find (\<lambda>i. page_frames ! i = AppStorage g) [0..<length page_frames]"
  have "?f \<noteq> None" using g unfolding find_None_all by (auto simp: in_set_conv_nth)
  then obtain k where k: "?f = Some k" by auto
  then have "k < length page_frames" using find_Some_mem [OF k] by simp
  with k have "enc (table_codec page_frames) (AppStorage g) = Some (replicate k 1)" "k < 5"
    by (simp_all add: table_codec_def page_frames_def)
  then show ?thesis
    by (simp add: fits_frame_def reply_def frame_encode_def sync_env_simps ok_or_def send_raw_def validate_size_def
        sync_env_def MAX_MESSAGE_SIZE_def page_frames_def)
qed

lemma sync_pages: "AppStorage (StoredChunks ''f'' (Some demo_manifest) (take k (drop j demo_blobs))) \<in> set page_frames"
  by (cases j; cases k; cases "j - 1"; cases "k - 1") (simp_all add: page_frames_def demo_blobs_def)


end
