(* ===== verification/AppCore.thy ===== *)
theory AppCore
  imports AppStorage
begin

text \<open>
  \<open>src/app/core.rs\<close>: a core's duties towards other cores and operators: which hashes it misses,
  taking in a chunk, and revocations, which it applies only for an operator who signed them.
\<close>

definition operators_path :: "path \<Rightarrow> path" where
  "operators_path home = home @ [''operators.json'']"

definition operators_tmp :: "path \<Rightarrow> path" where
  "operators_tmp home = home @ [with_extension ''tmp'' ''operators.json'']"

definition operators :: "env \<Rightarrow> path \<Rightarrow> store \<Rightarrow> string set" where
  "operators E home = load_doc (fingerprints E) {} (operators_path home)"

definition write_operators :: "env \<Rightarrow> path \<Rightarrow> string set \<Rightarrow> (store, io_error, unit) op" where
  "write_operators E home = save_doc (fingerprints E) (operators_tmp home) (operators_path home)"

definition add_operator :: "env \<Rightarrow> path \<Rightarrow> string \<Rightarrow> (store, io_error, unit) op" where
  "add_operator E home fp s = write_operators E home (insert fp (operators E home s)) s"

definition set_operator :: "env \<Rightarrow> path \<Rightarrow> public_identity \<Rightarrow> (store, io_error, unit) op" where
  "set_operator E home i = add_operator E home (finger E i)"

definition revoke_payload :: "u64 \<Rightarrow> public_identity \<Rightarrow> bytes" where
  "revoke_payload epoch i = le_bytes64 epoch @ public_key i"

definition data_dir :: "path \<Rightarrow> path" where
  "data_dir home = home @ [''blobs'', ''data'']"

definition data_blob :: "env \<Rightarrow> path \<Rightarrow> bytes \<Rightarrow> path" where
  "data_blob E home h = path_join (data_dir home) (hex_encode (e_crates E) h @ ''.blob'')"

definition data_tmp :: "env \<Rightarrow> path \<Rightarrow> bytes \<Rightarrow> path" where
  "data_tmp E home h = path_join (data_dir home) (hex_encode (e_crates E) h @ ''.blob.tmp'')"

definition missing_chunks :: "env \<Rightarrow> path \<Rightarrow> bytes list \<Rightarrow> store \<Rightarrow> bytes list" where
  "missing_chunks E home hs s = filter (\<lambda>h. \<not> fs_exists s (data_blob E home h)) hs"

definition take_chunk :: "env \<Rightarrow> path \<Rightarrow> bytes \<Rightarrow> bytes \<Rightarrow> (store, io_error, unit) op" where
  "take_chunk E home h bytes = bindS (fs_mkdirs (data_dir home)) (\<lambda>_.
     write_then_rename (data_tmp E home h) (data_blob E home h) bytes)"

definition handle_core :: "env \<Rightarrow> message \<Rightarrow> core_frame \<Rightarrow> handler" where
  "handle_core E req f n = (case f of
       ReconcileRequest hs \<Rightarrow>
         reply_then E req (AppCore (ReconcileMissing (missing_chunks E (n_home n) hs (n_store n)))) None n
     | ReconcileMissing hs \<Rightarrow> (n, Inr (Some (''peer is missing '' @ show_nat (length hs) @ '' chunk(s)'')))
     | ChunkData h (Some bytes) \<Rightarrow>
         if blake3 (e_crates E) bytes \<noteq> h
         then (n, Inr (Some (''core rejected chunk '' @ hex_encode (e_crates E) h @ '': hash mismatch'')))
         else bindS (on_store (take_chunk E (n_home n) h bytes)) (\<lambda>_.
                ret (Some (''core reconciled chunk '' @ hex_encode (e_crates E) h))) n
     | ChunkData h None \<Rightarrow>
         (n, Inr (Some (''peer could not supply chunk '' @ hex_encode (e_crates E) h)))
     | RevokeBroadcast revoked epoch sig \<Rightarrow>
         if finger E (m_sender req) \<notin> operators E (n_home n) (n_store n)
         then reply_then E req (AppCore (RevokeRefuse epoch ''caller is not an operator of this core''))
                (Some (''revocation refused: '' @ finger E (m_sender req) @ '' is not an operator'')) n
         else (case verifying_key (e_crates E) (m_sender req) of
             Inl _ \<Rightarrow> reply_then E req (AppCore (RevokeRefuse epoch ''bad caller key'')) None n
           | Inr key \<Rightarrow>
               if \<not> ed_verify (e_crates E) key (revoke_payload epoch revoked) sig
               then reply_then E req (AppCore (RevokeRefuse epoch ''invalid revocation signature'')) None n
               else bindS (on_store (revoke_identity E (n_home n) revoked)) (\<lambda>_.
                      reply_then E req (AppCore (RevokeAck epoch))
                        (Some (''revoked '' @ finger E revoked))) n)
     | RevokeAck epoch \<Rightarrow> (n, Inr (Some (''core acknowledged revocation epoch '' @ show_nat (unat epoch))))
     | RevokeRefuse epoch reason \<Rightarrow>
         (n, Inr (Some (''core refused revocation epoch '' @ show_nat (unat epoch) @ '': '' @ reason)))
     | CoError msg \<Rightarrow> (n, Inr (Some (''core error: '' @ msg))))"

lemma operators_tmp: "operators_tmp home = home @ [''operators.tmp'']"
  by (simp add: operators_tmp_def) (code_simp)

interpretation operators: persisted_set "operators E home" "write_operators E home"
    "codec_ok_at (fingerprints E)" "doc_readable (operators_path home)"
    "doc_healthy (operators_tmp home) (operators_path home)" "doc_storable (fingerprints E)"
    "add_operator E home"
  for E :: env and home :: path
proof (rule persisted_set.intro)
  show "persisted (operators E home) (write_operators E home) (codec_ok_at (fingerprints E))
      (doc_readable (operators_path home)) (doc_healthy (operators_tmp home) (operators_path home))
      (doc_storable (fingerprints E))"
    unfolding operators_def write_operators_def
    by (rule doc_persisted) (simp add: operators_tmp operators_path_def)
  show "persisted_set_axioms (operators E home) (write_operators E home) (add_operator E home)"
    by unfold_locales (simp add: add_operator_def)
qed

text \<open>What a revocation signature covers determines the revocation.\<close>

lemma revoke_payload_inj: "revoke_payload e i = revoke_payload e' j \<longleftrightarrow> e = e' \<and> i = j"
  by (cases i; cases j) (auto simp: revoke_payload_def append_eq_append_conv le_bytes64_inj)

section \<open>Whom a core listens to\<close>

text \<open>\<open>hex::encode\<close> gives hexadecimal digits.\<close>

definition hex_text :: "crates \<Rightarrow> bool" where
  "hex_text C \<longleftrightarrow> (\<forall>b. list_all is_hex_digit (hex_encode C b))"

lemma data_paths:
  assumes "hex_text (e_crates E)"
  shows "data_blob E home h = data_dir home @ [hex_encode (e_crates E) h @ ''.blob'']"
    "data_tmp E home h = data_dir home @ [hex_encode (e_crates E) h @ ''.blob.tmp'']"
proof -
  let ?x = "hex_encode (e_crates E) h"
  have s: "CHR ''/'' \<notin> set ?x"
  proof
    assume "CHR ''/'' \<in> set ?x"
    then have "is_hex_digit (CHR ''/'')" using assms unfolding hex_text_def list_all_iff by blast
    then show False by (simp add: is_hex_digit_def)
  qed
  have p: "plain_name (?x @ ''.blob'')" "plain_name (?x @ ''.blob.tmp'')"
    using s by (cases ?x; simp add: plain_name_def)+
  show "data_blob E home h = data_dir home @ [?x @ ''.blob'']"
    "data_tmp E home h = data_dir home @ [?x @ ''.blob.tmp'']"
    unfolding data_blob_def data_tmp_def by (rule path_join_plain [OF p(1)], rule path_join_plain [OF p(2)])
qed

lemma take_chunk_keeps:
  assumes "hex_text (e_crates E)" and "length q = Suc (length home)"
  shows "preserves (same_file q) (take_chunk E home h b)"
  using assms(2) unfolding take_chunk_def data_paths [OF assms(1)]
  by (intro same_file_rules) (auto simp: data_dir_def)

lemma same_faults_take_chunk: "preserves same_faults (take_chunk E home h b)"
  unfolding take_chunk_def by (intro same_faults_rules)

text \<open>What one core frame does to the store: nothing, or it takes in a chunk, or it adds a
  revocation that an operator signed.\<close>

definition authorised :: "env \<Rightarrow> string set \<Rightarrow> message \<Rightarrow> core_frame \<Rightarrow> public_identity \<Rightarrow> bool" where
  "authorised E ops req f i \<longleftrightarrow> (\<exists>epoch sig. f = RevokeBroadcast i epoch sig
     \<and> finger E (m_sender req) \<in> ops
     \<and> ed_verify (e_crates E) (public_key (m_sender req)) (revoke_payload epoch i) sig)"

lemma handle_core_cases:
  assumes "handle_core E req f n = (n', r)"
  obtains "n_store n' = n_store n" "n_home n' = n_home n"
  | h b x where "take_chunk E (n_home n) h b (n_store n) = (n_store n', x)" "n_home n' = n_home n"
  | i x where "revoke_identity E (n_home n) i (n_store n) = (n_store n', x)" "n_home n' = n_home n"
      "authorised E (operators E (n_home n) (n_store n)) req f i"
proof (cases f)
  case (ReconcileRequest hs)
  then show ?thesis using assms by (intro that(1)) (auto simp: handle_core_def dest: reply_thenD)
next
  case (ChunkData h d)
  show ?thesis
  proof (cases d)
    case None
    then show ?thesis using assms ChunkData by (intro that(1)) (auto simp: handle_core_def)
  next
    case (Some b)
    show ?thesis
    proof (cases "blake3 (e_crates E) b = h")
      case False
      then show ?thesis using assms ChunkData Some by (intro that(1)) (auto simp: handle_core_def)
    next
      case True
      then have "bindS (on_store (take_chunk E (n_home n) h b)) (\<lambda>_.
          ret (Some (''core reconciled chunk '' @ hex_encode (e_crates E) h))) n = (n', r)"
        using assms ChunkData Some by (simp add: handle_core_def)
      then have "\<exists>x. take_chunk E (n_home n) h b (n_store n) = (n_store n', x) \<and> n_home n' = n_home n"
        by (cases rule: bindS_cases) (auto simp: on_store_def ret_def split: prod.splits)
      then show ?thesis using that(2) by blast
    qed
  qed
next
  case (RevokeBroadcast i epoch sig)
  show ?thesis
  proof (cases "authorised E (operators E (n_home n) (n_store n)) req f i \<and> ed_key_ok (e_crates E) (public_key (m_sender req))")
    case False
    then have "n_store n' = n_store n \<and> n_home n' = n_home n"
      using assms RevokeBroadcast
      by (auto simp: handle_core_def authorised_def verifying_key_def dest!: reply_thenD split: if_splits)
    then show ?thesis using that(1) by blast
  next
    case True
    then have "bindS (on_store (revoke_identity E (n_home n) i)) (\<lambda>_.
        reply_then E req (AppCore (RevokeAck epoch)) (Some (''revoked '' @ finger E i))) n = (n', r)"
      using assms RevokeBroadcast by (simp add: handle_core_def authorised_def verifying_key_def)
    then have "\<exists>x. revoke_identity E (n_home n) i (n_store n) = (n_store n', x) \<and> n_home n' = n_home n"
      by (cases rule: bindS_cases) (auto simp: on_store_def dest!: reply_thenD split: prod.splits)
    then show ?thesis using that(3) True by blast
  qed
next
  case (ReconcileMissing hs)
  then show ?thesis using assms by (intro that(1)) (auto simp: handle_core_def)
next
  case (RevokeAck epoch)
  then show ?thesis using assms by (intro that(1)) (auto simp: handle_core_def)
next
  case (RevokeRefuse epoch reason)
  then show ?thesis using assms by (intro that(1)) (auto simp: handle_core_def)
next
  case (CoError msg)
  then show ?thesis using assms by (intro that(1)) (auto simp: handle_core_def)
qed

section \<open>Histories of a core\<close>

datatype core_event =
    CoreMsg message core_frame
  | StorageMsg message storage_frame
  | Faults "path \<Rightarrow> fault option" "path \<Rightarrow> bool"

fun core_event_step :: "env \<Rightarrow> core_event \<Rightarrow> node \<Rightarrow> node" where
  "core_event_step E (CoreMsg req f) n = fst (handle_core E req f n)"
| "core_event_step E (StorageMsg req f) n = fst (handle_storage E req f n)"
| "core_event_step E (Faults wr rd) n = n\<lparr>n_store := (n_store n)\<lparr>st_wfault := wr, st_rfault := rd\<rparr>\<rparr>"

definition core_events :: "env \<Rightarrow> core_event list \<Rightarrow> node \<Rightarrow> node" where
  "core_events E es n = fold (core_event_step E) es n"

text \<open>Histories in which both documents stay readable and file ids are plain names.\<close>

fun steady :: "path \<Rightarrow> core_event \<Rightarrow> bool" where
  "steady home (Faults wr rd) \<longleftrightarrow> \<not> rd (revocations_path home) \<and> \<not> rd (operators_path home)"
| "steady home (StorageMsg req (StoreChunks fid m cs)) \<longleftrightarrow> plain_name fid"
| "steady home _ \<longleftrightarrow> True"

definition docs_readable :: "node \<Rightarrow> bool" where
  "docs_readable n \<longleftrightarrow> \<not> st_rfault (n_store n) (revocations_path (n_home n))
     \<and> \<not> st_rfault (n_store n) (operators_path (n_home n))"

lemma handle_storage_cases:
  assumes "handle_storage E req f n = (n', r)"
  obtains "n_store n' = n_store n" "n_home n' = n_home n"
  | fid m cs x where "f = StoreChunks fid m cs" "n_home n' = n_home n"
      "store_chunks E (n_home n) (m_sender req) fid m cs (n_store n) = (n_store n', x)"
proof (cases f)
  case (StoreChunks fid m cs)
  obtain s1 x where st: "store_chunks E (n_home n) (m_sender req) fid m cs (n_store n) = (s1, x)"
    by (cases "store_chunks E (n_home n) (m_sender req) fid m cs (n_store n)")
  then have "n_store n' = s1 \<and> n_home n' = n_home n"
    using assms StoreChunks
    by (cases x) (auto simp: handle_storage_def on_store_def dest!: reply_thenD)
  then show ?thesis using that(2) StoreChunks st by blast
next
  case (FetchChunks fid off)
  then show ?thesis using assms
    by (intro that(1)) (auto simp: handle_storage_def dest!: reply_thenD split: sum.splits)
next
  case (StoreAck fid)
  then show ?thesis using assms by (intro that(1)) (auto simp: handle_storage_def)
next
  case (StoredChunks fid m cs)
  then show ?thesis using assms by (intro that(1)) (auto simp: handle_storage_def)
next
  case (StError msg)
  then show ?thesis using assms by (intro that(1)) (auto simp: handle_storage_def)
qed

lemma core_event_docs:
  assumes "hex_text (e_crates E)" and "hex_names (e_crates E)" and "codec_ok (fingerprints E)"
    and "steady (n_home n) ev" and "docs_readable n"
  defines "n' \<equiv> core_event_step E ev n"
  shows "n_home n' = n_home n \<and> docs_readable n'
    \<and> operators E (n_home n) (n_store n') = operators E (n_home n) (n_store n)
    \<and> (revoked_set E (n_home n) (n_store n') = revoked_set E (n_home n) (n_store n)
       \<or> (\<exists>req f i. ev = CoreMsg req f \<and> authorised E (operators E (n_home n) (n_store n)) req f i
            \<and> revoked_set E (n_home n) (n_store n') = insert (finger E i) (revoked_set E (n_home n) (n_store n))))"
    (is "?goal")
proof -
  have unchanged: ?goal if "n_home n' = n_home n" "same_faults (n_store n) (n_store n')"
    "same_file (revocations_path (n_home n)) (n_store n) (n_store n')"
    "same_file (operators_path (n_home n)) (n_store n) (n_store n')"
    using that assms(5) load_doc_same [OF that(3), of "fingerprints E" "{}"]
      load_doc_same [OF that(4), of "fingerprints E" "{}"]
    by (simp add: docs_readable_def same_faults_def operators_def revoked_set_def)
  have idle: ?goal if "n_home n' = n_home n" "n_store n' = n_store n"
    using that same_faults_preorder(1) by (intro unchanged) (simp_all add: reflp_def)
  show ?thesis
  proof (cases ev)
    case (CoreMsg req f)
    then have "handle_core E req f n = (n', snd (handle_core E req f n))" by (simp add: n'_def)
    then show ?thesis
    proof (cases rule: handle_core_cases)
      case 1
      then show ?thesis by (intro idle)
    next
      case (2 h b x)
      then show ?thesis
        by (intro unchanged preservesD [OF same_faults_take_chunk 2(1)]
            preservesD [OF take_chunk_keeps [OF assms(1)] 2(1)])
          (simp_all add: revocations_path_def operators_path_def)
    next
      case (3 i x)
      have sv: "save_doc (fingerprints E) (revocations_tmp (n_home n)) (revocations_path (n_home n))
          (insert (finger E i) (revoked_set E (n_home n) (n_store n))) (n_store n) = (n_store n', x)"
        using 3(1) by (simp add: revoke_identity_def add_revoked_def write_revoked_def)
      have "same_file (operators_path (n_home n)) (n_store n) (n_store n')"
        using sv by (intro preservesD [OF same_file_doc sv])
          (simp_all add: revocations_tmp revocations_path_def operators_path_def)
      then have op: "operators E (n_home n) (n_store n') = operators E (n_home n) (n_store n)"
        unfolding operators_def by (rule load_doc_same)
      have ad: "add_revoked E (n_home n) (finger E i) (n_store n) = (n_store n', x)"
        using 3(1) by (simp add: revoke_identity_def)
      have rd: "doc_readable (revocations_path (n_home n)) (n_store n)"
        using assms(5) by (simp add: docs_readable_def doc_readable_def)
      have "revoked_set E (n_home n) (n_store n') = revoked_set E (n_home n) (n_store n)
        \<or> revoked_set E (n_home n) (n_store n') = insert (finger E i) (revoked_set E (n_home n) (n_store n))"
      proof (cases x)
        case (Inl e)
        with ad revocations.add_failed [of E "n_home n" "finger E i" "n_store n" "n_store n'" e] show ?thesis by simp
      next
        case (Inr u)
        with ad rd revocations.add_member [of E "n_home n" "finger E i" "n_store n" "n_store n'" u] assms(3)
        show ?thesis by (simp add: codec_ok_atI)
      qed
      moreover have "docs_readable n'"
        using assms(5) 3(2) save_doc_env [OF sv] by (simp add: docs_readable_def)
      ultimately show ?thesis using 3(2,3) op CoreMsg by blast
    qed
  next
    case (StorageMsg req f)
    then have "handle_storage E req f n = (n', snd (handle_storage E req f n))" by (simp add: n'_def)
    then show ?thesis
    proof (cases rule: handle_storage_cases)
      case 1
      then show ?thesis by (intro idle)
    next
      case (2 fid m cs x)
      then have fid: "plain_name fid" using assms(4) StorageMsg by simp
      show ?thesis
        by (intro unchanged 2(2) preservesD [OF same_faults_store 2(3)]
            preservesD [OF same_file_store [OF assms(2)] 2(3)])
          (simp_all add: revocations_path_def operators_path_def blob_dir_plain [OF fid])
    qed
  next
    case (Faults wr rd)
    then have "n_home n' = n_home n" "docs_readable n'" using assms(4) by (simp_all add: n'_def docs_readable_def)
    moreover have "load_doc (fingerprints E) {} p (n_store n') = load_doc (fingerprints E) {} p (n_store n)"
      if "\<not> rd p" "\<not> st_rfault (n_store n) p" for p
      using that Faults by (intro load_doc_cong) (simp_all add: n'_def file_at_def is_dir_def)
    ultimately show ?thesis using assms(4,5) Faults
      by (simp add: docs_readable_def operators_def revoked_set_def)
  qed
qed

text \<open>C14: a core revokes only what its operators signed, and forgets no revocation. Over any
  history of core and storage requests and disk faults that leave the two documents readable, the
  operators stay as they were, the revocations only grow, and each new one was broadcast by an
  operator whose signature covers just this identity and epoch.\<close>

theorem revocations_authorised:
  assumes "hex_text (e_crates E)" and "hex_names (e_crates E)" and "codec_ok (fingerprints E)"
    and "list_all (steady (n_home n)) es" and "docs_readable n"
  shows "n_home (core_events E es n) = n_home n \<and> docs_readable (core_events E es n)
    \<and> operators E (n_home n) (n_store (core_events E es n)) = operators E (n_home n) (n_store n)
    \<and> revoked_set E (n_home n) (n_store n) \<subseteq> revoked_set E (n_home n) (n_store (core_events E es n))
    \<and> (\<forall>x \<in> revoked_set E (n_home n) (n_store (core_events E es n)) - revoked_set E (n_home n) (n_store n).
        \<exists>req f i. CoreMsg req f \<in> set es \<and> authorised E (operators E (n_home n) (n_store n)) req f i
          \<and> x = finger E i)"
  using assms(4,5)
proof (induction es arbitrary: n)
  case Nil
  then show ?case by (simp add: core_events_def)
next
  case (Cons ev es)
  let ?n1 = "core_event_step E ev n"
  have ev: "steady (n_home n) ev" using Cons.prems(1) by simp
  note st = core_event_docs [OF assms(1-3) ev Cons.prems(2)]
  have tail: "core_events E (ev # es) n = core_events E es ?n1" by (simp add: core_events_def)
  have "list_all (steady (n_home ?n1)) es" "docs_readable ?n1" using Cons.prems(1) st by simp_all
  note ih = Cons.IH [OF this]
  let ?O = "operators E (n_home n) (n_store n)" and ?R = "\<lambda>k. revoked_set E (n_home n) (n_store k)"
  let ?new = "\<lambda>es x. \<exists>req f i. CoreMsg req f \<in> set es \<and> authorised E ?O req f i \<and> x = finger E i"
  have home: "n_home ?n1 = n_home n" and ops: "operators E (n_home n) (n_store ?n1) = ?O" using st by blast+
  have "?new (ev # es) x" if x: "x \<in> ?R (core_events E es ?n1)" "x \<notin> ?R n" for x
  proof (cases "x \<in> ?R ?n1")
    case True
    with x(2) st obtain req f i where "ev = CoreMsg req f" "authorised E ?O req f i" "x = finger E i" by auto
    then show ?thesis by (metis list.set_intros(1))
  next
    case False
    with ih x(1) have "?new es x" unfolding home ops by blast
    then show ?thesis by (metis list.set_intros(2))
  qed
  moreover have "?R n \<subseteq> ?R ?n1" using st by auto
  ultimately show ?case using ih unfolding tail home ops by blast
qed

lemma acknowledged_revokes:
  assumes "handle_core E req (RevokeBroadcast i epoch sig) n = (n', Inr (Some (''revoked '' @ finger E i)))"
    and "docs_readable n" and "codec_ok (fingerprints E)"
  shows "finger E i \<in> revoked_set E (n_home n) (n_store n')" "n_home n' = n_home n" "docs_readable n'"
proof -
  have "bindS (on_store (revoke_identity E (n_home n) i)) (\<lambda>_.
      reply_then E req (AppCore (RevokeAck epoch)) (Some (''revoked '' @ finger E i))) n
      = (n', Inr (Some (''revoked '' @ finger E i)))"
    using assms(1) by (auto simp: handle_core_def dest!: reply_thenD split: if_splits sum.splits)
  then obtain u where rv: "revoke_identity E (n_home n) i (n_store n) = (n_store n', Inr u)"
    and home: "n_home n' = n_home n"
    by (cases rule: bindS_cases) (auto simp: on_store_def dest!: reply_thenD split: prod.splits)
  then have ad: "add_revoked E (n_home n) (finger E i) (n_store n) = (n_store n', Inr u)"
    by (simp add: revoke_identity_def)
  with revocations.add_member [OF ad] assms(2,3) show "finger E i \<in> revoked_set E (n_home n) (n_store n')"
    by (simp add: codec_ok_atI docs_readable_def doc_readable_def)
  show "n_home n' = n_home n" by (rule home)
  show "docs_readable n'" using assms(2) home preservesD [OF same_faults_revoke rv]
    by (simp add: docs_readable_def same_faults_def)
qed


text \<open>A core with one operator, who revokes somebody.\<close>

definition operator_node :: node where
  "operator_node = demo_node \<lparr>st_files = [([''h'', ''operators.json''], [1, 0])], st_dirs = [[''h'']],
     st_wfault = (\<lambda>_. None), st_rfault = (\<lambda>_. False)\<rparr>"

definition demo_revoke :: core_frame where
  "demo_revoke = RevokeBroadcast \<lparr>public_key = [67]\<rparr> 5 ([66] @ revoke_payload 5 \<lparr>public_key = [67]\<rparr>)"

definition operator_request :: message where
  "operator_request = demo_request \<lparr>public_key = [66]\<rparr>"

lemma hex_crates_text: "hex_text hex_crates"
  using hex_crates_names by (simp add: hex_text_def hex_names_def hex_crates_def)

lemma operator_docs: "docs_readable operator_node" "n_home operator_node = [''h'']"
  by (simp_all add: docs_readable_def operator_node_def)

lemma demo_payload: "revoke_payload 5 \<lparr>public_key = [67]\<rparr> = [5, 0, 0, 0, 0, 0, 0, 0, 67]"
  by (simp add: revoke_payload_def le_bytes64_def upt_rec)

lemma demo_revoked:
  "operators core_env [''h''] (n_store operator_node) = {''a42''}" "revoked_set core_env [''h''] (n_store operator_node) = {}"
  by code_simp+

lemma demo_revoke_run:
  "\<exists>n. handle_core core_env operator_request demo_revoke operator_node = (n, Inr (Some ''revoked a43''))
     \<and> ''a43'' \<in> revoked_set core_env [''h''] (n_store n)"
proof -
  let ?i = "\<lparr>public_key = [67]\<rparr>"
  let ?r = "revoke_identity core_env [''h''] ?i (n_store operator_node)"
  have fp: "finger core_env \<lparr>public_key = [66]\<rparr> = ''a42''" "finger core_env ?i = ''a43''" by code_simp+
  have "snd ?r = Inr ()" by code_simp
  then have r: "?r = (fst ?r, Inr ())" by (metis prod.collapse)
  have m: "''a43'' \<in> revoked_set core_env [''h''] (fst ?r)" by code_simp
  have v: "verifying_key (e_crates core_env) \<lparr>public_key = [66]\<rparr> = Inr [66]"
    "ed_verify (e_crates core_env) [66] p ([66] @ p)" for p
    by (simp_all add: core_env_simps verifying_key_def hex_crates_def demo_crates_def)
  have s: "m_sender operator_request = \<lparr>public_key = [66]\<rparr>"
    by (simp add: operator_request_def demo_request_def)
  have "handle_core core_env operator_request demo_revoke operator_node
      = reply_then core_env operator_request (AppCore (RevokeAck 5)) (Some ''revoked a43'') (operator_node\<lparr>n_store := fst ?r\<rparr>)"
    unfolding handle_core_def demo_revoke_def core_frame.case s fp operator_docs(2) demo_revoked(1)
    by (subst v(1)) (simp add: v(2) [simplified] bindS_def on_store_def, subst r, simp)
  then show ?thesis using m by (intro exI [of _ "fst (reply_then core_env operator_request (AppCore (RevokeAck 5))
      (Some ''revoked a43'') (operator_node\<lparr>n_store := fst ?r\<rparr>))"]) (simp add: reply_then_def handler_defs reply_frame [OF surjective_pairing])
qed

lemma core_env_oks:
  "hex_text (e_crates core_env)" "hex_names (e_crates core_env)" "codec_ok (fingerprints core_env)"
  unfolding core_env_simps by (simp_all add: hex_crates_text hex_crates_names line_codec_ok)

lemma revocations_authorised_witness:
  "\<exists>f i. CoreMsg operator_request f \<in> {CoreMsg operator_request demo_revoke} \<and> authorised core_env {''a42''} operator_request f i
     \<and> ''a43'' = finger core_env i"
proof -
  let ?es = "[CoreMsg operator_request demo_revoke]"
  obtain n where n: "handle_core core_env operator_request demo_revoke operator_node = (n, Inr (Some ''revoked a43''))"
    "''a43'' \<in> revoked_set core_env [''h''] (n_store n)" using demo_revoke_run by blast
  have "list_all (steady (n_home operator_node)) ?es" by (simp add: demo_revoke_def)
  note r = revocations_authorised [OF core_env_oks this operator_docs(1), unfolded operator_docs(2) demo_revoked]
  have "core_events core_env ?es operator_node = n" by (simp add: core_events_def n(1))
  with r n(2) show ?thesis by auto
qed


end
