(* ===== verification/AppRendezvous.thy ===== *)
theory AppRendezvous
  imports App
begin

text \<open>
  \<open>src/app/rendezvous.rs\<close>: a core that remembers, for a while, at which address an identity says it
  can be reached. The record file is a map from fingerprints to records; a \<open>HashMap\<close> is an
  association list, whose order is the order of enumeration.
\<close>

type_synonym records = "(string \<times> endpoint_record) list"

definition DEFAULT_TTL :: u64 where "DEFAULT_TTL = 6 * 3600"
definition MAX_TTL :: u64 where "MAX_TTL = 24 * 3600"

definition records_path :: "path \<Rightarrow> path" where
  "records_path home = home @ [''rendezvous.json'']"

definition records_tmp :: "path \<Rightarrow> path" where
  "records_tmp home = home @ [with_extension ''tmp'' ''rendezvous.json'']"

definition all_records :: "env \<Rightarrow> path \<Rightarrow> store \<Rightarrow> records" where
  "all_records E home = load_doc (k_records (e_codecs E)) [] (records_path home)"

definition write_records :: "env \<Rightarrow> path \<Rightarrow> records \<Rightarrow> (store, io_error, unit) op" where
  "write_records E home = save_doc (k_records (e_codecs E)) (records_tmp home) (records_path home)"

definition prune :: "u64 \<Rightarrow> records \<Rightarrow> records" where
  "prune now rs = filter (\<lambda>(fp, r). now < ep_expires_at r) rs"

definition clamp :: "u64 \<Rightarrow> u64 \<Rightarrow> u64 \<Rightarrow> u64" where
  "clamp lo hi x = (if x < lo then lo else if hi < x then hi else x)"

text \<open>\<open>now + ttl\<close>: the sum is assumed not to wrap, which needs a clock beyond 5e11 years.\<close>

definition claim :: "public_identity \<Rightarrow> string \<Rightarrow> u32 \<Rightarrow> u64 \<Rightarrow> endpoint_record" where
  "claim i addr ttl now = \<lparr>ep_identity = i, ep_address = addr, ep_last_seen = now,
     ep_expires_at = now + clamp 60 MAX_TTL (ucast ttl)\<rparr>"

definition rz_register :: "env \<Rightarrow> path \<Rightarrow> public_identity \<Rightarrow> string \<Rightarrow> u32 \<Rightarrow> (store, io_error, unit) op" where
  "rz_register E home i addr ttl s =
     (let now = e_now E in
      write_records E home
        (prune now (AList.update (finger E i) (claim i addr ttl now) (all_records E home s))) s)"

definition rz_lookup :: "env \<Rightarrow> path \<Rightarrow> string \<Rightarrow> store \<Rightarrow> endpoint_record list" where
  "rz_lookup E home fp s =
     map snd (filter (\<lambda>(k, r). k = fp) (prune (e_now E) (all_records E home s)))"

definition rz_list :: "env \<Rightarrow> path \<Rightarrow> store \<Rightarrow> endpoint_record list" where
  "rz_list E home s = sort_key ep_last_seen (map snd (prune (e_now E) (all_records E home s)))"

definition register_frame_with_ttl :: "env \<Rightarrow> node \<Rightarrow> string \<Rightarrow> u32 \<Rightarrow> rendezvous_frame" where
  "register_frame_with_ttl E n addr ttl =
     Register addr ttl (sign_with (e_crates E) (n_identity n) (utf8_bytes addr))"

definition register_frame :: "env \<Rightarrow> node \<Rightarrow> string \<Rightarrow> rendezvous_frame" where
  "register_frame E n addr = register_frame_with_ttl E n addr (ucast DEFAULT_TTL)"

definition handle_rendezvous :: "env \<Rightarrow> message \<Rightarrow> rendezvous_frame \<Rightarrow> handler" where
  "handle_rendezvous E req f n = (case f of
       Register addr ttl sig \<Rightarrow>
         (case verifying_key (e_crates E) (m_sender req) of
            Inl _ \<Rightarrow> reply_then E req (AppRendezvous (RError ''bad caller key'')) None n
          | Inr key \<Rightarrow>
              if \<not> ed_verify (e_crates E) key (utf8_bytes addr) sig
              then reply_then E req (AppRendezvous (RError ''registration signature invalid'')) None n
              else bindS (on_store (rz_register E (n_home n) (m_sender req) addr ttl)) (\<lambda>_.
                     reply_then E req (AppRendezvous Registered) None) n)
     | Lookup fp \<Rightarrow>
         reply_then E req (AppRendezvous (LookupResult fp (rz_lookup E (n_home n) fp (n_store n)))) None n
     | RList \<Rightarrow> reply_then E req (AppRendezvous (ListResult (rz_list E (n_home n) (n_store n)))) None n
     | Probe fp \<Rightarrow>
         reply_then E req (AppRendezvous (ProbeResult fp (rz_lookup E (n_home n) fp (n_store n) \<noteq> []))) None n
     | Registered \<Rightarrow> (n, Inr (Some ''registered with rendezvous''))
     | ListResult rs \<Rightarrow> (n, Inr None)
     | LookupResult fp cs \<Rightarrow>
         (n, Inr (Some (''rendezvous lookup '' @ fp @ '':'' @ newline @
            (if cs = [] then ''(none)''
             else join_with newline (map (\<lambda>c. finger E (ep_identity c) @ '' @ '' @ ep_address c) cs)))))
     | ProbeResult fp alive \<Rightarrow>
         (n, Inr (Some (''probe '' @ fp @ '': '' @ (if alive then ''alive'' else ''not found''))))
     | RError msg \<Rightarrow> (n, Inr (Some (''rendezvous error: '' @ msg))))"

lemma records_tmp: "records_tmp home = home @ [''rendezvous.tmp'']"
  by (simp add: records_tmp_def) (code_simp)

interpretation records: persisted "all_records E home" "write_records E home"
    "codec_ok_at (k_records (e_codecs E))" "doc_readable (records_path home)"
    "doc_healthy (records_tmp home) (records_path home)" "doc_storable (k_records (e_codecs E))"
  for E :: env and home :: path
  unfolding all_records_def write_records_def
  by (rule doc_persisted) (simp add: records_tmp records_path_def)

section \<open>Histories of a rendezvous\<close>

text \<open>A message comes with the time at which it is handled.\<close>

datatype rz_event =
    RzMsg u64 message rendezvous_frame
  | RzFaults "path \<Rightarrow> fault option" "path \<Rightarrow> bool"

fun rz_step :: "env \<Rightarrow> rz_event \<Rightarrow> node \<Rightarrow> node" where
  "rz_step E (RzMsg t req f) n = fst (handle_rendezvous (at_time E t) req f n)"
| "rz_step E (RzFaults wr rd) n = n\<lparr>n_store := (n_store n)\<lparr>st_wfault := wr, st_rfault := rd\<rparr>\<rparr>"

definition rz_events :: "env \<Rightarrow> rz_event list \<Rightarrow> node \<Rightarrow> node" where
  "rz_events E es n = fold (rz_step E) es n"

text \<open>A record that an accepted registration explains.\<close>

definition explained :: "env \<Rightarrow> rz_event set \<Rightarrow> string \<Rightarrow> endpoint_record \<Rightarrow> bool" where
  "explained E es fp r \<longleftrightarrow> (\<exists>t req ttl sig. RzMsg t req (Register (ep_address r) ttl sig) \<in> es
     \<and> ep_identity r = m_sender req \<and> fp = finger E (m_sender req)
     \<and> ed_verify (e_crates E) (public_key (m_sender req)) (utf8_bytes (ep_address r)) sig
     \<and> ep_last_seen r = t \<and> ep_expires_at r = t + clamp 60 MAX_TTL (ucast ttl))"

definition records_from :: "env \<Rightarrow> rz_event set \<Rightarrow> records \<Rightarrow> bool" where
  "records_from E es rs \<longleftrightarrow> distinct (map fst rs) \<and> (\<forall>(fp, r) \<in> set rs. explained E es fp r)"

lemma records_from_mono: "records_from E es rs \<Longrightarrow> es \<subseteq> es' \<Longrightarrow> records_from E es' rs"
  unfolding records_from_def explained_def by blast

lemma records_from_prune: "records_from E es rs \<Longrightarrow> records_from E es (prune now rs)"
  by (auto simp: records_from_def prune_def distinct_map_filter)

lemma records_from_update:
  assumes "records_from E es rs" and "explained E es fp r"
  shows "records_from E es (AList.update fp r rs)"
proof -
  have d: "distinct (map fst (AList.update fp r rs))" using assms(1) by (simp add: records_from_def distinct_update)
  have "explained E es k v" if "(k, v) \<in> set (AList.update fp r rs)" for k v
  proof -
    have "map_of (AList.update fp r rs) k = Some v" using d that by (rule map_of_is_SomeI)
    then have "k = fp \<and> v = r \<or> map_of rs k = Some v" by (auto split: if_splits)
    then show ?thesis using assms by (auto simp: records_from_def dest: map_of_SomeD)
  qed
  with d show ?thesis by (auto simp: records_from_def)
qed

definition record_file :: "env \<Rightarrow> path \<Rightarrow> rz_event set \<Rightarrow> store \<Rightarrow> bool" where
  "record_file E home es s \<longleftrightarrow> (\<forall>b rs. file_at s (records_path home) = Some b \<longrightarrow>
     dec (k_records (e_codecs E)) b = Some rs \<longrightarrow> records_from E es rs)"

lemma all_records_from:
  assumes "record_file E home es s"
  shows "records_from E es (all_records E home s)"
proof -
  have "records_from E es []" by (simp add: records_from_def)
  then show ?thesis using assms
    by (auto simp: all_records_def load_doc_def record_file_def fs_read_def ok_or_def split: sum.splits option.splits)
qed

lemma write_records_file:
  assumes "write_records E home rs s = (s', r)" and "record_file E home es s" and "records_from E es rs"
    and "codec_ok (k_records (e_codecs E))"
  shows "record_file E home es s'"
proof -
  have sv: "save_doc (k_records (e_codecs E)) (records_tmp home) (records_path home) rs s = (s', r)"
    using assms(1) by (simp add: write_records_def)
  have ne: "records_tmp home \<noteq> records_path home" by (simp add: records_tmp records_path_def)
  show ?thesis
  proof (cases r)
    case (Inl e)
    with sv save_doc_err [of _ "records_tmp home" "records_path home" rs s s' e "records_path home"] ne
    have "file_at s' (records_path home) = file_at s (records_path home)" by metis
    then show ?thesis using assms(2) by (simp add: record_file_def)
  next
    case (Inr u)
    with sv obtain b where b: "enc (k_records (e_codecs E)) rs = Some b"
      "write_then_rename (records_tmp home) (records_path home) b s = (s', Inr u)" by (auto elim: save_doc_ok)
    then have "file_at s' (records_path home) = Some b" using write_then_rename_ok [OF b(2) ne] by simp
    then show ?thesis using codec_okD [OF assms(4) b(1)] assms(3) by (simp add: record_file_def)
  qed
qed

lemma handle_rendezvous_cases:
  assumes "handle_rendezvous E req f n = (n', r)"
  obtains "n_store n' = n_store n" "n_home n' = n_home n"
  | addr ttl sig x where "f = Register addr ttl sig"
      "ed_verify (e_crates E) (public_key (m_sender req)) (utf8_bytes addr) sig"
      "rz_register E (n_home n) (m_sender req) addr ttl (n_store n) = (n_store n', x)" "n_home n' = n_home n"
proof (cases f)
  case (Register addr ttl sig)
  show ?thesis
  proof (cases "ed_key_ok (e_crates E) (public_key (m_sender req)) \<and>
      ed_verify (e_crates E) (public_key (m_sender req)) (utf8_bytes addr) sig")
    case False
    then have "n_store n' = n_store n \<and> n_home n' = n_home n"
      using assms Register by (auto simp: handle_rendezvous_def verifying_key_def dest!: reply_thenD split: if_splits)
    then show ?thesis using that(1) by blast
  next
    case True
    then have "bindS (on_store (rz_register E (n_home n) (m_sender req) addr ttl)) (\<lambda>_.
        reply_then E req (AppRendezvous Registered) None) n = (n', r)"
      using assms Register by (simp add: handle_rendezvous_def verifying_key_def)
    then have "\<exists>x. rz_register E (n_home n) (m_sender req) addr ttl (n_store n) = (n_store n', x) \<and> n_home n' = n_home n"
      by (cases rule: bindS_cases) (auto simp: on_store_def dest!: reply_thenD split: prod.splits)
    then show ?thesis using that(2) Register True by blast
  qed
next
  case Registered
  then show ?thesis using assms by (intro that(1)) (auto simp: handle_rendezvous_def)
next
  case (Lookup fp)
  then show ?thesis using assms by (intro that(1)) (auto simp: handle_rendezvous_def dest!: reply_thenD)
next
  case (LookupResult fp cs)
  then show ?thesis using assms by (intro that(1)) (auto simp: handle_rendezvous_def)
next
  case RList
  then show ?thesis using assms by (intro that(1)) (auto simp: handle_rendezvous_def dest!: reply_thenD)
next
  case (ListResult rs)
  then show ?thesis using assms by (intro that(1)) (auto simp: handle_rendezvous_def)
next
  case (Probe fp)
  then show ?thesis using assms by (intro that(1)) (auto simp: handle_rendezvous_def dest!: reply_thenD)
next
  case (ProbeResult fp alive)
  then show ?thesis using assms by (intro that(1)) (auto simp: handle_rendezvous_def)
next
  case (RError msg)
  then show ?thesis using assms by (intro that(1)) (auto simp: handle_rendezvous_def)
qed

lemma at_time_records [simp]:
  "all_records (at_time E t) = all_records E" "write_records (at_time E t) = write_records E"
  by (simp_all add: fun_eq_iff all_records_def write_records_def)

lemma rz_step_file:
  assumes "record_file E (n_home n) es (n_store n)" and "codec_ok (k_records (e_codecs E))"
  shows "record_file E (n_home n) (insert ev es) (n_store (rz_step E ev n)) \<and> n_home (rz_step E ev n) = n_home n"
proof -
  have up: "record_file E (n_home n) (insert ev es) s" if "record_file E (n_home n) es s" for s
    using that records_from_mono [of E es _ "insert ev es"] unfolding record_file_def by blast
  show ?thesis
  proof (cases ev)
    case (RzMsg t req f)
    let ?n' = "fst (handle_rendezvous (at_time E t) req f n)"
    have "handle_rendezvous (at_time E t) req f n = (?n', snd (handle_rendezvous (at_time E t) req f n))" by simp
    then show ?thesis
    proof (cases rule: handle_rendezvous_cases)
      case 1
      then show ?thesis using RzMsg up [OF assms(1)] by simp
    next
      case (2 addr ttl sig x)
      let ?r = "claim (m_sender req) addr ttl t"
      let ?rs = "AList.update (finger E (m_sender req)) ?r (all_records E (n_home n) (n_store n))"
      have w: "write_records E (n_home n) (prune t ?rs) (n_store n) = (n_store ?n', x)"
        using 2(3) by (simp add: rz_register_def Let_def)
      have "explained E (insert ev es) (finger E (m_sender req)) ?r"
        using RzMsg 2(1,2) by (auto simp: explained_def claim_def)
      then have "records_from E (insert ev es) (prune t ?rs)"
        using all_records_from [OF up [OF assms(1)]] by (intro records_from_prune records_from_update)
      from write_records_file [OF w up [OF assms(1)] this assms(2)] 2(4) RzMsg show ?thesis by simp
    qed
  next
    case (RzFaults wr rd)
    then show ?thesis using up [OF assms(1)] by (simp add: record_file_def file_at_def)
  qed
qed

lemma rz_events_file:
  assumes "record_file E (n_home n) es (n_store n)" and "codec_ok (k_records (e_codecs E))"
  shows "record_file E (n_home n) (es \<union> set evs) (n_store (rz_events E evs n)) \<and> n_home (rz_events E evs n) = n_home n"
  using assms(1)
proof (induction evs arbitrary: n es)
  case Nil
  then show ?case by (simp add: rz_events_def)
next
  case (Cons ev evs)
  note st = rz_step_file [OF Cons.prems assms(2), of ev]
  with Cons.IH [of "rz_step E ev n" "insert ev es"] show ?case by (simp add: rz_events_def)
qed

section \<open>What a lookup says\<close>

lemma clamp_window: "60 \<le> unat (clamp 60 MAX_TTL x)" "unat (clamp 60 MAX_TTL x) \<le> 86400"
  by (auto simp: clamp_def MAX_TTL_def word_less_nat_alt not_less)

lemma filter_key_single:
  assumes "distinct (map fst rs)" and "(k, r) \<in> set rs"
  shows "filter (\<lambda>(k', r). k' = k) rs = [(k, r)]"
  using assms by (induction rs) (auto simp: filter_empty_conv image_iff)

lemma rz_lookup_single:
  assumes "distinct (map fst (all_records E home s))" and "r \<in> set (rz_lookup E home fp s)"
  shows "rz_lookup E home fp s = [r]" "(fp, r) \<in> set (all_records E home s)" "e_now E < ep_expires_at r"
proof -
  let ?p = "prune (e_now E) (all_records E home s)"
  have r: "(fp, r) \<in> set ?p" using assms(2) by (auto simp: rz_lookup_def)
  then show "(fp, r) \<in> set (all_records E home s)" "e_now E < ep_expires_at r" by (auto simp: prune_def)
  have "distinct (map fst ?p)" using assms(1) by (simp add: prune_def distinct_map_filter)
  from filter_key_single [OF this r] show "rz_lookup E home fp s = [r]" by (simp add: rz_lookup_def)
qed


text \<open>On a healthy disk the frame a device builds for its own address is accepted.\<close>

lemma register_accepted:
  assumes "ed_complete (e_crates E)" and "codec_ok (k_records (e_codecs E))"
    and "m_sender req = node_public E dev"
    and "doc_healthy (records_tmp (n_home n)) (records_path (n_home n)) (n_store n)"
    and "doc_readable (records_path (n_home n)) (n_store n)"
    and "enc (k_records (e_codecs E)) (prune t (AList.update (finger E (node_public E dev))
          (claim (node_public E dev) addr ttl t) (all_records E (n_home n) (n_store n)))) \<noteq> None"
    and "handle_rendezvous (at_time E t) req (register_frame_with_ttl E dev addr ttl) n = (n', res)"
  shows "res = Inr None" "all_records E (n_home n) (n_store n') = prune t (AList.update (finger E (node_public E dev))
     (claim (node_public E dev) addr ttl t) (all_records E (n_home n) (n_store n)))"
proof -
  let ?i = "node_public E dev" and ?h = "n_home n"
  let ?rs = "prune t (AList.update (finger E ?i) (claim ?i addr ttl t) (all_records E ?h (n_store n)))"
  have key: "verifying_key (e_crates E) ?i = Inr (public_key ?i)"
    "ed_verify (e_crates E) (public_key ?i) b (sign_with (e_crates E) (n_identity dev) b)" for b
    using assms(1) by (simp_all add: verifying_key_def node_public_def public_of_def sign_with_def
        ed_complete_key ed_complete_verify)
  have "doc_storable (k_records (e_codecs E)) ?rs" using assms(6) by (simp add: doc_storable_def)
  then obtain s' where w: "write_records E ?h ?rs (n_store n) = (s', Inr ())"
    using records.save_total assms(4) by blast
  then have rs': "all_records E ?h s' = ?rs"
    using records.load_save [OF w] assms(2,5) by (simp add: codec_ok_atI)
  have "rz_register (at_time E t) ?h ?i addr ttl (n_store n) = (s', Inr ())"
    using w by (simp add: rz_register_def Let_def)
  then have "handle_rendezvous (at_time E t) req (register_frame_with_ttl E dev addr ttl) n
      = reply_then (at_time E t) req (AppRendezvous Registered) None (n\<lparr>n_store := s'\<rparr>)"
    using key assms(3) by (simp add: handle_rendezvous_def register_frame_with_ttl_def bindS_def on_store_def)
  then have "n_store n' = s' \<and> res = Inr None"
    using assms(7) reply_thenD [of "at_time E t" req "AppRendezvous Registered" None "n\<lparr>n_store := s'\<rparr>" n' res]
    by simp
  with rs' show "res = Inr None" "all_records E (n_home n) (n_store n') = ?rs" by blast+
qed

text \<open>C29: a device that registers is found. On a healthy disk the frame a device builds for its own
  address is accepted, the device's own lookup result until the expiry is that address, and what
  is found for every other fingerprint from then on is what it was.\<close>

theorem register_then_found:
  assumes "ed_complete (e_crates E)" and "codec_ok (k_records (e_codecs E))"
    and "m_sender req = node_public E dev"
    and "doc_healthy (records_tmp (n_home n)) (records_path (n_home n)) (n_store n)"
    and "doc_readable (records_path (n_home n)) (n_store n)"
    and "enc (k_records (e_codecs E)) (prune t (AList.update (finger E (node_public E dev))
          (claim (node_public E dev) addr ttl t) (all_records E (n_home n) (n_store n)))) \<noteq> None"
    and "distinct (map fst (all_records E (n_home n) (n_store n)))"
    and "handle_rendezvous (at_time E t) req (register_frame_with_ttl E dev addr ttl) n = (n', res)"
    and "unat t < 2 ^ 63" and "t \<le> now" and "now < t + clamp 60 MAX_TTL (ucast ttl)"
  shows "res = Inr None
    \<and> rz_lookup (at_time E now) (n_home n) (finger E (node_public E dev)) (n_store n')
      = [claim (node_public E dev) addr ttl t]
    \<and> (\<forall>fp. fp \<noteq> finger E (node_public E dev) \<longrightarrow>
        rz_lookup (at_time E now) (n_home n) fp (n_store n') = rz_lookup (at_time E now) (n_home n) fp (n_store n))"
proof -
  let ?i = "node_public E dev" and ?h = "n_home n"
  let ?r = "claim ?i addr ttl t" and ?s' = "n_store n'"
  let ?old = "all_records E ?h (n_store n)"
  note acc = register_accepted [OF assms(1-6,8)]
  have d: "distinct (map fst (AList.update (finger E ?i) ?r ?old))" using assms(7) by (simp add: distinct_update)
  have nw: "unat (t + clamp 60 MAX_TTL (ucast ttl)) = unat t + unat (clamp 60 MAX_TTL (ucast ttl))"
    using clamp_window(2) [of "ucast ttl"] assms(9) by (simp add: unat_word_ariths)
  then have live: "t < t + clamp 60 MAX_TTL (ucast ttl)"
    using clamp_window(1) [of "ucast ttl"] by (simp add: word_less_nat_alt)
  have two: "prune now (prune t rs) = prune now rs" for rs
    using assms(10) by (auto simp: prune_def intro!: filter_cong)
  have look: "rz_lookup (at_time E now) ?h fp ?s' = map snd (filter (\<lambda>(k, r). k = fp) (prune now
      (AList.update (finger E ?i) ?r ?old)))" for fp
    by (simp add: rz_lookup_def acc(2) two)
  have mem: "(finger E ?i, ?r) \<in> set (prune now (AList.update (finger E ?i) ?r ?old))"
    using assms(11) map_of_SomeD [of "AList.update (finger E ?i) ?r ?old" "finger E ?i" ?r]
    by (simp add: prune_def claim_def)
  have "distinct (map fst (prune now (AList.update (finger E ?i) ?r ?old)))"
    using d by (simp add: prune_def distinct_map_filter)
  from filter_key_single [OF this mem] have "rz_lookup (at_time E now) ?h (finger E ?i) ?s' = [?r]"
    by (simp add: look)
  moreover have "rz_lookup (at_time E now) ?h fp ?s' = rz_lookup (at_time E now) ?h fp (n_store n)"
    if "fp \<noteq> finger E ?i" for fp
  proof -
    have swap: "filter (\<lambda>(k, r). k = fp) (prune now rs) = prune now (filter (\<lambda>(k, r). k = fp) rs)" for rs
      unfolding prune_def filter_filter by (rule filter_cong) auto
    have "filter (\<lambda>(k, r). k = fp) (AList.update k' v rs) = filter (\<lambda>(k, r). k = fp) rs"
      if "fp \<noteq> k'" for k' v and rs :: records
      using that by (induction rs) auto
    with that show ?thesis unfolding look swap by (simp add: rz_lookup_def swap)
  qed
  ultimately show ?thesis using acc(1) by simp
qed

text \<open>A device that registers for a hundred seconds.\<close>

definition rz_device :: node where
  "rz_device = (demo_node (fresh_store []))\<lparr>n_identity := \<lparr>signing_key = [66], key_path = []\<rparr>\<rparr>"

definition rz_env :: env where
  "rz_env = (demo_env 0)\<lparr>e_codecs := demo_app_codecs\<lparr>k_records :=
     table_codec [[(''B'', claim \<lparr>public_key = [66]\<rparr> ''x'' 100 1000)]]\<rparr>\<rparr>"

definition rz_core :: node where
  "rz_core = demo_node (fresh_store [''h''])"

definition rz_frame :: rendezvous_frame where
  "rz_frame = register_frame_with_ttl rz_env rz_device ''x'' 100"

lemma rz_env_simps:
  "k_records (e_codecs rz_env) = table_codec [[(''B'', claim \<lparr>public_key = [66]\<rparr> ''x'' 100 1000)]]"
  "e_crates rz_env = demo_crates" "node_public rz_env rz_device = \<lparr>public_key = [66]\<rparr>"
  by (simp_all add: rz_env_def demo_env_def demo_app_codecs_def node_public_def rz_device_def public_of_def
      demo_crates_def)

lemma rz_finger: "finger rz_env \<lparr>public_key = [66]\<rparr> = ''B''"
  by code_simp

lemma rz_live: "now < 1100 \<Longrightarrow> prune now [(''B'', claim \<lparr>public_key = [66]\<rparr> ''x'' 100 1000)] = [(''B'', claim \<lparr>public_key = [66]\<rparr> ''x'' 100 1000)]"
  by (simp add: prune_def claim_def clamp_def MAX_TTL_def)

lemma rz_core_start: "all_records rz_env [''h''] (n_store rz_core) = []" "n_home rz_core = [''h'']"
  "file_at (n_store rz_core) (records_path [''h'']) = None"
  "doc_healthy (records_tmp [''h'']) (records_path [''h'']) (n_store rz_core)"
  "doc_readable (records_path [''h'']) (n_store rz_core)"
  by (simp_all add: rz_core_def all_records_def load_doc_def fs_read_def fresh_store_def file_at_def ok_or_def
      is_dir_def prefixes_of_def records_path_def doc_healthy_def writable_def records_tmp doc_readable_def)

lemma rz_storable: "enc (k_records (e_codecs rz_env)) (prune 1000 (AList.update (finger rz_env (node_public rz_env rz_device))
    (claim (node_public rz_env rz_device) ''x'' 100 1000) (all_records rz_env (n_home rz_core) (n_store rz_core)))) \<noteq> None"
  by (simp add: rz_env_simps rz_finger rz_core_start rz_live table_codec_def)

definition rz_request :: message where "rz_request = demo_request \<lparr>public_key = [66]\<rparr>"

definition rz_after :: node where
  "rz_after = fst (handle_rendezvous (at_time rz_env 1000) rz_request rz_frame rz_core)"

lemma rz_sender: "m_sender rz_request = node_public rz_env rz_device"
  by (simp add: rz_request_def demo_request_def rz_env_simps)

lemma rz_run: "handle_rendezvous (at_time rz_env 1000) rz_request (register_frame_with_ttl rz_env rz_device ''x'' 100) rz_core
    = (rz_after, snd (handle_rendezvous (at_time rz_env 1000) rz_request rz_frame rz_core))"
  by (simp add: rz_after_def rz_frame_def)

lemma rz_oks: "ed_complete (e_crates rz_env)" "codec_ok (k_records (e_codecs rz_env))"
  by (simp_all add: rz_env_simps demo_ed_complete table_codec_ok)

lemma rz_registered: "rz_lookup (at_time rz_env 1050) [''h''] ''B'' (n_store rz_after) = [claim \<lparr>public_key = [66]\<rparr> ''x'' 100 1000]"
proof -
  have "all_records rz_env [''h''] (n_store rz_after) = [(''B'', claim \<lparr>public_key = [66]\<rparr> ''x'' 100 1000)]"
    using register_accepted(2) [OF rz_oks rz_sender rz_core_start(4,5) [folded rz_core_start(2)] rz_storable rz_run]
    by (simp add: rz_env_simps rz_finger rz_core_start rz_live)
  then show ?thesis by (simp add: rz_lookup_def rz_live)
qed


lemma register_then_found_witness:
  "snd (handle_rendezvous (at_time rz_env 1000) rz_request rz_frame rz_core) = Inr None
    \<and> rz_lookup (at_time rz_env 1050) [''h''] ''B'' (n_store rz_after) = [claim \<lparr>public_key = [66]\<rparr> ''x'' 100 1000]
    \<and> rz_lookup (at_time rz_env 1050) [''h''] ''C'' (n_store rz_after) = []"
proof -
  have "distinct (map fst (all_records rz_env (n_home rz_core) (n_store rz_core)))" by (simp add: rz_core_start)
  from register_then_found [OF rz_oks rz_sender rz_core_start(4,5) [folded rz_core_start(2)] rz_storable this rz_run,
      of 1050]
  show ?thesis
    by (simp add: rz_env_simps rz_finger rz_core_start clamp_def MAX_TTL_def)
      (simp add: rz_lookup_def prune_def rz_core_start)
qed

end
