(* ===== verification/AppLobby.thy ===== *)
theory AppLobby
  imports App
begin

text \<open>
  \<open>src/app/lobby.rs\<close>: hosting a lobby (who may join, relaying posts), receiving relayed posts, and
  private channels. The lobbies a process hosts are a map from home directory and name to the
  host's state; the members of a lobby, a set of identities, are a list without duplicates whose
  order is the order of enumeration.
\<close>

definition host_entry :: "node \<Rightarrow> string \<Rightarrow> host_state option" where
  "host_entry n name = map_of (n_hosts n) (n_home n, name)"

definition put_host :: "string \<Rightarrow> host_state \<Rightarrow> node \<Rightarrow> node" where
  "put_host name st n = n\<lparr>n_hosts := AList.update (n_home n, name) st (n_hosts n)\<rparr>"

record lobby_options =
  lo_title :: string
  lo_welcome :: string
  lo_max_members :: "nat option"

definition register_host :: "string \<Rightarrow> string \<Rightarrow> lobby_options \<Rightarrow> node \<Rightarrow> node" where
  "register_host name key opts n = put_host name \<lparr>hs_key = key, hs_members = [], hs_title = lo_title opts,
     hs_welcome = lo_welcome opts, hs_max_members = lo_max_members opts\<rparr> n"

definition key_bytes :: "crates \<Rightarrow> string \<Rightarrow> bytes option" where
  "key_bytes C key = (case hex_decode C key of None \<Rightarrow> None
     | Some b \<Rightarrow> if length b = 32 then Some b else None)"

datatype join_decision = Admitted host_state | Full | WrongKey | UnknownLobby

definition at_cap :: "host_state \<Rightarrow> bool" where
  "at_cap st = (case hs_max_members st of None \<Rightarrow> False | Some cap \<Rightarrow> cap \<le> length (hs_members st))"

definition admit :: "public_identity \<Rightarrow> host_state \<Rightarrow> host_state" where
  "admit i st = st\<lparr>hs_members := (if i \<in> set (hs_members st) then hs_members st else hs_members st @ [i])\<rparr>"

definition decide_join :: "node \<Rightarrow> public_identity \<Rightarrow> string \<Rightarrow> string \<Rightarrow> join_decision" where
  "decide_join n i name key = (case host_entry n name of
       None \<Rightarrow> UnknownLobby
     | Some st \<Rightarrow> if hs_key st \<noteq> key then WrongKey else if at_cap st then Full else Admitted (admit i st))"

text \<open>The loop over the members: each gets the same payload under a fresh id; the count is of the
  messages the router took.\<close>

fun relay_all :: "env \<Rightarrow> bytes \<Rightarrow> nat \<Rightarrow> public_identity list \<Rightarrow> node \<Rightarrow> node \<times> nat" where
  "relay_all E payload k [] n = (n, 0)"
| "relay_all E payload k (i # is) n =
     (let (n1, r) = send_raw E \<lparr>m_id = e_ids E k, m_sender = node_public E n, m_recipient = i,
            m_payload = payload\<rparr> n;
          (n2, c) = relay_all E payload (Suc k) is n1 in
      (n2, if is_ok r then Suc c else c))"

definition refuse :: "env \<Rightarrow> message \<Rightarrow> string \<Rightarrow> handler" where
  "refuse E req msg = reply_then E req (AppLobby (Refuse msg)) None"

text \<open>What happens to a post whose key is right and that decrypts to \<open>t\<close>.\<close>

definition relay_post :: "env \<Rightarrow> message \<Rightarrow> string \<Rightarrow> bytes \<Rightarrow> bytes \<Rightarrow> string \<Rightarrow> public_identity list \<Rightarrow> handler" where
  "relay_post E req name nonce ct t members n =
     bindS (on_store (append_lobby (e_now E) (n_home n) name (finger E (m_sender req)) t)) (\<lambda>_.
     bindS (lift_result (frame_encode (k_app (e_codecs E)) (AppLobby (Relay name nonce ct)))) (\<lambda>payload n1.
       case relay_all E payload 0 members n1 of (n2, relayed) \<Rightarrow>
         reply_then E req (AppLobby (Posted name relayed))
           (Some (''[lobby '' @ name @ ''] '' @ finger E (m_sender req) @ '' posts relayed to '' @
              show_nat relayed @ '' member(s): '' @ t)) n2)) n"

definition handle_lobby :: "env \<Rightarrow> message \<Rightarrow> lobby_frame \<Rightarrow> handler" where
  "handle_lobby E req f n = (case f of
       Join name key \<Rightarrow>
         (case decide_join n (m_sender req) name key of
            Full \<Rightarrow> refuse E req ''lobby is at its member cap'' n
          | Admitted st \<Rightarrow> reply_then E req (AppLobby (Joined name (hs_title st) (hs_welcome st)))
              (Some (''[lobby '' @ name @ ''] '' @ finger E (m_sender req) @ '' joined'')) (put_host name st n)
          | WrongKey \<Rightarrow> refuse E req ''wrong lobby key'' n
          | UnknownLobby \<Rightarrow> refuse E req (''no lobby named '' @ debug_str name @ '' is hosted here'') n)
     | Post name key nonce ct \<Rightarrow>
         (case host_entry n name of
            None \<Rightarrow> refuse E req ''wrong lobby key or no such lobby'' n
          | Some st \<Rightarrow>
              if hs_key st \<noteq> key then refuse E req ''wrong lobby key or no such lobby'' n
              else (case key_bytes (e_crates E) key of
                  None \<Rightarrow> refuse E req ''malformed lobby key'' n
                | Some kb \<Rightarrow>
                    (case lobby_decrypt (e_crates E) kb nonce ct of
                       Inl _ \<Rightarrow> refuse E req ''could not decrypt post'' n
                     | Inr t \<Rightarrow> relay_post E req name nonce ct (utf8_lossy (e_crates E) t) (hs_members st) n)))
     | Relay name nonce ct \<Rightarrow>
         (case find_roster (k_roster (e_codecs E)) (n_home n) name (n_store n) of
            None \<Rightarrow> (n, Inr None)
          | Some l \<Rightarrow>
              if finger E (m_sender req) \<noteq> ml_host_fingerprint l then (n, Inr None)
              else (case key_bytes (e_crates E) (ml_key_hex l) of
                  None \<Rightarrow> (n, Inr None)
                | Some kb \<Rightarrow>
                    (case lobby_decrypt (e_crates E) kb nonce ct of
                       Inl _ \<Rightarrow> (n, Inr None)
                     | Inr b \<Rightarrow>
                         (let t = utf8_lossy (e_crates E) b in
                          bindS (on_store (append_lobby (e_now E) (n_home n) name (finger E (m_sender req)) t))
                            (\<lambda>_. ret (Some (''[lobby '' @ name @ ''] '' @ finger E (m_sender req) @ '': '' @ t)))
                            n))))
     | Leave name \<Rightarrow>
         reply_then E req (AppLobby (Left name))
           (Some (''[lobby '' @ name @ ''] '' @ finger E (m_sender req) @ '' left''))
           (case host_entry n name of
              None \<Rightarrow> n
            | Some st \<Rightarrow> put_host name (st\<lparr>hs_members := removeAll (m_sender req) (hs_members st)\<rparr>) n)
     | Members name \<Rightarrow>
         reply_then E req (AppLobby (MemberList (case host_entry n name of
             None \<Rightarrow> [] | Some st \<Rightarrow> sort (map (finger E) (hs_members st))))) None n
     | Refuse msg \<Rightarrow> (n, Inr (Some (''lobby refused: '' @ msg)))
     | _ \<Rightarrow> (n, Inr None))"

definition handle_channel :: "env \<Rightarrow> message \<Rightarrow> channel_frame \<Rightarrow> handler" where
  "handle_channel E req f n = (case f of
       ChSend t \<Rightarrow>
         bindS (on_store (append_channel (e_now E) (n_home n) (finger E (m_sender req)) t)) (\<lambda>_.
           reply_then E req (AppChannel (ChAck (e_now E)))
             (Some (''[channel] '' @ finger E (m_sender req) @ '': '' @ t))) n
     | ChAck at \<Rightarrow> (n, Inr (Some (''channel ack at '' @ show_nat (unat at)))))"

section \<open>What one frame changes\<close>

lemma relay_all_frame:
  assumes "relay_all E p k is n = (n2, c)"
  shows "n_hosts n2 = n_hosts n" "n_home n2 = n_home n" "n_store n2 = n_store n" "n_identity n2 = n_identity n"
    "m \<in> set (n_outbox n2) \<Longrightarrow> m \<in> set (n_outbox n) \<or> m_payload m = p \<and> m_recipient m \<in> set is"
    "c \<le> length is"
proof -
  have "n_hosts n2 = n_hosts n \<and> n_home n2 = n_home n \<and> n_store n2 = n_store n \<and> n_identity n2 = n_identity n
    \<and> (\<forall>m \<in> set (n_outbox n2). m \<in> set (n_outbox n) \<or> m_payload m = p \<and> m_recipient m \<in> set is) \<and> c \<le> length is"
    using assms
  proof (induction "is" arbitrary: k n c)
    case Nil
    then show ?case by simp
  next
    case (Cons i "is")
    obtain n1 r where s: "send_raw E \<lparr>m_id = e_ids E k, m_sender = node_public E n, m_recipient = i,
        m_payload = p\<rparr> n = (n1, r)" by (cases "send_raw E \<lparr>m_id = e_ids E k, m_sender = node_public E n,
        m_recipient = i, m_payload = p\<rparr> n")
    obtain c' where c': "relay_all E p (Suc k) is n1 = (n2, c')" "c \<le> Suc c'"
      using Cons.prems s by (cases "relay_all E p (Suc k) is n1") (auto split: if_splits)
    note sf = send_raw_frame [OF s] and ih = Cons.IH [OF c'(1)]
    have "m \<in> set (n_outbox n1) \<Longrightarrow> m \<in> set (n_outbox n) \<or> m_payload m = p \<and> m_recipient m = i" for m
      using sf(5) by auto
    with ih sf(1-4) c'(2) show ?case by auto
  qed
  then show "n_hosts n2 = n_hosts n" "n_home n2 = n_home n" "n_store n2 = n_store n" "n_identity n2 = n_identity n"
    "m \<in> set (n_outbox n2) \<Longrightarrow> m \<in> set (n_outbox n) \<or> m_payload m = p \<and> m_recipient m \<in> set is"
    "c \<le> length is" by blast+
qed

lemma reply_then_outbox:
  assumes "reply_then E req g h n = (n', r)" and "codec_ok (k_app (e_codecs E))" and "m \<in> set (n_outbox n')"
  shows "m \<in> set (n_outbox n) \<or> frame_decode (k_app (e_codecs E)) (m_payload m) = g"
  using reply_then_sends [of E n req g h] assms(1,3) frame_roundtrip [OF assms(2)]
  by (auto simp: sends_def)

text \<open>Whether a payload is a relayed post.\<close>

definition relays :: "env \<Rightarrow> bytes \<Rightarrow> bool" where
  "relays E b \<longleftrightarrow> (\<exists>name nonce ct. frame_decode (k_app (e_codecs E)) b = AppLobby (Relay name nonce ct))"

definition accepts_post :: "env \<Rightarrow> node \<Rightarrow> string \<Rightarrow> string \<Rightarrow> bytes \<Rightarrow> bytes \<Rightarrow> host_state \<Rightarrow> bool" where
  "accepts_post E n name key nonce ct st \<longleftrightarrow> host_entry n name = Some st \<and> hs_key st = key
     \<and> (\<exists>kb t. key_bytes (e_crates E) key = Some kb \<and> lobby_decrypt (e_crates E) kb nonce ct = Inr t)"

lemma relay_post_effect:
  assumes "relay_post E req name nonce ct t members n = (n', r)" and "codec_ok (k_app (e_codecs E))"
  shows "n_hosts n' = n_hosts n" "n_home n' = n_home n"
    "m \<in> set (n_outbox n') \<Longrightarrow> m \<in> set (n_outbox n) \<or> \<not> relays E (m_payload m)
       \<or> m_recipient m \<in> set members \<and> frame_decode (k_app (e_codecs E)) (m_payload m) = AppLobby (Relay name nonce ct)"
proof -
  let ?goal = "n_hosts n' = n_hosts n \<and> n_home n' = n_home n \<and> (\<forall>m \<in> set (n_outbox n').
       m \<in> set (n_outbox n) \<or> \<not> relays E (m_payload m)
       \<or> m_recipient m \<in> set members \<and> frame_decode (k_app (e_codecs E)) (m_payload m) = AppLobby (Relay name nonce ct))"
  from assms(1) have "bindS (on_store (append_lobby (e_now E) (n_home n) name (finger E (m_sender req)) t)) (\<lambda>_.
     bindS (lift_result (frame_encode (k_app (e_codecs E)) (AppLobby (Relay name nonce ct)))) (\<lambda>payload n1.
       case relay_all E payload 0 members n1 of (n2, relayed) \<Rightarrow>
         reply_then E req (AppLobby (Posted name relayed))
           (Some (''[lobby '' @ name @ ''] '' @ finger E (m_sender req) @ '' posts relayed to '' @
              show_nat relayed @ '' member(s): '' @ t)) n2)) n = (n', r)"
    by (simp add: relay_post_def)
  then have ?goal
  proof (cases rule: bindS_cases)
    case (1 e)
    then show ?thesis by (auto simp: on_store_def split: prod.splits)
  next
    case (2 u n1)
    then have n1: "n_hosts n1 = n_hosts n" "n_home n1 = n_home n" "n_outbox n1 = n_outbox n"
      by (auto simp: on_store_def split: prod.splits)
    from 2(2) show ?thesis
    proof (cases rule: bindS_cases)
      case (1 e)
      then show ?thesis using n1 by (simp add: lift_result_def)
    next
      case (2 payload n1')
      then have enc: "n1' = n1" "frame_encode (k_app (e_codecs E)) (AppLobby (Relay name nonce ct)) = Inr payload"
        by (simp_all add: lift_result_def)
      obtain n2 c where r2: "relay_all E payload 0 members n1 = (n2, c)" by (cases "relay_all E payload 0 members n1")
      let ?h = "Some (''[lobby '' @ name @ ''] '' @ finger E (m_sender req) @ '' posts relayed to '' @
              show_nat c @ '' member(s): '' @ t)"
      have rp: "reply_then E req (AppLobby (Posted name c)) ?h n2 = (n', r)"
        using 2(2) enc(1) r2 by simp
      note f = relay_all_frame [OF r2] and dec = frame_roundtrip [OF assms(2) enc(2)]
      have "m \<in> set (n_outbox n) \<or> \<not> relays E (m_payload m)
         \<or> m_recipient m \<in> set members \<and> frame_decode (k_app (e_codecs E)) (m_payload m) = AppLobby (Relay name nonce ct)"
        if "m \<in> set (n_outbox n')" for m
        using reply_then_outbox [OF rp assms(2) that] f(5) [of m] dec n1(3) by (auto simp: relays_def)
      then show ?thesis using reply_thenD [OF rp] f(1,2) n1(1,2) by simp
    qed
  qed
  then show "n_hosts n' = n_hosts n" "n_home n' = n_home n"
    "m \<in> set (n_outbox n') \<Longrightarrow> m \<in> set (n_outbox n) \<or> \<not> relays E (m_payload m)
       \<or> m_recipient m \<in> set members \<and> frame_decode (k_app (e_codecs E)) (m_payload m) = AppLobby (Relay name nonce ct)"
    by blast+
qed

definition silent :: "env \<Rightarrow> node \<Rightarrow> node \<Rightarrow> bool" where
  "silent E n n' \<longleftrightarrow> n_home n' = n_home n \<and> (\<forall>m \<in> set (n_outbox n'). m \<in> set (n_outbox n) \<or> \<not> relays E (m_payload m))"

lemma silent_refl [simp]: "silent E n n"
  by (simp add: silent_def)

lemma silent_reply:
  assumes "reply_then E req (AppLobby g) h n0 = (n', r)" and "codec_ok (k_app (e_codecs E))"
    and "\<And>name nonce ct. g \<noteq> Relay name nonce ct" and "n_outbox n0 = n_outbox n" and "n_home n0 = n_home n"
  shows "silent E n n' \<and> n_hosts n' = n_hosts n0"
proof -
  have "m \<in> set (n_outbox n) \<or> \<not> relays E (m_payload m)" if "m \<in> set (n_outbox n')" for m
    using reply_then_outbox [OF assms(1,2) that] assms(3,4) by (auto simp: relays_def)
  then show ?thesis using reply_thenD [OF assms(1)] assms(5) by (simp add: silent_def)
qed

lemma put_host_simps [simp]:
  "n_home (put_host name st n) = n_home n" "n_outbox (put_host name st n) = n_outbox n"
  "host_entry (put_host name st n) name' = (if name' = name then Some st else host_entry n name')"
  by (auto simp: put_host_def host_entry_def)

lemma handle_lobby_cases:
  assumes "handle_lobby E req f n = (n', r)" and "codec_ok (k_app (e_codecs E))"
  obtains "silent E n n'" "n_hosts n' = n_hosts n"
  | name key st where "f = Join name key" "decide_join n (m_sender req) name key = Admitted st"
      "silent E n n'" "n_hosts n' = n_hosts (put_host name st n)"
  | name st where "f = Leave name" "host_entry n name = Some st" "silent E n n'"
      "n_hosts n' = n_hosts (put_host name (st\<lparr>hs_members := removeAll (m_sender req) (hs_members st)\<rparr>) n)"
  | name key nonce ct st where "f = Post name key nonce ct" "accepts_post E n name key nonce ct st"
      "n_hosts n' = n_hosts n" "n_home n' = n_home n"
      "\<forall>m \<in> set (n_outbox n'). m \<in> set (n_outbox n) \<or> \<not> relays E (m_payload m) \<or> m_recipient m \<in> set (hs_members st)
         \<and> frame_decode (k_app (e_codecs E)) (m_payload m) = AppLobby (Relay name nonce ct)"
proof -
  note quiet = that(1) and join = that(2) and leave = that(3) and post = that(4)
  have refused: thesis if "refuse E req msg n = (n', r)" for msg
    using silent_reply [OF that [unfolded refuse_def] assms(2), of n] quiet by simp
  have idle: thesis if "(n, x) = (n', r)" for x
    using that quiet by simp
  show thesis
  proof (cases f)
    case (Join name key)
    show thesis
    proof (cases "decide_join n (m_sender req) name key")
      case (Admitted st)
      then have "reply_then E req (AppLobby (Joined name (hs_title st) (hs_welcome st)))
          (Some (''[lobby '' @ name @ ''] '' @ finger E (m_sender req) @ '' joined'')) (put_host name st n) = (n', r)"
        using assms(1) Join by (simp add: handle_lobby_def)
      from silent_reply [OF this assms(2), of n] show thesis using join [OF Join Admitted] by simp
    qed (use assms(1) Join in \<open>simp_all add: handle_lobby_def refused\<close>)
  next
    case (Post name key nonce ct)
    show thesis
    proof (cases "\<exists>st. accepts_post E n name key nonce ct st")
      case True
      then obtain st t where st: "accepts_post E n name key nonce ct st"
        and "relay_post E req name nonce ct t (hs_members st) n = (n', r)"
        using assms(1) Post by (auto simp: handle_lobby_def accepts_post_def)
      from relay_post_effect [OF this(2) assms(2)] show thesis using post [OF Post st] by blast
    next
      case False
      then have "\<exists>msg. refuse E req msg n = (n', r)"
        using assms(1) Post by (auto simp: handle_lobby_def accepts_post_def split: option.splits if_splits sum.splits)
      then show thesis using refused by blast
    qed
  next
    case (Relay name nonce ct)
    have log: thesis if "bindS (on_store m) (\<lambda>_. ret x) n = (n', r)" for m and x :: handling
      using that by (cases rule: bindS_cases) (auto simp: on_store_def ret_def silent_def intro: quiet split: prod.splits)
    show thesis
      using assms(1) Relay
      by (auto simp: handle_lobby_def Let_def intro: idle log split: option.splits if_splits sum.splits)
  next
    case (Leave name)
    show thesis
    proof (cases "host_entry n name")
      case None
      then have "reply_then E req (AppLobby (Left name))
          (Some (''[lobby '' @ name @ ''] '' @ finger E (m_sender req) @ '' left'')) n = (n', r)"
        using assms(1) Leave by (simp add: handle_lobby_def)
      from silent_reply [OF this assms(2), of n] show thesis using quiet by simp
    next
      case (Some st)
      then have "reply_then E req (AppLobby (Left name))
          (Some (''[lobby '' @ name @ ''] '' @ finger E (m_sender req) @ '' left''))
          (put_host name (st\<lparr>hs_members := removeAll (m_sender req) (hs_members st)\<rparr>) n) = (n', r)"
        using assms(1) Leave by (simp add: handle_lobby_def)
      from silent_reply [OF this assms(2), of n] show thesis using leave [OF Leave Some] by simp
    qed
  next
    case (Members name)
    then obtain ms where "reply_then E req (AppLobby (MemberList ms)) None n = (n', r)"
      using assms(1) by (simp add: handle_lobby_def)
    from silent_reply [OF this assms(2), of n] show thesis using quiet by simp
  qed (use assms(1) in \<open>auto simp: handle_lobby_def intro: idle\<close>)
qed

section \<open>Histories of a host\<close>

datatype lobby_event =
    LMsg u64 message lobby_frame
  | LHost string string lobby_options
  | LFaults "path \<Rightarrow> fault option" "path \<Rightarrow> bool"

fun lobby_step :: "env \<Rightarrow> lobby_event \<Rightarrow> node \<Rightarrow> node" where
  "lobby_step E (LMsg t req f) n = fst (handle_lobby (at_time E t) req f n)"
| "lobby_step E (LHost name key opts) n = register_host name key opts n"
| "lobby_step E (LFaults wr rd) n = n\<lparr>n_store := (n_store n)\<lparr>st_wfault := wr, st_rfault := rd\<rparr>\<rparr>"

definition lobby_events :: "env \<Rightarrow> lobby_event list \<Rightarrow> node \<Rightarrow> node" where
  "lobby_events E es n = fold (lobby_step E) es n"

definition hosted :: "lobby_event set \<Rightarrow> string \<Rightarrow> string \<Rightarrow> nat option \<Rightarrow> bool" where
  "hosted es name key cap \<longleftrightarrow> (\<exists>opts. LHost name key opts \<in> es \<and> lo_max_members opts = cap)"

definition joined :: "lobby_event set \<Rightarrow> string \<Rightarrow> string \<Rightarrow> public_identity \<Rightarrow> bool" where
  "joined es name key i \<longleftrightarrow> (\<exists>t req. LMsg t req (Join name key) \<in> es \<and> m_sender req = i)"

definition posted :: "lobby_event set \<Rightarrow> string \<Rightarrow> string \<Rightarrow> bytes \<Rightarrow> bytes \<Rightarrow> bool" where
  "posted es name key nonce ct \<longleftrightarrow> (\<exists>t req. LMsg t req (Post name key nonce ct) \<in> es)"

definition host_ok :: "lobby_event set \<Rightarrow> string \<Rightarrow> host_state \<Rightarrow> bool" where
  "host_ok es name st \<longleftrightarrow> hosted es name (hs_key st) (hs_max_members st) \<and> distinct (hs_members st)
     \<and> (case hs_max_members st of None \<Rightarrow> True | Some cap \<Rightarrow> length (hs_members st) \<le> cap)
     \<and> (\<forall>i \<in> set (hs_members st). joined es name (hs_key st) i)"

definition relay_ok :: "env \<Rightarrow> lobby_event set \<Rightarrow> message \<Rightarrow> bool" where
  "relay_ok E es m \<longleftrightarrow> (\<forall>name nonce ct. frame_decode (k_app (e_codecs E)) (m_payload m) = AppLobby (Relay name nonce ct) \<longrightarrow>
     (\<exists>key kb t. posted es name key nonce ct \<and> joined es name key (m_recipient m)
        \<and> key_bytes (e_crates E) key = Some kb \<and> lobby_decrypt (e_crates E) kb nonce ct = Inr t))"

definition lobby_inv :: "env \<Rightarrow> lobby_event set \<Rightarrow> node \<Rightarrow> bool" where
  "lobby_inv E es n \<longleftrightarrow> (\<forall>name st. host_entry n name = Some st \<longrightarrow> host_ok es name st)
     \<and> (\<forall>m \<in> set (n_outbox n). relay_ok E es m)"

lemma happened_mono:
  assumes "es \<subseteq> es'"
  shows "host_ok es name st \<Longrightarrow> host_ok es' name st" "relay_ok E es m \<Longrightarrow> relay_ok E es' m"
  using assms unfolding host_ok_def hosted_def joined_def relay_ok_def posted_def by blast+

lemma host_ok_admit:
  assumes "host_ok es name st" and "\<not> at_cap st" and "joined es name (hs_key st) i"
  shows "host_ok es name (admit i st)"
  using assms by (auto simp: host_ok_def admit_def at_cap_def split: option.splits)

lemma host_ok_leave:
  assumes "host_ok es name st"
  shows "host_ok es name (st\<lparr>hs_members := removeAll i (hs_members st)\<rparr>)"
  using assms le_trans [OF length_removeAll_less_eq [of i "hs_members st"]]
  by (auto simp: host_ok_def distinct_removeAll split: option.splits)

lemma lobby_step_inv:
  assumes "lobby_inv E es n" and "codec_ok (k_app (e_codecs E))"
  shows "lobby_inv E (insert ev es) (lobby_step E ev n)"
proof (cases ev)
  case (LHost name key opts)
  then have "hosted (insert ev es) name key (lo_max_members opts)" by (auto simp: hosted_def)
  then have "host_ok (insert ev es) name \<lparr>hs_key = key, hs_members = [], hs_title = lo_title opts,
     hs_welcome = lo_welcome opts, hs_max_members = lo_max_members opts\<rparr>"
    by (simp add: host_ok_def split: option.splits)
  then show ?thesis using assms(1) happened_mono [OF subset_insertI] LHost
    by (auto simp: lobby_inv_def register_host_def)
next
  case (LFaults wr rd)
  then show ?thesis using assms(1) happened_mono [OF subset_insertI]
    by (auto simp: lobby_inv_def host_entry_def)
next
  case (LMsg t req f)
  let ?n' = "fst (handle_lobby (at_time E t) req f n)" and ?es = "insert ev es"
  have h: "handle_lobby (at_time E t) req f n = (?n', snd (handle_lobby (at_time E t) req f n))" by simp
  have old: "host_ok ?es name st" if "host_entry n name = Some st" for name st
    using assms(1) that happened_mono(1) [OF subset_insertI] by (simp add: lobby_inv_def)
  have said: "relay_ok E ?es m" if "m \<in> set (n_outbox n)" for m
    using assms(1) that happened_mono(2) [OF subset_insertI] by (simp add: lobby_inv_def)
  have quiet: "relay_ok E ?es m" if "silent (at_time E t) n n'" "m \<in> set (n_outbox n')" for n' m
    using that said by (auto simp: silent_def relays_def relay_ok_def)
  have entry: "host_entry n1 = host_entry n2" if "n_hosts n1 = n_hosts n2" "n_home n1 = n_home n2" for n1 n2
    using that by (simp add: host_entry_def fun_eq_iff)
  have "lobby_inv E ?es ?n'"
    using h assms(2) unfolding at_time_simps(2) [symmetric, of E t]
  proof (cases rule: handle_lobby_cases)
    case 1
    then have "host_entry ?n' = host_entry n" by (intro entry) (simp_all add: silent_def)
    then show ?thesis using old quiet [OF 1(1)] by (simp add: lobby_inv_def)
  next
    case (2 name key st)
    then have e: "host_entry ?n' = host_entry (put_host name st n)" by (intro entry) (simp_all add: silent_def)
    from 2(2) obtain st0 where st0: "host_entry n name = Some st0" "hs_key st0 = key" "\<not> at_cap st0"
      "st = admit (m_sender req) st0"
      by (auto simp: decide_join_def split: option.splits if_splits)
    have "joined ?es name key (m_sender req)" using LMsg 2(1) by (auto simp: joined_def)
    then have "host_ok ?es name st" using host_ok_admit [OF old [OF st0(1)] st0(3)] st0(2,4) by simp
    then show ?thesis using old quiet [OF 2(3)] unfolding lobby_inv_def e by simp
  next
    case (3 name st)
    then have e: "host_entry ?n' = host_entry (put_host name (st\<lparr>hs_members := removeAll (m_sender req) (hs_members st)\<rparr>) n)"
      by (intro entry) (simp_all add: silent_def)
    show ?thesis using old quiet [OF 3(3)] host_ok_leave [OF old [OF 3(2)]] unfolding lobby_inv_def e by simp
  next
    case (4 name key nonce ct st)
    then have e: "host_entry ?n' = host_entry n" by (intro entry)
    have st: "host_entry n name = Some st" "hs_key st = key" using 4(2) by (simp_all add: accepts_post_def)
    have p: "posted ?es name key nonce ct" using LMsg 4(1) by (auto simp: posted_def)
    have "relay_ok E ?es m" if m: "m \<in> set (n_outbox ?n')" for m
    proof -
      from 4(5) m consider "m \<in> set (n_outbox n)" | "\<not> relays E (m_payload m)"
        | "m_recipient m \<in> set (hs_members st)"
          "frame_decode (k_app (e_codecs E)) (m_payload m) = AppLobby (Relay name nonce ct)"
        by (auto simp: relays_def)
      then show ?thesis
      proof cases
        case 3
        then have "joined ?es name key (m_recipient m)" using old [OF st(1)] st(2) by (simp add: host_ok_def)
        then show ?thesis using 3(2) p 4(2) by (auto simp: relay_ok_def accepts_post_def)
      qed (use said in \<open>auto simp: relay_ok_def relays_def\<close>)
    qed
    then show ?thesis using old unfolding lobby_inv_def e by simp
  qed
  then show ?thesis using LMsg by simp
qed

text \<open>C7: a lobby's posts go to those who hold its key. After any history of hosting, frames and
  disk faults, the members of every hosted lobby are distinct, within its cap, and each joined with
  the lobby's present key; and every relayed post on its way out was posted under a key with which
  its recipient joined that lobby, decrypts under that key, and is forwarded as it was posted.\<close>

theorem lobby_relays_to_key_holders:
  assumes "codec_ok (k_app (e_codecs E))" and "n_hosts n = []" and "n_outbox n = []"
  shows "(\<forall>name st. host_entry (lobby_events E es n) name = Some st \<longrightarrow> host_ok (set es) name st)
    \<and> (\<forall>m \<in> set (n_outbox (lobby_events E es n)). relay_ok E (set es) m)"
proof -
  have "lobby_inv E (O1 \<union> set es) (lobby_events E es n)" if "lobby_inv E O1 n" for O1
    using that
  proof (induction es arbitrary: n O1)
    case Nil
    then show ?case by (simp add: lobby_events_def)
  next
    case (Cons ev es)
    from Cons.IH [OF lobby_step_inv [OF Cons.prems assms(1)]] show ?case by (simp add: lobby_events_def)
  qed
  moreover have "lobby_inv E {} n" using assms(2,3) by (simp add: lobby_inv_def host_entry_def)
  ultimately have "lobby_inv E (set es) (lobby_events E es n)" by fastforce
  then show ?thesis by (simp add: lobby_inv_def)
qed

text \<open>A lobby with one member; somebody who knows the key posts.\<close>

definition demo_key :: string where "demo_key = replicate 32 (CHR ''k'')"

definition demo_nonce :: bytes where "demo_nonce = replicate 24 2"

definition demo_post :: bytes where "demo_post = replicate 32 107 @ demo_nonce @ [104, 105]"

definition lobby_env :: env where
  "lobby_env = (demo_env 7)\<lparr>e_codecs := demo_app_codecs\<lparr>k_app := table_codec [AppLobby (Relay ''l'' demo_nonce demo_post)],
     k_message := \<lparr>enc = (\<lambda>_. Some []), dec = (\<lambda>_. None)\<rparr>\<rparr>\<rparr>"

definition demo_opts :: lobby_options where
  "demo_opts = \<lparr>lo_title = [], lo_welcome = [], lo_max_members = Some 1\<rparr>"

definition demo_lobby :: "lobby_event list" where
  "demo_lobby = [LHost ''l'' demo_key demo_opts, LMsg 1 (demo_request \<lparr>public_key = [66]\<rparr>) (Join ''l'' demo_key),
     LMsg 2 (demo_request \<lparr>public_key = [67]\<rparr>) (Post ''l'' demo_key demo_nonce demo_post)]"

lemma lobby_env_simps:
  "k_app (e_codecs lobby_env) = table_codec [AppLobby (Relay ''l'' demo_nonce demo_post)]"
  "k_message (e_codecs lobby_env) = \<lparr>enc = (\<lambda>_. Some []), dec = (\<lambda>_. None)\<rparr>" "e_crates lobby_env = demo_crates"
  by (simp_all add: lobby_env_def demo_env_def demo_app_codecs_def)

lemma demo_key_bytes: "key_bytes demo_crates demo_key = Some (replicate 32 107)"
  by code_simp

lemma demo_decrypts: "lobby_decrypt demo_crates (replicate 32 107) demo_nonce demo_post = Inr [104, 105]"
  by code_simp

lemma demo_unsent: "g \<noteq> Relay ''l'' demo_nonce demo_post \<Longrightarrow> reply_then (at_time lobby_env t) req (AppLobby g) h n = (n, Inr h)"
  by (simp add: reply_then_def reply_def frame_encode_def lobby_env_simps table_codec_def ok_or_def)

lemma demo_relay_encoded:
  "frame_encode (table_codec [AppLobby (Relay ''l'' demo_nonce demo_post)]) (AppLobby (Relay ''l'' demo_nonce demo_post)) = Inr []"
  by (simp add: frame_encode_def table_codec_def ok_or_def)

lemma demo_post_run:
  assumes n: "n_home n = [''h'']" "n_store n = fresh_store [''h'']" "n_outbox n = []" "host_entry n ''l'' = Some st"
    "hs_key st = demo_key" "hs_members st = [\<lparr>public_key = [66]\<rparr>]"
    and s: "m_sender req = \<lparr>public_key = [67]\<rparr>"
  shows "\<exists>m. n_outbox (fst (handle_lobby (at_time lobby_env 2) req (Post ''l'' demo_key demo_nonce demo_post) n)) = [m]
    \<and> m_payload m = []"
proof -
  let ?fp = "finger lobby_env \<lparr>public_key = [67]\<rparr>"
  let ?a = "append_lobby 2 [''h''] ''l'' ?fp (utf8_lossy demo_crates [104, 105]) (fresh_store [''h''])"
  have "snd ?a = Inr ()" by code_simp
  then obtain t where a: "?a = (t, Inr ())" by (metis prod.collapse)
  show ?thesis
    by (simp add: handle_lobby_def n lobby_env_simps demo_key_bytes demo_decrypts relay_post_def s on_store_def bindS_def
        a lift_result_def demo_relay_encoded send_raw_def validate_size_def ok_or_def demo_unsent MAX_MESSAGE_SIZE_def)
qed

lemma demo_lobby_run:
  "\<exists>m. n_outbox (lobby_events lobby_env demo_lobby (demo_node (fresh_store [''h'']))) = [m] \<and> m_payload m = []"
proof -
  let ?n = "demo_node (fresh_store [''h''])"
  let ?n1 = "register_host ''l'' demo_key demo_opts ?n"
  define st where "st = \<lparr>hs_key = demo_key, hs_members = [\<lparr>public_key = [66]\<rparr>], hs_title = [], hs_welcome = [],
    hs_max_members = Some (1 :: nat)\<rparr>"
  have s: "m_sender (demo_request i) = i" for i by (simp add: demo_request_def)
  have e1: "host_entry ?n1 ''l'' = Some (st\<lparr>hs_members := []\<rparr>)" by (simp add: register_host_def demo_opts_def st_def)
  have "fst (handle_lobby (at_time lobby_env 1) (demo_request \<lparr>public_key = [66]\<rparr>) (Join ''l'' demo_key) ?n1)
      = put_host ''l'' st ?n1"
    by (simp add: handle_lobby_def decide_join_def e1 at_cap_def admit_def s demo_unsent st_def)
  moreover have "n_home (put_host ''l'' st ?n1) = [''h'']" "n_store (put_host ''l'' st ?n1) = fresh_store [''h'']"
    "n_outbox (put_host ''l'' st ?n1) = []" "host_entry (put_host ''l'' st ?n1) ''l'' = Some st"
    by (simp_all add: register_host_def) (simp_all add: put_host_def)
  from demo_post_run [OF this, of "demo_request \<lparr>public_key = [67]\<rparr>"]
  have "\<exists>m. n_outbox (fst (handle_lobby (at_time lobby_env 2) (demo_request \<lparr>public_key = [67]\<rparr>)
      (Post ''l'' demo_key demo_nonce demo_post) (put_host ''l'' st ?n1))) = [m] \<and> m_payload m = []"
    by (simp add: st_def s)
  ultimately show ?thesis by (simp add: lobby_events_def demo_lobby_def)
qed

lemma lobby_relays_to_key_holders_witness:
  "let n = lobby_events lobby_env demo_lobby (demo_node (fresh_store [''h''])) in
     \<exists>m \<in> set (n_outbox n). frame_decode (table_codec [AppLobby (Relay ''l'' demo_nonce demo_post)]) (m_payload m)
         = AppLobby (Relay ''l'' demo_nonce demo_post)
       \<and> (\<exists>key. joined (set demo_lobby) ''l'' key (m_recipient m) \<and> posted (set demo_lobby) ''l'' key demo_nonce demo_post)"
proof -
  let ?n = "lobby_events lobby_env demo_lobby (demo_node (fresh_store [''h'']))"
  obtain m where m: "m \<in> set (n_outbox ?n)" "m_payload m = []"
    using demo_lobby_run by auto
  have d: "frame_decode (table_codec [AppLobby (Relay ''l'' demo_nonce demo_post)]) [] = AppLobby (Relay ''l'' demo_nonce demo_post)"
    by (rule frame_roundtrip [OF table_codec_ok demo_relay_encoded])
  have "codec_ok (k_app (e_codecs lobby_env))" by (simp add: lobby_env_simps table_codec_ok)
  from lobby_relays_to_key_holders [OF this, of "demo_node (fresh_store [''h''])" demo_lobby] m(1)
  have "relay_ok lobby_env (set demo_lobby) m" by simp
  then show ?thesis using m d unfolding relay_ok_def lobby_env_simps Let_def by metis
qed

end
