(* ===== verification/AppBurrow.thy ===== *)
theory AppBurrow
  imports App
begin

text \<open>
  \<open>src/app/burrow.rs\<close>: a peer browses, reads and forks the directory \<open>share\<close> of the node's home.
  Listing and reading look at the tree with symbolic links; a fork writes to the node's store, below
  \<open>forked\<close>. The lemmas bound what a frame can change and what its answer can contain.
\<close>

section \<open>The handler\<close>

definition share_root :: "node \<Rightarrow> path" where
  "share_root n = n_home n @ [''share'']"

definition fork_root :: "node \<Rightarrow> path" where
  "fork_root n = n_home n @ [''forked'']"

definition share :: "env \<Rightarrow> path \<Rightarrow> file_error + read_only_share" where
  "share E root = share_open (e_tree E) root"

definition list_share :: "env \<Rightarrow> node \<Rightarrow> string \<Rightarrow> file_error + entry list" where
  "list_share E n p = bindR (share E (share_root n)) (\<lambda>sh. share_list (e_osize E) (e_tree E) sh p)"

definition read_share :: "env \<Rightarrow> node \<Rightarrow> string \<Rightarrow> file_error + bytes" where
  "read_share E n p = bindR (share E (share_root n)) (\<lambda>sh. share_read (e_tree E) sh p)"

definition fork_share :: "env \<Rightarrow> node \<Rightarrow> string \<Rightarrow> (store, file_error, unit) op" where
  "fork_share E n p = bindS (lift_result (share E (share_root n))) (\<lambda>sh.
     share_fork (e_tree E) sh p (path_join (fork_root n) p))"

fun kind_mark :: "entry_kind \<Rightarrow> string" where
  "kind_mark KFile = []"
| "kind_mark KDirectory = ''/''"
| "kind_mark KSymlink = ''@''"

definition listing_line :: "entry \<Rightarrow> string" where
  "listing_line e = en_name e @ kind_mark (en_kind e) @ [CHR 0x09] @ show_nat (unat (en_size e))"

definition listing_text :: "entry list \<Rightarrow> string" where
  "listing_text es = (if es = [] then ''(empty)'' else join_with newline (map listing_line es))"

definition or_empty :: "string option \<Rightarrow> string" where
  "or_empty x = (case x of None \<Rightarrow> [] | Some s \<Rightarrow> s)"

definition handle_burrow :: "env \<Rightarrow> message \<Rightarrow> burrow_frame \<Rightarrow> handler" where
  "handle_burrow E req f n = (case f of
       BList p \<Rightarrow> (case list_share E n p of
           Inr es \<Rightarrow> reply_then E req (AppBurrow (BListing p es))
             (Some (''[burrow] '' @ finger E (m_sender req) @ '' browsed '' @ p)) n
         | Inl e \<Rightarrow> reply_then E req (AppBurrow (BError (Some p) (file_display e))) None n)
     | BRead p \<Rightarrow> (case read_share E n p of
           Inr b \<Rightarrow> reply_then E req (AppBurrow (BContent p b)) None n
         | Inl e \<Rightarrow> reply_then E req (AppBurrow (BError (Some p) (file_display e))) None n)
     | BFork p \<Rightarrow> (case on_store (fork_share E n p) n of
           (n1, Inr _) \<Rightarrow> reply_then E req (AppBurrow (BForkResult p True None))
             (Some (''[burrow] forked '' @ p)) n1
         | (n1, Inl e) \<Rightarrow> reply_then E req (AppBurrow (BForkResult p False (Some (file_display e)))) None n1)
     | BListing _ es \<Rightarrow> (n, Inr (Some (''[burrow] listing'' @ newline @ listing_text es)))
     | BContent p b \<Rightarrow> (n, Inr (Some (''[burrow] '' @ p @ '': '' @ show_nat (length b) @ '' bytes'')))
     | BForkResult p True _ \<Rightarrow> (n, Inr (Some (''[burrow] fork of '' @ p @ '' succeeded'')))
     | BForkResult p False e \<Rightarrow> (n, Inr (Some (''[burrow] fork of '' @ p @ '' failed: '' @ or_empty e)))
     | BError p m \<Rightarrow> (n, Inr (Some (''[burrow] '' @ or_empty p @ '': '' @ m))))"

section \<open>What the share opens to\<close>

text \<open>The names of a directory's entries are names.\<close>

definition tree_named :: "tree \<Rightarrow> bool" where
  "tree_named t \<longleftrightarrow> list_all (\<lambda>(p, _). list_all (\<lambda>c. \<not> skip_comp c \<and> c \<noteq> ''..'') p) t"

lemma dir_prefix: "tree_ok t \<Longrightarrow> node_at t (p @ q) = Some Dir \<Longrightarrow> node_at t p = Some Dir"
proof (induction q rule: rev_induct)
  case (snoc x q)
  then show ?case using tree_ok_parent [of t "p @ q @ [x]"] by (simp add: butlast_append)
qed simp

lemma dir_names: "tree_named t \<Longrightarrow> node_at t p = Some Dir \<Longrightarrow> list_all (\<lambda>c. \<not> skip_comp c \<and> c \<noteq> ''..'') p"
  by (auto simp: tree_named_def node_at_def list_all_iff split: if_splits dest!: map_of_SomeD)

text \<open>The real path of a directory leads to itself.\<close>

lemma resolve_real:
  "tree_ok t \<Longrightarrow> tree_named t \<Longrightarrow> node_at t (base @ p) = Some Dir \<Longrightarrow> resolve t n fl base p = Inr (base @ p)"
proof (induction p arbitrary: base)
  case (Cons c p)
  from dir_names [OF Cons.prems(2,3)] have c: "\<not> skip_comp c" "c \<noteq> ''..''" by simp_all
  have "node_at t (base @ [c]) = Some Dir" using dir_prefix [of t "base @ [c]" p] Cons.prems by simp
  with Cons.IH [of "base @ [c]"] Cons.prems c show ?case by (simp add: resolve_name)
qed simp

lemma share_open_root:
  assumes "share E root = Inr sh" and "tree_ok (e_tree E)" and "tree_named (e_tree E)"
  shows "canonicalize (e_tree E) root = Inr (sh_root sh)
    \<and> canonicalize (e_tree E) (sh_root sh) = Inr (sh_root sh)"
proof -
  obtain r where r: "canonicalize (e_tree E) root = Inr r" "node_at (e_tree E) r = Some Dir" "sh = \<lparr>sh_root = r\<rparr>"
    using assms(1) by (auto simp: share_def share_open_def bind_simps split: if_splits)
  moreover have "canonicalize (e_tree E) r = Inr r"
    using resolve_real [OF assms(2,3), of "[]" r MAX_LINKS True] r(2) by (simp add: canonicalize_def)
  ultimately show ?thesis by simp
qed

lemma read_share_inside:
  assumes "read_share E n p = Inr b" and "tree_ok (e_tree E)" and "tree_named (e_tree E)"
  shows "\<exists>root q. canonicalize (e_tree E) (share_root n) = Inr root \<and> prefix root q
    \<and> node_at (e_tree E) q = Some (Reg b)"
proof -
  obtain sh where sh: "share E (share_root n) = Inr sh" and rd: "share_read (e_tree E) sh p = Inr b"
    using assms(1) by (auto simp: read_share_def bind_simps)
  from share_read_inside [OF assms(2) rd] share_open_root [OF sh assms(2,3)] show ?thesis by auto
qed

section \<open>What a fork can write\<close>

lemma walk_path_below:
  "''..'' \<notin> set cs \<Longrightarrow> prefix base (walk_path base cs)"
proof (induction cs arbitrary: base)
  case (Cons c cs)
  show ?case
  proof (cases "skip_comp c")
    case True
    then show ?thesis using Cons by (simp add: skip_comp_def)
  next
    case False
    then have "c \<noteq> ''..''" "''..'' \<notin> set cs" using Cons.prems by auto
    from Cons.IH [OF this(2), of "base @ [c]"] have "prefix base (walk_path (base @ [c]) cs)"
      by (rule prefix_order.trans [rotated]) simp
    then show ?thesis using False \<open>c \<noteq> ''..''\<close> by (simp add: skip_comp_def)
  qed
qed simp

text \<open>The guard of a relative path also keeps what it is joined to below its base.\<close>

lemma safe_join_below:
  assumes "safe_relative_path t root rel = Inr x"
  shows "prefix base (path_join base rel)"
  using assms walk_path_below [of "split_on (CHR ''/'') rel" base]
  by (auto simp: safe_relative_path_def path_join_def Let_def bind_simps skip_comp_def split: if_splits)

lemma map_errS_preserves: "preserves R m \<Longrightarrow> preserves R (map_errS g m)"
  unfolding preserves_def by (blast dest: map_errS_state)

lemma copy_entries_same:
  "copy_entries t src dst cs s = (s', r) \<Longrightarrow> \<not> prefix dst q \<Longrightarrow> same_file q s s'"
proof (induction t src dst cs s arbitrary: s' r rule: copy_entries.induct)
  case (2 t src dst c cs s)
  have nq: "\<not> prefix (dst @ [c]) q" using 2(5) by (auto dest: append_prefixD)
  show ?case
  proof (cases "node_at t (src @ [c])")
    case (Some nd)
    show ?thesis
    proof (cases nd)
      case (Reg b)
      obtain s1 x where w: "fs_write (dst @ [c]) b s = (s1, x)" by fastforce
      have s: "same_file q s s1" using same_file_write [OF w] nq by auto
      show ?thesis
      proof (cases x)
        case (Inr u)
        then show ?thesis
          using 2(1) [OF Some Reg w [symmetric] Inr _ 2(5)] 2(4) Some Reg w s
          by (auto intro: same_file_trans)
      qed (use 2(4) Some Reg w s in auto)
    next
      case Dir
      obtain s1 x where w: "fs_mkdirs (dst @ [c]) s = (s1, x)" by fastforce
      have s: "same_file q s s1" using same_file_mkdirs [OF w] .
      show ?thesis
      proof (cases x)
        case (Inr u)
        obtain s2 y where y: "copy_entries t (src @ [c]) (dst @ [c]) (children t (src @ [c])) s1 = (s2, y)"
          by fastforce
        have s2: "same_file q s1 s2" using 2(2) [OF Some Dir w [symmetric] Inr y nq] .
        show ?thesis
        proof (cases y)
          case (Inr v)
          then have "copy_entries t src dst cs s2 = (s', r)" using 2(4) Some Dir w \<open>x = Inr u\<close> y by simp
          from 2(3) [OF Some Dir w [symmetric] \<open>x = Inr u\<close> y [symmetric] Inr this 2(5)] s s2 show ?thesis
            by (blast intro: same_file_trans)
        qed (use 2(4) Some Dir w Inr y s s2 in \<open>auto intro: same_file_trans\<close>)
      qed (use 2(4) Some Dir w s in auto)
    next
      case (Sym a tgt)
      then show ?thesis using 2(4) Some by simp
    qed
  qed (use 2(4) in simp)
qed simp

lemma copy_dir_same: "\<not> prefix dst q \<Longrightarrow> preserves (same_file q) (copy_dir t src dst)"
  unfolding copy_dir_def
  by (intro same_file_rules map_errS_preserves preservesI [of "copy_entries _ _ _ _"])
    (blast intro: copy_entries_same)+

lemma share_fork_same:
  assumes "\<not> prefix dst q"
  shows "preserves (same_file q) (share_fork t sh rel dst)"
proof -
  have "q \<noteq> dst" using assms by auto
  then show ?thesis
    unfolding share_fork_def
    by (auto intro!: same_file_rules map_errS_preserves copy_dir_same [OF assms] split: tree_node.splits)
qed

text \<open>A fork writes below \<open>forked\<close>, or nowhere.\<close>

lemma fork_share_same:
  assumes "\<not> prefix (fork_root n) q"
  shows "preserves (same_file q) (fork_share E n p)"
proof (rule preservesI)
  fix s s' r assume f: "fork_share E n p s = (s', r)"
  show "same_file q s s'"
  proof (cases "share E (share_root n)")
    case (Inl e)
    then show ?thesis using f by (simp add: fork_share_def bindS_def lift_result_def)
  next
    case (Inr sh)
    then have sf: "share_fork (e_tree E) sh p (path_join (fork_root n) p) s = (s', r)"
      using f by (simp add: fork_share_def bindS_def lift_result_def)
    show ?thesis
    proof (cases "safe_relative_path (e_tree E) (sh_root sh) p")
      case (Inl e)
      then show ?thesis using sf by (simp add: share_fork_def bindS_def lift_result_def)
    next
      case (Inr x)
      from safe_join_below [OF Inr] assms have "\<not> prefix (path_join (fork_root n) p) q"
        by (blast intro: prefix_order.trans)
      from preservesD [OF share_fork_same [OF this] sf] show ?thesis .
    qed
  qed
qed

section \<open>What a frame does\<close>

text \<open>Every frame sends at most one reply; a content reply answers a read.\<close>

lemma handle_burrow_replies:
  assumes "handle_burrow E req f n = (n', r)"
  shows "n_outbox n' = n_outbox n \<or> (\<exists>g. sends E n n' req g \<and>
    (\<forall>p b. g = AppBurrow (BContent p b) \<longrightarrow> f = BRead p \<and> read_share E n p = Inr b))"
proof -
  have other: ?thesis if "reply_then E req g h n1 = (n', r)" "n_outbox n1 = n_outbox n" "n_identity n1 = n_identity n"
    "\<And>p b. g = AppBurrow (BContent p b) \<Longrightarrow> f = BRead p \<and> read_share E n p = Inr b" for g h n1
    using reply_then_sends [of E n1 req g h] that by (auto simp: sends_def node_public_def)
  note defs = handle_burrow_def
  show ?thesis
  proof (cases f)
    case (BList p)
    obtain g h where "reply_then E req g h n = (n', r)" "\<And>p b. g \<noteq> AppBurrow (BContent p b)"
      using assms BList by (cases "list_share E n p") (auto simp: defs)
    then show ?thesis by (intro other [OF _ refl refl]) auto
  next
    case (BRead p)
    obtain g h where "reply_then E req g h n = (n', r)"
      "\<And>p' b. g = AppBurrow (BContent p' b) \<Longrightarrow> p' = p \<and> read_share E n p = Inr b"
      using assms BRead by (cases "read_share E n p") (auto simp: defs)
    then show ?thesis using BRead by (intro other [OF _ refl refl]) auto
  next
    case (BFork p)
    obtain n1 x where x: "on_store (fork_share E n p) n = (n1, x)" by fastforce
    then have n1: "n_outbox n1 = n_outbox n" "n_identity n1 = n_identity n"
      by (auto simp: on_store_def split: prod.splits)
    obtain g h where "reply_then E req g h n1 = (n', r)" "\<And>p b. g \<noteq> AppBurrow (BContent p b)"
      using assms BFork x by (cases x) (auto simp: defs)
    then show ?thesis by (intro other [OF _ n1]) auto
  next
    case (BForkResult p ok e)
    then show ?thesis using assms by (cases ok) (auto simp: defs)
  qed (use assms in \<open>auto simp: defs\<close>)
qed

lemma handle_burrow_store:
  assumes "handle_burrow E req f n = (n', r)"
  shows "n_store n' = n_store n \<or> (\<exists>p x. f = BFork p \<and> fork_share E n p (n_store n) = (n_store n', x))"
proof (cases f)
  case (BFork p)
  obtain n1 x where x: "on_store (fork_share E n p) n = (n1, x)" by fastforce
  then obtain y where y: "fork_share E n p (n_store n) = (n_store n1, y)"
    by (auto simp: on_store_def split: prod.splits)
  from assms BFork x have "n_store n' = n_store n1"
    by (cases x) (auto simp: handle_burrow_def dest: reply_thenD)
  with y BFork show ?thesis by auto
next
  case (BForkResult p ok e)
  then show ?thesis using assms by (cases ok) (auto simp: handle_burrow_def)
qed (use assms in \<open>auto simp: handle_burrow_def split: sum.splits dest: reply_thenD\<close>)

text \<open>C9: what a peer can do through Burrow. Whatever frame it sends, every file of the node outside
  \<open>forked\<close> is left as it was, the node answers nobody but the sender, and the bytes of a content
  answer are those of a regular file whose real location is under the real location of the share.\<close>

theorem burrow_confined:
  assumes "handle_burrow E req f n = (n', r)" and "codec_ok (k_app (e_codecs E))"
    and "tree_ok (e_tree E)" and "tree_named (e_tree E)"
  shows "(\<not> prefix (fork_root n) w \<longrightarrow> same_file w (n_store n) (n_store n'))
    \<and> (\<exists>ms. n_outbox n' = n_outbox n @ ms \<and> (\<forall>m \<in> set ms. m_recipient m = m_sender req \<and>
        (\<forall>p b. frame_decode (k_app (e_codecs E)) (m_payload m) = AppBurrow (BContent p b) \<longrightarrow>
          (\<exists>root q. canonicalize (e_tree E) (share_root n) = Inr root \<and> prefix root q
            \<and> node_at (e_tree E) q = Some (Reg b)))))"
proof
  show "\<not> prefix (fork_root n) w \<longrightarrow> same_file w (n_store n) (n_store n')"
    using handle_burrow_store [OF assms(1)] fork_share_same [of n w]
    by (metis preservesD same_file_refl)
next
  from handle_burrow_replies [OF assms(1)]
  show "\<exists>ms. n_outbox n' = n_outbox n @ ms \<and> (\<forall>m \<in> set ms. m_recipient m = m_sender req \<and>
        (\<forall>p b. frame_decode (k_app (e_codecs E)) (m_payload m) = AppBurrow (BContent p b) \<longrightarrow>
          (\<exists>root q. canonicalize (e_tree E) (share_root n) = Inr root \<and> prefix root q
            \<and> node_at (e_tree E) q = Some (Reg b))))"
  proof (elim disjE exE conjE)
    fix g
    assume g: "sends E n n' req g"
      and c: "\<forall>p b. g = AppBurrow (BContent p b) \<longrightarrow> f = BRead p \<and> read_share E n p = Inr b"
    from g show ?thesis unfolding sends_def
    proof (elim disjE exE conjE)
      fix m assume m: "n_outbox n' = n_outbox n @ [m]" "m_recipient m = m_sender req"
        "frame_encode (k_app (e_codecs E)) g = Inr (m_payload m)"
      have "frame_decode (k_app (e_codecs E)) (m_payload m) = g" using frame_roundtrip [OF assms(2) m(3)] .
      then show ?thesis using m(1,2) c read_share_inside [OF _ assms(3,4)]
        by (intro exI [of _ "[m]"]) auto
    qed simp
  qed simp
qed

text \<open>The device of the example shares \<open>demo_tree\<close>; a peer reads a file of the share, and forks what a
  link in it points to.\<close>

definition burrow_env :: env where
  "burrow_env = (demo_env 0)\<lparr>e_tree := demo_tree, e_codecs := demo_app_codecs\<lparr>
     k_app := table_codec [AppBurrow (BContent ''f'' [1])], k_message := raw_message\<rparr>\<rparr>"

definition burrow_host :: node where
  "burrow_host = demo_node (fresh_store [''h''])"

lemma burrow_env_simps:
  "k_app (e_codecs burrow_env) = table_codec [AppBurrow (BContent ''f'' [1])]"
  "k_message (e_codecs burrow_env) = raw_message" "e_tree burrow_env = demo_tree"
  by (simp_all add: burrow_env_def)

lemma burrow_host_reads:
  "map (\<lambda>m. frame_decode (k_app (e_codecs burrow_env)) (m_payload m))
     (n_outbox (fst (handle_burrow burrow_env (demo_request \<lparr>public_key = [7]\<rparr>) (BRead ''f'') burrow_host)))
   = [AppBurrow (BContent ''f'' [1])]"
proof -
  have r: "read_share burrow_env burrow_host ''f'' = Inr [1]" by code_simp
  show ?thesis
    by (simp add: handle_burrow_def r reply_then_def reply_def frame_encode_def ok_or_def send_raw_def
        validate_size_def burrow_env_simps table_codec_def raw_message_def frame_decode_def
        MAX_MESSAGE_SIZE_def) (simp add: burrow_host_def)
qed

lemma burrow_confined_witness:
  "map (\<lambda>m. frame_decode (k_app (e_codecs burrow_env)) (m_payload m))
     (n_outbox (fst (handle_burrow burrow_env (demo_request \<lparr>public_key = [7]\<rparr>) (BRead ''f'') burrow_host)))
   = [AppBurrow (BContent ''f'' [1])]
   \<and> canonicalize demo_tree [''h'', ''share''] = Inr [''h'', ''share'']
   \<and> node_at demo_tree [''h'', ''share'', ''f''] = Some (Reg [1])
   \<and> file_at (fst (fork_share burrow_env burrow_host ''out/'' (n_store burrow_host)))
       [''h'', ''forked'', ''out'', ''key''] = Some [9, 9]
   \<and> same_file [''h'', ''identity''] (n_store burrow_host)
       (n_store (fst (handle_burrow burrow_env (demo_request \<lparr>public_key = [7]\<rparr>) (BFork ''out/'') burrow_host)))"
proof -
  have c: "codec_ok (k_app (e_codecs burrow_env))" by (simp add: burrow_env_simps table_codec_ok)
  have t: "tree_ok (e_tree burrow_env)" "tree_named (e_tree burrow_env)" by code_simp+
  have "\<not> prefix (fork_root burrow_host) [''h'', ''identity'']"
    by (simp add: fork_root_def burrow_host_def)
  with burrow_confined [OF surjective_pairing c t, of burrow_host "[''h'', ''identity'']"
      "demo_request \<lparr>public_key = [7]\<rparr>" "BFork ''out/''"]
  have s: "same_file [''h'', ''identity''] (n_store burrow_host)
       (n_store (fst (handle_burrow burrow_env (demo_request \<lparr>public_key = [7]\<rparr>) (BFork ''out/'') burrow_host)))"
    by simp
  have "canonicalize demo_tree [''h'', ''share''] = Inr [''h'', ''share'']"
    "node_at demo_tree [''h'', ''share'', ''f''] = Some (Reg [1])"
    "file_at (fst (fork_share burrow_env burrow_host ''out/'' (n_store burrow_host)))
       [''h'', ''forked'', ''out'', ''key''] = Some [9, 9]"
    by code_simp+
  with s burrow_host_reads show ?thesis by simp
qed

end
