(* ===== verification/AppFiles.thy ===== *)
theory AppFiles
  imports AppStorage
begin

text \<open>
  \<open>src/app/files.rs\<close>: the two ends of a file transfer. The receiver's handler keeps the cache of
  \<open>Receiver\<close>; the sender announces, streams the chunks, and polls for the receiver's state,
  sending again what is missing.

  The sender reaches the peer through two operations on an abstract world: a call that waits for
  the reply, and a push that does not. The world of the examples and of the progress theorem is a
  receiving node behind a link that loses chunks.
\<close>

section \<open>The receiver\<close>

text \<open>A panic of the cache (a stale index) unwinds the handler: no reply is sent.\<close>

definition panicked :: io_error where
  "panicked = IoError Other ''panic''"

definition accept_announce :: "env \<Rightarrow> path \<Rightarrow> string \<Rightarrow> file_manifest \<Rightarrow> (store, file_error, transfer_state) op" where
  "accept_announce E home fid m =
     bindS (lift_result (verify_manifest (e_crates E) (k_manifest (e_codecs E)) m)) (\<lambda>_.
     bindS (write_received_manifest (k_manifest (e_codecs E)) home fid m) (\<lambda>_ s.
       (s, resume_for (k_state (e_codecs E)) home fid m s)))"

definition announced_text :: "string \<Rightarrow> file_manifest \<Rightarrow> nat \<Rightarrow> string" where
  "announced_text sender m k = ''file transfer from '' @ sender @ '': '' @ fm_name m @ '' ('' @
     show_nat (unat (fm_total_size m)) @ '' bytes, '' @ show_nat (length (fm_chunks m)) @ '' chunks; '' @
     show_nat k @ '' to fetch)''"

definition pending_text :: "u32 list \<Rightarrow> string" where
  "pending_text is = (if is = [] then ''all chunks''
     else show_nat (length is) @ '' chunk(s): '' @ debug_u32s is)"

definition files_fail :: "env \<Rightarrow> message \<Rightarrow> string \<Rightarrow> file_error \<Rightarrow> handler" where
  "files_fail E req fid e n = (if e = FPanic then (n, Inl panicked)
     else reply_then E req (AppFiles (FError (Some fid) (file_display e))) None n)"

definition handle_files :: "env \<Rightarrow> message \<Rightarrow> files_frame \<Rightarrow> handler" where
  "handle_files E req f n = (case f of
       FAnnounce fid m sender \<Rightarrow>
         (case on_store (accept_announce E (n_home n) fid m) n of
            (n1, Inr t) \<Rightarrow> reply_then E req (AppFiles (FAccept fid (ts_missing t)))
              (Some (announced_text sender m (length (ts_missing t)))) n1
          | (n1, Inl e) \<Rightarrow> files_fail E req fid e n1)
     | FAccept fid missing \<Rightarrow>
         (n, Inr (Some (''receiving file '' @ fid @ ''; '' @ pending_text missing @ '' requested'')))
     | FChunk fid c \<Rightarrow>
         (case on_store (receive_chunk (e_crates E) (k_manifest (e_codecs E)) (k_state (e_codecs E))
                 (n_home n) fid c) n of
            (n1, Inr (Verified True)) \<Rightarrow> reply_then E req (AppFiles (FComplete fid))
              (Some (''file transfer complete: '' @ fid)) n1
          | (n1, Inr (Verified False)) \<Rightarrow> (n1, Inr None)
          | (n1, Inr (NeedsResend i reason)) \<Rightarrow> reply_then E req (AppFiles (FReject fid i reason)) None n1
          | (n1, Inl e) \<Rightarrow> files_fail E req fid e n1)
     | FReject _ _ _ \<Rightarrow> (n, Inr None)
     | FComplete fid \<Rightarrow> (n, Inr (Some (''file transfer complete (confirmed by peer): '' @ fid)))
     | FStatusRequest fid \<Rightarrow>
         (case load_transfer_state (k_state (e_codecs E)) (n_home n) fid (n_store n) of
            Inr t \<Rightarrow> reply_then E req (AppFiles (FStatus fid t)) None n
          | Inl e \<Rightarrow> files_fail E req fid e n)
     | FStatus fid t \<Rightarrow>
         (n, Inr (Some (fid @ '': '' @ show_nat (length (ts_verified t)) @ ''/'' @
            show_nat (length (fm_chunks (ts_manifest t))) @ '' chunks verified, '' @
            show_nat (length (ts_lost t)) @ '' lost'')))
     | FError _ msg \<Rightarrow> (n, Inr (Some (''file transfer error: '' @ msg))))"

section \<open>The sender\<close>

type_synonym 'w push = "app_frame \<Rightarrow> ('w, io_error, unit) op"

fun push_all :: "'w push \<Rightarrow> string \<Rightarrow> chunk list \<Rightarrow> ('w, io_error, unit) op" where
  "push_all push fid [] = ret ()"
| "push_all push fid (c # cs) = bindS (push (AppFiles (FChunk fid c))) (\<lambda>_. push_all push fid cs)"

definition invalid_data :: "file_error \<Rightarrow> io_error" where
  "invalid_data e = IoError InvalidData (file_display e)"

text \<open>What \<open>build_manifest\<close> needs of the device and what reading the source gave it.\<close>

type_synonym reading = "io_error + u64 \<times> bytes list"

definition build_source :: "env \<Rightarrow> identity \<Rightarrow> string option \<Rightarrow> reading \<Rightarrow> io_error + file_manifest \<times> chunk list" where
  "build_source E me fname r = map_err invalid_data
     (build_manifest (e_crates E) (k_manifest (e_codecs E)) me fname r DEFAULT_CHUNK_SIZE)"

definition need_id :: "env \<Rightarrow> file_manifest \<Rightarrow> io_error + string" where
  "need_id E m = ok_or panicked (manifest_id (e_crates E) (k_manifest (e_codecs E)) m)"

definition send_file :: "env \<Rightarrow> identity \<Rightarrow> string option \<Rightarrow> reading \<Rightarrow> 'w call \<Rightarrow> 'w push \<Rightarrow>
    ('w, io_error, transfer_state) op" where
  "send_file E me fname r call push =
     bindS (lift_result (build_source E me fname r)) (\<lambda>(m, cs).
     bindS (lift_result (need_id E m)) (\<lambda>fid.
     bindS (call (AppFiles (FAnnounce fid m (finger E (public_of (e_crates E) me))))) (\<lambda>a. case a of
         AppFiles (FAccept _ missing) \<Rightarrow>
           bindS (push_all push fid (filter (\<lambda>c. missing = [] \<or> ck_index c \<in> set missing) cs)) (\<lambda>_.
             ret (foldl (\<lambda>t c. ts_mark_verified (ck_index c) t) (transfer_new m) cs))
       | _ \<Rightarrow> raise (IoError InvalidData ''expected Accept reply''))))"

text \<open>The rendering of an unexpected reply is left out of the error text here and below.\<close>

text \<open>The polling loop: \<open>late k\<close> tells whether the deadline has passed when the \<open>k\<close>th status is in.
  \<open>None\<close>: out of fuel.\<close>

fun poll_loop :: "nat \<Rightarrow> nat \<Rightarrow> (nat \<Rightarrow> bool) \<Rightarrow> 'w call \<Rightarrow> 'w push \<Rightarrow> string \<Rightarrow> chunk list \<Rightarrow> 'w \<Rightarrow>
    ('w \<times> (io_error + transfer_state)) option" where
  "poll_loop 0 k late call push fid cs w = None"
| "poll_loop (Suc n) k late call push fid cs w =
     (case call (AppFiles (FStatusRequest fid)) w of
        (w1, Inl e) \<Rightarrow> Some (w1, Inl e)
      | (w1, Inr (AppFiles (FStatus _ t))) \<Rightarrow>
          if ts_complete t \<or> late k then Some (w1, Inr t)
          else (case push_all push fid (filter (\<lambda>c. ck_index c \<in> set (ts_missing t)) cs) w1 of
              (w2, Inl e) \<Rightarrow> Some (w2, Inl e)
            | (w2, Inr _) \<Rightarrow> poll_loop n (Suc k) late call push fid cs w2)
      | (w1, Inr _) \<Rightarrow> Some (w1, Inl (IoError InvalidData ''expected Status reply'')))"

text \<open>The source is read twice, once here and once by \<open>send_file\<close>.\<close>

definition send_file_and_wait :: "nat \<Rightarrow> (nat \<Rightarrow> bool) \<Rightarrow> env \<Rightarrow> identity \<Rightarrow> string option \<Rightarrow> reading \<Rightarrow> reading \<Rightarrow>
    'w call \<Rightarrow> 'w push \<Rightarrow> 'w \<Rightarrow> ('w \<times> (io_error + transfer_state)) option" where
  "send_file_and_wait fuel late E me fname r1 r2 call push w =
     (case build_source E me fname r1 of
        Inl e \<Rightarrow> Some (w, Inl e)
      | Inr (m, cs) \<Rightarrow>
          (case send_file E me fname r2 call push w of
             (w1, Inl e) \<Rightarrow> Some (w1, Inl e)
           | (w1, Inr _) \<Rightarrow>
               (case need_id E m of
                  Inl e \<Rightarrow> Some (w1, Inl e)
                | Inr fid \<Rightarrow> poll_loop fuel 0 late call push fid cs w1)))"

text \<open>A deadline that passes ends the loop.\<close>

lemma poll_loop_ends:
  assumes "late j" and "k \<le> j" and "j - k < n"
  shows "poll_loop n k late call push fid cs w \<noteq> None"
  using assms(2,3)
proof (induction n arbitrary: k w)
  case (Suc n)
  obtain w1 x where c: "call (AppFiles (FStatusRequest fid)) w = (w1, x)" by fastforce
  show ?case
  proof (cases "\<exists>g t. x = Inr (AppFiles (FStatus g t)) \<and> \<not> ts_complete t \<and> \<not> late k")
    case True
    then have "k \<noteq> j" using assms(1) by auto
    then have "poll_loop n (Suc k) late call push fid cs w' \<noteq> None" for w'
      using Suc.prems by (intro Suc.IH) simp_all
    with True c show ?thesis by (auto split: sum.splits prod.splits)
  next
    case False
    then show ?thesis by (auto simp: c split: sum.splits app_frame.splits files_frame.splits)
  qed
qed simp

section \<open>A receiver behind a lossy link\<close>

text \<open>Chunks are pushed over a link whose losses are a list of flags, one for each push; when the list
  is used up nothing is lost any more. Calls always get through.\<close>

record link =
  l_peer :: node
  l_losses :: "bool list"

definition from_sender :: "node \<Rightarrow> env \<Rightarrow> public_identity \<Rightarrow> message" where
  "from_sender n E i = \<lparr>m_id = [], m_sender = i, m_recipient = node_public E n, m_payload = []\<rparr>"

definition link_call :: "env \<Rightarrow> public_identity \<Rightarrow> link call" where
  "link_call E i f l = (case f of
       AppFiles g \<Rightarrow>
         (let n = (l_peer l)\<lparr>n_outbox := []\<rparr>; n1 = fst (handle_files E (from_sender n E i) g n) in
          (l\<lparr>l_peer := n1\<rparr>, case n_outbox n1 of
              [] \<Rightarrow> Inl (IoError BrokenPipe ''peer closed the response channel'')
            | r # _ \<Rightarrow> Inr (frame_decode (k_app (e_codecs E)) (m_payload r))))
     | _ \<Rightarrow> (l, Inl (IoError BrokenPipe ''peer closed the response channel'')))"

definition link_push :: "env \<Rightarrow> public_identity \<Rightarrow> link push" where
  "link_push E i f l = (case frame_encode (k_app (e_codecs E)) f of
       Inl e \<Rightarrow> (l, Inl e)
     | Inr _ \<Rightarrow> (case (f, l_losses l) of
         (AppFiles g, False # ls) \<Rightarrow> (l\<lparr>l_peer := fst (handle_files E (from_sender (l_peer l) E i) g (l_peer l)), l_losses := ls\<rparr>, Inr ())
       | (AppFiles g, []) \<Rightarrow> (l\<lparr>l_peer := fst (handle_files E (from_sender (l_peer l) E i) g (l_peer l))\<rparr>, Inr ())
       | (_, ls) \<Rightarrow> (l\<lparr>l_losses := tl ls\<rparr>, Inr ())))"

fun delivered :: "bool list \<Rightarrow> 'a list \<Rightarrow> 'a list" where
  "delivered ls [] = []"
| "delivered [] (c # cs) = c # cs"
| "delivered (l # ls) (c # cs) = (if l then delivered ls cs else c # delivered ls cs)"

lemma delivered_subset: "set (delivered ls cs) \<subseteq> set cs"
  by (induction ls cs rule: delivered.induct) auto

lemma delivered_calm: "delivered [] cs = cs"
  by (cases cs) simp_all

section \<open>A transfer's cache from the announcement on\<close>

text \<open>A healthy disk on which this transfer has left nothing.\<close>

definition fresh_cache :: "path \<Rightarrow> string \<Rightarrow> store \<Rightarrow> bool" where
  "fresh_cache home fid s \<longleftrightarrow> st_wfault s = (\<lambda>_. None) \<and> st_rfault s = (\<lambda>_. False) \<and>
     (\<forall>x y. \<not> is_dir s (transfer_dir home fid @ x # y)) \<and>
     (\<forall>q \<in> set (prefixes_of (chunks_dir home fid)). file_at s q = None) \<and>
     file_at s (state_path home fid) = None"

lemma prefixes_parent: "set (prefixes_of (transfer_dir home fid)) \<subseteq> set (prefixes_of (chunks_dir home fid))"
proof
  fix q assume "q \<in> set (prefixes_of (transfer_dir home fid))"
  then obtain k where "q = take k (transfer_dir home fid)" "1 \<le> k" "k \<le> length (transfer_dir home fid)"
    by (auto simp: prefixes_of_def)
  then show "q \<in> set (prefixes_of (chunks_dir home fid))"
    by (auto simp: prefixes_of_def chunks_dir_def intro!: image_eqI [of _ _ k])
qed

lemma fresh_mkdirs:
  assumes "fresh_cache home fid s"
  obtains s1 where "fs_mkdirs (transfer_dir home fid) s = (s1, Inr ())" "calm home fid s1"
    "file_at s1 (state_path home fid) = None"
proof -
  let ?d = "transfer_dir home fid"
  obtain s1 x where mk: "fs_mkdirs ?d s = (s1, x)" by fastforce
  have none: "\<not> list_ex (\<lambda>q. file_at s q \<noteq> None) (prefixes_of ?d)" and f: "st_wfault s = (\<lambda>_. None)"
    using assms prefixes_parent [of home fid] by (auto simp: fresh_cache_def list_ex_iff)
  then have x: "x = Inr ()" using mk by (auto simp: fs_mkdirs_def split: if_splits)
  have "is_dir s1 q \<Longrightarrow> is_dir s q \<or> length q \<le> length ?d" for q
    using mk none f by (auto simp: fs_mkdirs_def is_dir_def prefixes_of_def split: if_splits)
  from this [of "?d @ _ # _"] have "\<not> is_dir s1 (?d @ x # y)" for x y
    using assms by (auto simp: fresh_cache_def)
  then have "calm home fid s1"
    using assms fs_mkdirs_faults [OF mk] fs_mkdirs_files [OF mk] fs_mkdirs_dir [OF mk [unfolded x]]
    by (simp add: calm_def fresh_cache_def)
  moreover have "file_at s1 (state_path home fid) = None"
    using assms fs_mkdirs_files [OF mk] by (simp add: fresh_cache_def)
  ultimately show thesis using mk x that by blast
qed

lemma fresh_announce:
  assumes "fresh_cache home fid s" and "enc MC m = Some b" and "codec_ok MC"
  obtains s' where "write_received_manifest MC home fid m s = (s', Inr ())" "calm home fid s'"
    "load_received_manifest MC home fid s' = Inr m" "file_at s' (state_path home fid) = None"
proof -
  let ?d = "transfer_dir home fid"
  obtain s1 where s1: "fs_mkdirs ?d s = (s1, Inr ())" "calm home fid s1" "file_at s1 (state_path home fid) = None"
    using fresh_mkdirs [OF assms(1)] .
  obtain s' where s': "save_under MC ?d ''manifest.json'' m s1 = (s', Inr ())" "calm home fid s'"
    "load_under MC (?d @ [''manifest.json'']) s' = Inr m"
    using calm_save_under [OF s1(2) assms(2,3), of "''manifest.json''"] by auto
  have "fs_mkdirs ?d s1 = (s1, Inr ())" using s1(2) by (simp add: calm_def store_simps)
  then have "write_received_manifest MC home fid m s = (s', Inr ())"
    using s'(1) s1(1) by (simp add: write_received_manifest_def save_under_def bindS_def map_errS_def map_err_def)
  moreover have "same_file (state_path home fid) s1 s'"
    by (rule same_file_save_under [OF s'(1)]) (simp_all add: state_path_def)
  then have "file_at s' (state_path home fid) = None" using s1(3) by (simp add: same_file_def)
  ultimately show thesis using s'(2,3) that by (simp add: load_received_manifest_def)
qed

section \<open>One transfer\<close>

text \<open>The two ends of a transfer: the sender's file is \<open>blocks\<close>, cut into the chunks \<open>cs\<close> that the
  manifest \<open>m\<close> announces under \<open>fid\<close>, and its frames are within the size limit; \<open>i\<close> is the sender,
  as the receiver authenticated it.\<close>

definition sendable :: "env \<Rightarrow> public_identity \<Rightarrow> string \<Rightarrow> file_manifest \<Rightarrow> chunk list \<Rightarrow> bool" where
  "sendable E i fid m cs \<longleftrightarrow> codec_ok (k_app (e_codecs E)) \<and> codec_ok (k_manifest (e_codecs E)) \<and>
     codec_ok (k_state (e_codecs E)) \<and> enc (k_manifest (e_codecs E)) m \<noteq> None \<and> safe_name m \<and>
     (\<forall>t. ongoing m t \<longrightarrow> enc (k_state (e_codecs E)) t \<noteq> None \<and>
        (\<forall>req n. snd (reply E req (AppFiles (FStatus fid t)) n) = Inr ())) \<and>
     (\<forall>req n. snd (reply E req (AppFiles (FAccept fid (ts_missing (transfer_new m)))) n) = Inr ()) \<and>
     (\<forall>c \<in> set cs. is_ok (frame_encode (k_app (e_codecs E)) (AppFiles (FChunk fid c))))"

text \<open>The receiver has verified exactly the chunks with an index in \<open>V\<close>.\<close>

definition has_chunks :: "env \<Rightarrow> string \<Rightarrow> file_manifest \<Rightarrow> chunk list \<Rightarrow> u32 set \<Rightarrow> node \<Rightarrow> bool" where
  "has_chunks E fid m cs V n \<longleftrightarrow> calm (n_home n) fid (n_store n) \<and>
     cache_inv (genuine cs) (k_manifest (e_codecs E)) (k_state (e_codecs E)) (n_home n) fid m (n_store n) \<and>
     (\<exists>t. resume_for (k_state (e_codecs E)) (n_home n) fid m (n_store n) = Inr t \<and> set (ts_verified t) = V \<and>
        (all_verified m t \<longrightarrow> whole (genuine cs) m (file_at (n_store n) (output_path (n_home n) fid m))))"

lemma has_chunks_cong:
  "n_home n' = n_home n \<Longrightarrow> n_store n' = n_store n \<Longrightarrow> has_chunks E fid m cs V n' = has_chunks E fid m cs V n"
  by (simp add: has_chunks_def)

text \<open>A chunk that arrives is added.\<close>

lemma chunk_arrives:
  assumes h: "has_chunks E fid m cs V n" and s: "sendable E i fid m cs"
    and con: "consistent (genuine cs) (e_crates E) m"
    and v: "verify_chunk (e_crates E) m c = Inr ()" and g: "genuine cs (ck_index c) (ck_data c)"
  shows "has_chunks E fid m cs (insert (ck_index c) V) (fst (handle_files E req (FChunk fid c) n))
    \<and> n_home (fst (handle_files E req (FChunk fid c) n)) = n_home n"
proof -
  let ?MC = "k_manifest (e_codecs E)" and ?SC = "k_state (e_codecs E)"
  obtain t where t: "calm (n_home n) fid (n_store n)" "cache_inv (genuine cs) ?MC ?SC (n_home n) fid m (n_store n)"
    "resume_for ?SC (n_home n) fid m (n_store n) = Inr t" "set (ts_verified t) = V"
    "all_verified m t \<Longrightarrow> whole (genuine cs) m (file_at (n_store n) (output_path (n_home n) fid m))"
    using h by (auto simp: has_chunks_def)
  have sd: "safe_name m" "codec_ok ?SC" "\<And>t. ongoing m t \<Longrightarrow> enc ?SC t \<noteq> None"
    using s by (simp_all add: sendable_def)
  obtain s' t' where r: "receive_chunk (e_crates E) ?MC ?SC (n_home n) fid c (n_store n)
      = (s', Inr (Verified (all_verified m t')))"
    and 1: "calm (n_home n) fid s'" "cache_inv (genuine cs) ?MC ?SC (n_home n) fid m s'"
      "resume_for ?SC (n_home n) fid m s' = Inr t'" "set (ts_verified t') = insert (ck_index c) (set (ts_verified t))"
      "all_verified m t' \<Longrightarrow> whole (genuine cs) m (file_at s' (output_path (n_home n) fid m))"
    using receive_calm [OF t(1,2) sd con v g t(3,5)] by blast
  let ?n = "fst (handle_files E req (FChunk fid c) n)"
  have n: "n_store ?n = s' \<and> n_home ?n = n_home n"
    using r by (cases "all_verified m t'") (simp_all add: handle_files_def on_store_def handler_defs)
  then show ?thesis using 1 t(4) by (simp add: has_chunks_def)
qed

text \<open>Pushing a list of chunks adds those that are not lost.\<close>

lemma push_delivers:
  assumes s: "sendable E i fid m cs" and con: "consistent (genuine cs) (e_crates E) m"
    and c: "\<And>c. c \<in> set ds \<Longrightarrow> c \<in> set cs \<and> verify_chunk (e_crates E) m c = Inr () \<and> genuine cs (ck_index c) (ck_data c)"
    and h: "has_chunks E fid m cs V (l_peer l)"
  shows "\<exists>l'. push_all (link_push E i) fid ds l = (l', Inr ())
    \<and> has_chunks E fid m cs (V \<union> ck_index ` set (delivered (l_losses l) ds)) (l_peer l')
    \<and> l_losses l' = drop (length ds) (l_losses l) \<and> n_home (l_peer l') = n_home (l_peer l)"
  using c h
proof (induction ds arbitrary: l V)
  case Nil
  then show ?case by (simp add: ret_def)
next
  case (Cons d ds)
  have "is_ok (frame_encode (k_app (e_codecs E)) (AppFiles (FChunk fid d)))"
    using Cons.prems(1) s by (simp add: sendable_def)
  then obtain b where b: "frame_encode (k_app (e_codecs E)) (AppFiles (FChunk fid d)) = Inr b"
    by (auto simp: is_ok_iff)
  let ?n = "fst (handle_files E (from_sender (l_peer l) E i) (FChunk fid d) (l_peer l))"
  have ar: "has_chunks E fid m cs (insert (ck_index d) V) ?n" "n_home ?n = n_home (l_peer l)"
    using chunk_arrives [OF Cons.prems(2) s con] Cons.prems(1) by simp_all
  define lost where "lost \<longleftrightarrow> (\<exists>ls. l_losses l = True # ls)"
  let ?l = "l\<lparr>l_peer := if lost then l_peer l else ?n, l_losses := tl (l_losses l)\<rparr>"
  have p: "link_push E i (AppFiles (FChunk fid d)) l = (?l, Inr ())"
    using b by (auto simp: link_push_def lost_def split: list.splits bool.splits)
  have h: "has_chunks E fid m cs (if lost then V else insert (ck_index d) V) (l_peer ?l)"
    using ar(1) Cons.prems(2) by simp
  obtain l' where l': "push_all (link_push E i) fid ds ?l = (l', Inr ())"
    "has_chunks E fid m cs ((if lost then V else insert (ck_index d) V) \<union> ck_index ` set (delivered (l_losses ?l) ds)) (l_peer l')"
    "l_losses l' = drop (length ds) (l_losses ?l)" "n_home (l_peer l') = n_home (l_peer ?l)"
    using Cons.IH [OF _ h] Cons.prems(1) by (metis list.set_intros(2))
  have "(if lost then V else insert (ck_index d) V) \<union> ck_index ` set (delivered (l_losses ?l) ds)
      = V \<union> ck_index ` set (delivered (l_losses l) (d # ds))"
    by (cases "l_losses l") (auto simp: lost_def delivered_calm)
  then show ?case using p l' ar(2) by (auto simp: bindS_def drop_Suc)
qed

text \<open>Polling tells the sender what the receiver has, once it has a chunk: before that there is no
  record of the transfer, and polling fails.\<close>

lemma poll_tells:
  assumes h: "has_chunks E fid m cs V (l_peer l)" and s: "sendable E i fid m cs" and "V \<noteq> {}"
  shows "\<exists>l' t. link_call E i (AppFiles (FStatusRequest fid)) l = (l', Inr (AppFiles (FStatus fid t)))
    \<and> n_home (l_peer l') = n_home (l_peer l) \<and> n_store (l_peer l') = n_store (l_peer l)
    \<and> l_losses l' = l_losses l \<and> ongoing m t \<and> set (ts_verified t) = V
    \<and> (all_verified m t \<longrightarrow> whole (genuine cs) m (file_at (n_store (l_peer l)) (output_path (n_home (l_peer l)) fid m)))"
proof -
  let ?SC = "k_state (e_codecs E)" and ?home = "n_home (l_peer l)" and ?s = "n_store (l_peer l)"
  obtain t where t: "cache_inv (genuine cs) (k_manifest (e_codecs E)) ?SC ?home fid m ?s"
    "resume_for ?SC ?home fid m ?s = Inr t" "set (ts_verified t) = V"
    "all_verified m t \<longrightarrow> whole (genuine cs) m (file_at ?s (output_path ?home fid m))"
    using h by (auto simp: has_chunks_def)
  have ld: "load_transfer_state ?SC ?home fid ?s = Inr t"
    using t(2,3) assms(3) by (auto simp: resume_for_def transfer_new_def split: sum.splits)
  then have on: "ongoing m t" using t(1) by (auto simp: cache_inv_def intro: recorded_ongoing)
  let ?n = "(l_peer l)\<lparr>n_outbox := []\<rparr>"
  let ?req = "from_sender ?n E i"
  have "handle_files E ?req (FStatusRequest fid) ?n = reply_then E ?req (AppFiles (FStatus fid t)) None ?n"
    using ld by (simp add: handle_files_def)
  moreover have "snd (reply E ?req (AppFiles (FStatus fid t)) n) = Inr ()" for n
    using s on by (simp add: sendable_def)
  then obtain r where "n_outbox (fst (reply_then E ?req (AppFiles (FStatus fid t)) None ?n)) = [r]"
    "frame_decode (k_app (e_codecs E)) (m_payload r) = AppFiles (FStatus fid t)"
    using reply_decodes [of E ?req "AppFiles (FStatus fid t)" ?n None] s by (auto simp: sendable_def)
  ultimately show ?thesis using on t(3,4) by (simp add: link_call_def Let_def handler_defs)
qed

lemma link_announce:
  assumes s: "sendable E i fid m cs" and f: "fresh_cache (n_home (l_peer l)) fid (n_store (l_peer l))"
    and v: "verify_manifest (e_crates E) (k_manifest (e_codecs E)) m = Inr ()" and "fm_chunks m \<noteq> []"
  shows "\<exists>l'. link_call E i (AppFiles (FAnnounce fid m who)) l = (l', Inr (AppFiles (FAccept fid (ts_missing (transfer_new m)))))
    \<and> n_home (l_peer l') = n_home (l_peer l) \<and> l_losses l' = l_losses l \<and> has_chunks E fid m cs {} (l_peer l')"
proof -
  let ?MC = "k_manifest (e_codecs E)" and ?SC = "k_state (e_codecs E)" and ?home = "n_home (l_peer l)"
  obtain b where b: "enc ?MC m = Some b" "codec_ok ?MC" using s by (auto simp: sendable_def)
  obtain s' where s': "write_received_manifest ?MC ?home fid m (n_store (l_peer l)) = (s', Inr ())" "calm ?home fid s'"
    "load_received_manifest ?MC ?home fid s' = Inr m" "file_at s' (state_path ?home fid) = None"
    using fresh_announce [OF f b] .
  have t: "resume_for ?SC ?home fid m s' = Inr (transfer_new m)"
    using s'(4) by (auto simp: resume_for_def load_transfer_state_def load_under_def fs_read_def
        map_err_def ok_or_def split: if_splits)
  let ?n = "(l_peer l)\<lparr>n_outbox := []\<rparr>" and ?n1 = "(l_peer l)\<lparr>n_outbox := [], n_store := s'\<rparr>"
  let ?req = "from_sender ?n E i" and ?a = "AppFiles (FAccept fid (ts_missing (transfer_new m)))"
  have "accept_announce E ?home fid m (n_store (l_peer l)) = (s', Inr (transfer_new m))"
    using v s'(1) t by (simp add: accept_announce_def bindS_def lift_result_def)
  then have "handle_files E ?req (FAnnounce fid m who) ?n = reply_then E ?req ?a
      (Some (announced_text who m (length (ts_missing (transfer_new m))))) ?n1"
    by (simp add: handle_files_def on_store_def)
  moreover have "snd (reply E ?req ?a n) = Inr ()" for n using s by (simp add: sendable_def)
  then obtain r where "n_outbox (fst (reply_then E ?req ?a
      (Some (announced_text who m (length (ts_missing (transfer_new m))))) ?n1)) = [r]"
    "frame_decode (k_app (e_codecs E)) (m_payload r) = ?a"
    using reply_decodes [of E ?req ?a ?n1 "Some (announced_text who m (length (ts_missing (transfer_new m))))"] s by (auto simp: sendable_def)
  moreover have "has_chunks E fid m cs {} n" if "n_store n = s'" "n_home n = ?home" for n
    using that s'(2) t cache_inv_start [OF s'(3,4)] assms(4)
    by (simp add: has_chunks_def transfer_new_def all_verified_def)
  ultimately show ?thesis by (simp add: link_call_def Let_def handler_defs)
qed

section \<open>Progress\<close>

text \<open>The indices of a manifest's chunks. A receiver that has them all has the file.\<close>

lemma all_indices:
  assumes "ongoing m t" and "length (fm_chunks m) \<le> 2 ^ 32"
  shows "ts_complete t \<longleftrightarrow> set (ts_verified t) = of_nat ` {0..<length (fm_chunks m)}"
    "all_verified m t \<longleftrightarrow> ts_complete t"
    "set (ts_missing t) = of_nat ` {0..<length (fm_chunks m)} - set (ts_verified t)"
    "set (ts_verified t) \<subseteq> of_nat ` {0..<length (fm_chunks m)}"
proof -
  let ?I = "of_nat ` {0..<length (fm_chunks m)} :: u32 set"
  have o: "ts_manifest t = m" "distinct (ts_verified t)" "\<And>i. i \<in> set (ts_verified t) \<Longrightarrow> unat i < length (fm_chunks m)"
    using assms(1) by (auto simp: ongoing_def)
  show "all_verified m t \<longleftrightarrow> ts_complete t" by (simp add: all_verified_def ts_complete_def o(1))
  show "set (ts_missing t) = ?I - set (ts_verified t)" by (auto simp: ts_missing_def o(1))
  show sub: "set (ts_verified t) \<subseteq> ?I"
  proof
    fix i assume "i \<in> set (ts_verified t)"
    then have "unat i < length (fm_chunks m)" by (rule o(3))
    then show "i \<in> ?I" by (intro image_eqI [of _ _ "unat i"]) simp_all
  qed
  have "ts_wf t" using assms o by (simp add: ts_wf_def)
  then have "ts_complete t \<longleftrightarrow> set (ts_missing t) = {}" by (simp add: ts_complete_missing)
  with \<open>set (ts_missing t) = _\<close> sub show "ts_complete t \<longleftrightarrow> set (ts_verified t) = ?I" by auto
qed

text \<open>The loop of the sender, on a link whose losses come to an end. Each round in which something is
  missing uses up a loss, or delivers everything.\<close>

lemma delivered_lossless: "ls = [] \<Longrightarrow> delivered ls cs = cs"
  by (simp add: delivered_calm)

lemma fill_up: "A \<subseteq> B \<Longrightarrow> A \<union> (B \<inter> (B - A)) = B"
  by blast

lemma poll_completes:
  assumes s: "sendable E i fid m cs" and con: "consistent (genuine cs) (e_crates E) m"
    and c: "\<And>c. c \<in> set cs \<Longrightarrow> verify_chunk (e_crates E) m c = Inr () \<and> genuine cs (ck_index c) (ck_data c)"
    and ix: "ck_index ` set cs = of_nat ` {0..<length (fm_chunks m)}" "length (fm_chunks m) \<le> 2 ^ 32"
    and h: "has_chunks E fid m cs V (l_peer l)" "V \<noteq> {}"
    and n: "\<And>j. j < k + n \<Longrightarrow> \<not> late j"
      "if V = ck_index ` set cs then 1 \<le> n else length (l_losses l) + 2 \<le> n"
  shows "\<exists>l' t. poll_loop n k late (link_call E i) (link_push E i) fid cs l = Some (l', Inr t)
    \<and> ts_complete t \<and> n_home (l_peer l') = n_home (l_peer l)
    \<and> whole (genuine cs) m (file_at (n_store (l_peer l')) (output_path (n_home (l_peer l)) fid m))"
  using h n
proof (induction n arbitrary: k l V)
  case 0
  then show ?case by (simp split: if_splits)
next
  case (Suc n)
  obtain l1 t where l1: "link_call E i (AppFiles (FStatusRequest fid)) l = (l1, Inr (AppFiles (FStatus fid t)))"
    "n_home (l_peer l1) = n_home (l_peer l)" "n_store (l_peer l1) = n_store (l_peer l)" "l_losses l1 = l_losses l"
    "ongoing m t" "set (ts_verified t) = V"
    "all_verified m t \<longrightarrow> whole (genuine cs) m (file_at (n_store (l_peer l)) (output_path (n_home (l_peer l)) fid m))"
    using poll_tells [OF Suc.prems(1) s Suc.prems(2)] by blast
  note ai = all_indices [OF l1(5) ix(2)]
  show ?case
  proof (cases "ts_complete t")
    case True
    with l1 ai(2) show ?thesis by (intro exI [of _ l1] exI [of _ t]) simp
  next
    case False
    let ?ds = "filter (\<lambda>c. ck_index c \<in> set (ts_missing t)) cs"
    have V: "V \<noteq> ck_index ` set cs" using False ai(1) l1(6) ix(1) by simp
    then have n: "length (l_losses l) + 2 \<le> Suc n" using Suc.prems(4) by simp
    have h1: "has_chunks E fid m cs V (l_peer l1)"
      using Suc.prems(1) l1(2,3) has_chunks_cong by metis
    obtain l2 where l2: "push_all (link_push E i) fid ?ds l1 = (l2, Inr ())"
      "has_chunks E fid m cs (V \<union> ck_index ` set (delivered (l_losses l1) ?ds)) (l_peer l2)"
      "l_losses l2 = drop (length ?ds) (l_losses l1)" "n_home (l_peer l2) = n_home (l_peer l1)"
      using push_delivers [OF s con _ h1, of ?ds] c by auto
    let ?V = "V \<union> ck_index ` set (delivered (l_losses l1) ?ds)"
    have ne: "?ds \<noteq> []"
    proof
      assume "?ds = []"
      then have "ck_index ` set cs \<inter> set (ts_missing t) = {}" by (auto simp: filter_empty_conv)
      moreover have "set (ts_missing t) \<subseteq> ck_index ` set cs" unfolding ai(3) ix(1) by (rule Diff_subset)
      ultimately have "set (ts_missing t) = {}" by (simp add: Int_absorb1)
      then have "of_nat ` {0..<length (fm_chunks m)} \<subseteq> set (ts_verified t)" using ai(3) by simp
      then show False using False ai(1,4) by (simp add: subset_antisym)
    qed
    have "if ?V = ck_index ` set cs then 1 \<le> n else length (l_losses l2) + 2 \<le> n"
    proof (cases "l_losses l1")
      case Nil
      then have "?V = V \<union> (ck_index ` set cs \<inter> set (ts_missing t))" by (auto simp: delivered_calm)
      also have "\<dots> = ck_index ` set cs" using ai(4) unfolding ai(3) ix(1) l1(6) by (rule fill_up)
      finally show ?thesis using n by simp
    next
      case (Cons x xs)
      then have "length (l_losses l2) < length (l_losses l)" using l2(3) l1(4) ne by (simp add: Suc_le_eq)
      then show ?thesis using n by simp
    qed
    from Suc.IH [OF l2(2) _ _ this, of "Suc k"] Suc.prems(2,3) obtain l' t' where
      "poll_loop n (Suc k) late (link_call E i) (link_push E i) fid cs l2 = Some (l', Inr t')"
      "ts_complete t'" "n_home (l_peer l') = n_home (l_peer l2)"
      "whole (genuine cs) m (file_at (n_store (l_peer l')) (output_path (n_home (l_peer l2)) fid m))"
      by auto
    then show ?thesis using l1 l2 False Suc.prems(3) [of k] by (intro exI [of _ l'] exI [of _ t']) simp
  qed
qed

lemma build_source_id:
  assumes "build_source E me fname (Inr (sz, blocks)) = Inr (m, cs)"
  shows "\<exists>fid. need_id E m = Inr fid"
proof -
  have "build_manifest (e_crates E) (k_manifest (e_codecs E)) me fname (Inr (sz, blocks)) DEFAULT_CHUNK_SIZE = Inr (m, cs)"
    using assms by (simp add: build_source_def bind_simps)
  from build_manifest_ok(4,5) [OF this] show ?thesis
    by (auto simp: need_id_def manifest_id_def ok_or_def)
qed

text \<open>C13: a file sent over a link that loses chunks arrives. If the receiver's disk is healthy, the first
  pass delivers at least one chunk, and the link loses no more than \<open>length losses\<close> chunks before
  it stops losing them, then the sender returns within that many polling rounds and two more, unless the
  deadline passes first; the state it returns is complete, and the file lies at its output path at
  the receiver, byte for byte.\<close>

theorem lossy_transfer_completes:
  assumes built: "build_source E me fname (Inr (sz, blocks)) = Inr (m, cs)" and fid: "need_id E m = Inr fid"
    and sz: "length (concat blocks) = unat sz" and "blocks \<noteq> []" and key: "ed_complete (e_crates E)"
    and s: "sendable E i fid m cs" and f: "fresh_cache (n_home (l_peer l)) fid (n_store (l_peer l))"
    and first: "delivered (l_losses l) cs \<noteq> []"
    and fuel: "length (l_losses l) + 2 \<le> fuel" and late: "\<And>j. j < fuel \<Longrightarrow> \<not> late j"
  shows "\<exists>l' t. send_file_and_wait fuel late E me fname (Inr (sz, blocks)) (Inr (sz, blocks)) (link_call E i) (link_push E i) l
      = Some (l', Inr t)
    \<and> ts_complete t
    \<and> file_at (n_store (l_peer l')) (output_path (n_home (l_peer l)) fid m) = Some (concat blocks)"
proof -
  let ?C = "e_crates E" and ?MC = "k_manifest (e_codecs E)" and ?home = "n_home (l_peer l)"
  have b: "build_manifest ?C ?MC me fname (Inr (sz, blocks)) DEFAULT_CHUNK_SIZE = Inr (m, cs)"
    using built by (simp add: build_source_def bind_simps)
  note g = built_genuine [OF b]
  have con: "consistent (genuine cs) ?C m" using g(6) [OF sz] .
  have c: "verify_chunk ?C m c = Inr () \<and> genuine cs (ck_index c) (ck_data c)" if "c \<in> set cs" for c
    using built_chunks_verify [OF b that] g(2) [OF that] by simp
  have n: "length cs < 2 ^ 32" using build_chunks_ok(4) [OF build_manifest_ok(1) [OF b]] by simp
  have ix: "ck_index ` set cs = of_nat ` {0..<length (fm_chunks m)}" "length (fm_chunks m) \<le> 2 ^ 32"
    using g(1,5) n by simp_all
  have ne: "fm_chunks m \<noteq> []" "cs \<noteq> []" using assms(4) g(1,3) by auto
  have v: "verify_manifest ?C ?MC m = Inr ()"
    using built_signature_verifies [OF key b] ne by (simp add: verify_manifest_def)
  let ?who = "finger E (public_of ?C me)" and ?miss = "ts_missing (transfer_new m)"
  have miss: "set ?miss = ck_index ` set cs"
    using all_indices(3) [of m "transfer_new m"] ix by (simp add: ongoing_def transfer_new_def)
  then have all: "filter (\<lambda>c. ?miss = [] \<or> ck_index c \<in> set ?miss) cs = cs" by (simp add: filter_id_conv)
  obtain l1 where l1: "link_call E i (AppFiles (FAnnounce fid m ?who)) l = (l1, Inr (AppFiles (FAccept fid ?miss)))"
    "n_home (l_peer l1) = ?home" "l_losses l1 = l_losses l" "has_chunks E fid m cs {} (l_peer l1)"
    using link_announce [OF s f v ne(1)] by blast
  obtain l2 where l2: "push_all (link_push E i) fid cs l1 = (l2, Inr ())"
    "has_chunks E fid m cs (ck_index ` set (delivered (l_losses l) cs)) (l_peer l2)"
    "l_losses l2 = drop (length cs) (l_losses l)" "n_home (l_peer l2) = ?home"
    using push_delivers [OF s con _ l1(4), of cs] c l1(2,3) by auto
  have send: "\<exists>t. send_file E me fname (Inr (sz, blocks)) (link_call E i) (link_push E i) l = (l2, Inr t)"
    using built fid l1(1) l2(1) all by (simp add: send_file_def bindS_def lift_result_def ret_def)
  have "if ck_index ` set (delivered (l_losses l) cs) = ck_index ` set cs then 1 \<le> fuel
      else length (l_losses l2) + 2 \<le> fuel"
    using fuel l2(3) by auto
  with poll_completes [OF s con c ix l2(2), of 0 fuel late] first late l2(4) obtain l' t where
    p: "poll_loop fuel 0 late (link_call E i) (link_push E i) fid cs l2 = Some (l', Inr t)" "ts_complete t"
    "whole (genuine cs) m (file_at (n_store (l_peer l')) (output_path ?home fid m))" by auto
  from p(3) have "file_at (n_store (l_peer l')) (output_path ?home fid m) = Some (concat blocks)"
    using genuine_concat [of cs] g(1,3) by (auto simp: whole_def)
  with p send built fid show ?thesis by (auto simp: send_file_and_wait_def)
qed

section \<open>A closed example\<close>

text \<open>A file of two chunks over a link that loses the first push and the third.\<close>

definition sent_manifest :: file_manifest where
  "sent_manifest = demo_manifest\<lparr>fm_chunk_size := 786432, fm_signature := [9, 1]\<rparr>"

definition sent_states :: "transfer_state list" where
  "sent_states = map (\<lambda>vs. \<lparr>ts_manifest = sent_manifest, ts_verified = vs, ts_lost = []\<rparr>)
     [[], [0], [1], [0, 1], [1, 0]]"

definition sent_id :: string where "sent_id = [CHR 0x01]"

definition lossy_env :: env where
  "lossy_env = (demo_env 0)\<lparr>e_codecs := demo_app_codecs\<lparr>
     k_app := table_codec (map (\<lambda>c. AppFiles (FChunk sent_id c)) demo_chunks @ [AppFiles (FAccept sent_id [0, 1])]
       @ map (\<lambda>t. AppFiles (FStatus sent_id t)) sent_states),
     k_message := raw_message,
     k_manifest := table_codec [demo_manifest, sent_manifest\<lparr>fm_signature := replicate 64 0\<rparr>, sent_manifest],
     k_state := table_codec sent_states\<rparr>\<rparr>"

definition lossy_link :: link where
  "lossy_link = \<lparr>l_peer = demo_node (fresh_store [''h'']), l_losses = [True, False, True]\<rparr>"

lemma lossy_env_simps:
  "e_crates lossy_env = demo_crates" "k_message (e_codecs lossy_env) = raw_message"
  "k_state (e_codecs lossy_env) = table_codec sent_states"
  "k_manifest (e_codecs lossy_env)
    = table_codec [demo_manifest, sent_manifest\<lparr>fm_signature := replicate 64 0\<rparr>, sent_manifest]"
  "k_app (e_codecs lossy_env) = table_codec (map (\<lambda>c. AppFiles (FChunk sent_id c)) demo_chunks
     @ [AppFiles (FAccept sent_id [0, 1])] @ map (\<lambda>t. AppFiles (FStatus sent_id t)) sent_states)"
  by (simp_all add: lossy_env_def demo_env_def)

lemma table_enc: "v \<in> set vs \<Longrightarrow> \<exists>b. enc (table_codec vs) v = Some b \<and> length b < length vs"
  using find_Some_mem [of "\<lambda>i. vs ! i = v" "[0..<length vs]"] find_None_all [of "\<lambda>i. vs ! i = v" "[0..<length vs]"]
  by (cases "find (\<lambda>i. vs ! i = v) [0..<length vs]") (auto simp: table_codec_def in_set_conv_nth)

lemma lossy_sendable: "sendable lossy_env i sent_id sent_manifest demo_chunks"
proof -
  let ?A = "k_app (e_codecs lossy_env)"
  have app: "\<exists>b. enc ?A f = Some b \<and> length b \<le> 100" if "f \<in> set (map (\<lambda>c. AppFiles (FChunk sent_id c)) demo_chunks
     @ [AppFiles (FAccept sent_id [0, 1])] @ map (\<lambda>t. AppFiles (FStatus sent_id t)) sent_states)" for f
    using table_enc [OF that] by (auto simp: lossy_env_simps demo_chunks_def sent_states_def)
  have rep: "snd (reply lossy_env req f n) = Inr ()" if "\<exists>b. enc ?A f = Some b \<and> length b \<le> 100" for req f n
    using that reply_small [of lossy_env] by (auto simp: lossy_env_simps)
  have st: "t \<in> set sent_states" if "ongoing sent_manifest t" for t
    using ongoing_two [OF that] by (simp add: sent_states_def sent_manifest_def demo_manifest_def)
  have "ts_missing (transfer_new sent_manifest) = [0, 1]"
    by (simp add: ts_missing_def transfer_new_def sent_manifest_def demo_manifest_def)
  moreover have "is_ok (frame_encode ?A (AppFiles (FChunk sent_id c)))" if "c \<in> set demo_chunks" for c
    using app [of "AppFiles (FChunk sent_id c)"] that
    by (auto simp: frame_encode_def ok_or_def is_ok_iff MAX_MESSAGE_SIZE_def)
  moreover have "enc (k_manifest (e_codecs lossy_env)) sent_manifest \<noteq> None"
    using table_enc [of sent_manifest "[demo_manifest, sent_manifest\<lparr>fm_signature := replicate 64 0\<rparr>, sent_manifest]"]
    by (auto simp: lossy_env_simps)
  moreover have "enc (k_state (e_codecs lossy_env)) t \<noteq> None" if "ongoing sent_manifest t" for t
    using table_enc [OF st [OF that]] by (auto simp: lossy_env_simps)
  moreover have "safe_name sent_manifest" by (simp add: safe_name_def sent_manifest_def demo_manifest_def plain_name_def)
  ultimately show ?thesis
    using st by (auto simp: sendable_def lossy_env_simps(3-5) table_codec_ok intro!: rep app)
qed

lemma sent_char: "char_of (Suc 0) = CHR 0x01"
  by (simp add: char_of_def bit_Suc_0_iff)

lemma lossy_built:
  "build_source lossy_env demo_signer (Some ''f'') (Inr (3, [[1, 2], [3]])) = Inr (sent_manifest, demo_chunks)"
  "need_id lossy_env sent_manifest = Inr sent_id"
  by (simp_all add: build_source_def build_manifest_def map_err_def Let_def unsigned_bytes_def ok_or_def lossy_env_simps
      table_codec_def demo_crates_def demo_manifest_def sent_manifest_def demo_signer_def demo_chunks_def public_of_def
      sign_with_def DEFAULT_CHUNK_SIZE_def need_id_def manifest_id_def sent_id_def sent_char)

lemma lossy_transfer_completes_witness:
  "\<exists>l' t. send_file_and_wait 5 (\<lambda>_. False) lossy_env demo_signer (Some ''f'') (Inr (3, [[1, 2], [3]]))
      (Inr (3, [[1, 2], [3]])) (link_call lossy_env (public_of demo_crates demo_signer))
      (link_push lossy_env (public_of demo_crates demo_signer)) lossy_link = Some (l', Inr t)
    \<and> ts_complete t
    \<and> file_at (n_store (l_peer l')) [''h'', ''incoming'', [CHR 0x01], ''f''] = Some [1, 2, 3]"
proof -
  have dir: "transfer_dir [''h''] sent_id = [''h'', ''incoming'', [CHR 0x01]]"
    by (simp add: transfer_dir_def transfers_dir_def path_join_def sent_id_def)
  have home: "n_home (l_peer lossy_link) = [''h'']" by (simp add: lossy_link_def)
  have "safe_name sent_manifest" by (simp add: safe_name_def sent_manifest_def demo_manifest_def plain_name_def)
  then have out: "output_path [''h''] sent_id sent_manifest = [''h'', ''incoming'', [CHR 0x01], ''f'']"
    by (simp add: output_path_safe dir sent_manifest_def demo_manifest_def)
  have "fresh_cache [''h''] sent_id (fresh_store [''h''])"
    by (simp add: fresh_cache_def dir fresh_store_def is_dir_def prefixes_of_def file_at_def)
  then have f: "fresh_cache (n_home (l_peer lossy_link)) sent_id (n_store (l_peer lossy_link))"
    by (simp add: lossy_link_def)
  have "delivered (l_losses lossy_link) demo_chunks \<noteq> []" by (simp add: lossy_link_def demo_chunks_def)
  from lossy_transfer_completes [OF lossy_built _ _ _ lossy_sendable f this, of 5 "\<lambda>_. False"] demo_ed_complete
  show ?thesis by (simp add: lossy_env_simps(1) home out lossy_link_def)
qed

end
