(* ===== verification/Ssh.thy ===== *)
theory Ssh
  imports Identity
begin

text \<open>
  \<open>src/ssh/mod.rs\<close>: the device directory and the SSH redirector. What the redirector does is to choose
  the arguments of the \<open>ssh\<close> process; the model gives the argument list. \<open>IpAddr\<close> parsing is the
  standard library's, written out as a recogniser. The lemmas show what a directory looks like after
  an addition and what an argument list can contain.
\<close>

section \<open>Devices\<close>

record resolution =
  rs_host :: string
  rs_port :: "16 word"
  rs_known_hosts :: string

record device_record =
  dr_identity :: public_identity
  dr_alias :: string
  dr_user :: string
  dr_resolution :: resolution

type_synonym resolution_directory = "device_record list"

definition dir_add :: "device_record \<Rightarrow> resolution_directory \<Rightarrow> resolution_directory" where
  "dir_add r ds = filter (\<lambda>d. dr_identity d \<noteq> dr_identity r \<and> dr_alias d \<noteq> dr_alias r) ds @ [r]"

definition dir_resolve :: "crates \<Rightarrow> string \<Rightarrow> resolution_directory \<Rightarrow> device_record option" where
  "dir_resolve C k ds = find (\<lambda>d. dr_alias d = k \<or> fingerprint C (dr_identity d) = k) ds"

definition empty_directory :: resolution_directory where
  "empty_directory = []"

definition whoami :: "crates \<Rightarrow> public_identity \<Rightarrow> string" where
  "whoami C i = fingerprint C i"

definition devices :: "crates \<Rightarrow> resolution_directory \<Rightarrow> (string \<times> string) list" where
  "devices C ds = map (\<lambda>d. (dr_alias d, fingerprint C (dr_identity d))) ds"

section \<open>Hosts\<close>

definition char_code :: "char \<Rightarrow> nat" where
  "char_code c = of_char c"

definition is_hexdigit :: "char \<Rightarrow> bool" where
  "is_hexdigit c \<longleftrightarrow> (let n = char_code c in
     (48 \<le> n \<and> n \<le> 57) \<or> (65 \<le> n \<and> n \<le> 70) \<or> (97 \<le> n \<and> n \<le> 102))"

text \<open>An octet has up to three digits, no leading zero, and a value below 256.\<close>

definition ipv4_octet :: "string \<Rightarrow> bool" where
  "ipv4_octet s \<longleftrightarrow> s \<noteq> [] \<and> length s \<le> 3 \<and> list_all is_digit s
     \<and> (hd s \<noteq> CHR ''0'' \<or> length s = 1) \<and> undec s < 256"

definition is_ipv4 :: "string \<Rightarrow> bool" where
  "is_ipv4 s \<longleftrightarrow> (let ps = split_on (CHR ''.'') s in length ps = 4 \<and> list_all ipv4_octet ps)"

definition ipv6_group :: "string \<Rightarrow> bool" where
  "ipv6_group s \<longleftrightarrow> s \<noteq> [] \<and> length s \<le> 4 \<and> list_all is_hexdigit s"

text \<open>How many 16-bit groups a sequence of pieces stands for; a last piece may be an IPv4 address,
  which stands for two.\<close>

fun group_count :: "bool \<Rightarrow> string list \<Rightarrow> nat option" where
  "group_count v4 [] = Some 0"
| "group_count v4 [p] = (if ipv6_group p then Some 1 else if v4 \<and> is_ipv4 p then Some 2 else None)"
| "group_count v4 (p # q # ps) =
     (if ipv6_group p then map_option Suc (group_count v4 (q # ps)) else None)"

fun split_double_colon :: "string \<Rightarrow> (string \<times> string) option" where
  "split_double_colon (a # b # s) =
     (if a = CHR '':'' \<and> b = CHR '':'' then Some ([], s)
      else map_option (\<lambda>(h, t). (a # h, t)) (split_double_colon (b # s)))"
| "split_double_colon s = None"

definition pieces :: "string \<Rightarrow> string list" where
  "pieces s = (if s = [] then [] else split_on (CHR '':'') s)"

definition is_ipv6 :: "string \<Rightarrow> bool" where
  "is_ipv6 s = (case split_double_colon s of
       None \<Rightarrow> group_count True (split_on (CHR '':'') s) = Some 8
     | Some (h, t) \<Rightarrow> (case (group_count False (pieces h), group_count True (pieces t)) of
         (Some a, Some b) \<Rightarrow> a + b \<le> 7 | _ \<Rightarrow> False))"

definition is_ip :: "string \<Rightarrow> bool" where
  "is_ip s \<longleftrightarrow> is_ipv4 s \<or> is_ipv6 s"

definition host_char :: "char \<Rightarrow> bool" where
  "host_char c \<longleftrightarrow> is_ascii_alphanumeric c \<or> c = CHR ''.'' \<or> c = CHR ''-''"

definition validate_host :: "string \<Rightarrow> bool" where
  "validate_host h \<longleftrightarrow> is_ip h \<or> (h \<noteq> [] \<and> utf8_len h \<le> 253 \<and> list_all host_char h)"

section \<open>Connecting\<close>

definition ssh_arguments :: "device_record \<Rightarrow> string list \<Rightarrow> string list" where
  "ssh_arguments r cmd =
     [''-p'', dec_digits (unat (rs_port (dr_resolution r))), ''-o'',
      ''UserKnownHostsFile='' @ rs_known_hosts (dr_resolution r),
      dr_user r @ ''@'' @ rs_host (dr_resolution r)]
     @ (if cmd = [] then [] else ''--'' # cmd)"

definition connect :: "crates \<Rightarrow> resolution_directory \<Rightarrow> string \<Rightarrow> string list \<Rightarrow> io_error + string list" where
  "connect C ds k cmd = (case dir_resolve C k ds of
       None \<Rightarrow> Inl (IoError NotFound ''device not found'')
     | Some r \<Rightarrow>
         if \<not> validate_host (rs_host (dr_resolution r)) then Inl (IoError InvalidInput ''invalid SSH host'')
         else Inr (ssh_arguments r cmd))"

section \<open>Facts about directories\<close>

text \<open>No two entries share an identity or an alias.\<close>

definition dir_ok :: "resolution_directory \<Rightarrow> bool" where
  "dir_ok ds \<longleftrightarrow> distinct (map dr_identity ds) \<and> distinct (map dr_alias ds)"

lemma dir_add_ok: "dir_ok ds \<Longrightarrow> dir_ok (dir_add r ds)"
  by (auto simp: dir_ok_def dir_add_def distinct_map_filter)

lemma dir_add_mem: "d \<in> set (dir_add r ds) \<longleftrightarrow>
    d = r \<or> (d \<in> set ds \<and> dr_identity d \<noteq> dr_identity r \<and> dr_alias d \<noteq> dr_alias r)"
  by (auto simp: dir_add_def)

lemma dir_resolve_mem: "dir_resolve C k ds = Some d \<Longrightarrow> d \<in> set ds \<and> (dr_alias d = k \<or> fingerprint C (dr_identity d) = k)"
  unfolding dir_resolve_def by (auto dest: find_Some_mem)

text \<open>An alias resolves to what was added last under it, unless it is an older device's fingerprint.\<close>

lemma dir_resolve_added:
  assumes "\<And>d. d \<in> set ds \<Longrightarrow> fingerprint C (dr_identity d) \<noteq> dr_alias r"
  shows "dir_resolve C (dr_alias r) (dir_add r ds) = Some r"
proof -
  have "find (\<lambda>d. dr_alias d = dr_alias r \<or> fingerprint C (dr_identity d) = dr_alias r)
      (filter (\<lambda>d. dr_identity d \<noteq> dr_identity r \<and> dr_alias d \<noteq> dr_alias r) ds @ [r]) = Some r"
    using assms by (induction ds) auto
  then show ?thesis by (simp add: dir_resolve_def dir_add_def)
qed

section \<open>What reaches the process\<close>

lemma split_on_covers: "x \<in> set s \<Longrightarrow> x = c \<or> (\<exists>p\<in>set (split_on c s). x \<in> set p)"
  by (induction s) (auto split: list.splits if_splits)

lemma split_double_colon_covers: "split_double_colon s = Some (h, t) \<Longrightarrow> s = h @ [CHR '':'', CHR '':''] @ t"
  by (induction s arbitrary: h rule: split_double_colon.induct) (auto split: if_splits)

definition address_char :: "char \<Rightarrow> bool" where
  "address_char c \<longleftrightarrow> host_char c \<or> c = CHR '':''"

lemma digit_address [simp]: "is_digit c \<Longrightarrow> address_char c"
  by (auto simp: address_char_def host_char_def is_ascii_alphanumeric_def is_digit_def Let_def)

lemma hexdigit_address [simp]: "is_hexdigit c \<Longrightarrow> address_char c"
  by (auto simp: address_char_def host_char_def is_ascii_alphanumeric_def is_hexdigit_def char_code_def Let_def)

lemma punctuation_address [simp]: "address_char (CHR '':'')" "address_char (CHR ''.'')"
  by (simp_all add: address_char_def host_char_def)

lemma ipv4_chars: "is_ipv4 s \<Longrightarrow> list_all address_char s"
  using split_on_covers [of _ s "CHR ''.''"]
  by (fastforce simp: is_ipv4_def Let_def ipv4_octet_def list_all_iff)

lemma group_chars: "group_count v4 ps = Some n \<Longrightarrow> p \<in> set ps \<Longrightarrow> list_all address_char p"
proof (induction v4 ps arbitrary: n rule: group_count.induct)
  case (1 v4)
  then show ?case by simp
next
  case (2 v4 q)
  then show ?case by (auto simp: ipv6_group_def list_all_iff dest: ipv4_chars split: if_splits)
next
  case (3 v4 q r ps)
  then show ?case by (auto simp: ipv6_group_def list_all_iff split: if_splits)
qed

lemma piece_chars: "group_count v4 (pieces s) = Some n \<Longrightarrow> list_all address_char s"
  using split_on_covers [of _ s "CHR '':''"] group_chars [of v4 "pieces s" n]
  by (fastforce simp: pieces_def list_all_iff split: if_splits)

lemma ipv6_chars: "is_ipv6 s \<Longrightarrow> list_all address_char s"
proof (cases "split_double_colon s")
  case None
  moreover assume "is_ipv6 s"
  ultimately have "s \<noteq> []" "group_count True (split_on (CHR '':'') s) = Some 8"
    by (auto simp: is_ipv6_def ipv6_group_def is_ipv4_def)
  then show ?thesis by (intro piece_chars [of True s 8]) (simp add: pieces_def)
next
  case (Some ht)
  moreover assume "is_ipv6 s"
  ultimately obtain h t a b where "s = h @ [CHR '':'', CHR '':''] @ t"
    "group_count False (pieces h) = Some a" "group_count True (pieces t) = Some b"
    by (cases ht) (auto simp: is_ipv6_def dest: split_double_colon_covers split: option.splits)
  then show ?thesis by (simp add: piece_chars)
qed

lemma validated_chars: "validate_host h \<Longrightarrow> h \<noteq> [] \<and> list_all address_char h"
proof -
  assume v: "validate_host h"
  have "is_ip h \<Longrightarrow> h \<noteq> []" by (auto simp: is_ip_def is_ipv4_def is_ipv6_def ipv4_octet_def ipv6_group_def)
  then show ?thesis using v
    by (auto simp: validate_host_def is_ip_def ipv4_chars ipv6_chars) (simp add: list_all_iff address_char_def)
qed


definition demo_device :: device_record where
  "demo_device = \<lparr>dr_identity = \<lparr>public_key = [7]\<rparr>, dr_alias = ''core'', dr_user = ''neo'',
     dr_resolution = \<lparr>rs_host = ''127.0.0.1'', rs_port = 22, rs_known_hosts = ''kh''\<rparr>\<rparr>"


end
