(* ===== verification/Shell.thy ===== *)
theory Shell
  imports Store
begin

text \<open>
  \<open>src/shell.rs\<close> without its drive (see \<open>Vfs\<close>): byte sizes, the clock, the command history, the
  tokenizer and the prompt. The lemmas show that the history keeps the newest lines, that the
  tokenizer undoes quoting, and that a size is shown with the unit that fits.

  What the \<open>date\<close> program prints is an argument of \<open>now_hm\<close>.
\<close>

section \<open>Sizes and the clock\<close>

text \<open>The loop of \<open>fmt_bytes\<close>: \<open>u\<close> is the unit reached, the list the units that are left.\<close>

fun fmt_loop :: "u64 \<Rightarrow> string \<Rightarrow> string list \<Rightarrow> string" where
  "fmt_loop b u [] = dec_digits (unat b) @ u"
| "fmt_loop b u (v # us) = (if b \<ge> 1024 then fmt_loop (b div 1024) v us else dec_digits (unat b) @ u)"

definition fmt_bytes :: "u64 \<Rightarrow> string" where
  "fmt_bytes b = fmt_loop b ''B'' [''KB'', ''MB'', ''GB'', ''TB'']"

definition two_digits :: "nat \<Rightarrow> string" where
  "two_digits n = (if n < 10 then ''0'' else []) @ dec_digits n"

definition now_hm :: "string option \<Rightarrow> u64 \<Rightarrow> string" where
  "now_hm date_out since =
     (let utc = two_digits (unat ((since div 3600) mod 24)) @ '':'' @ two_digits (unat ((since div 60) mod 60)) @ '' UTC'' in
      case date_out of
        None \<Rightarrow> utc
      | Some out \<Rightarrow> (let s = trim_matches is_whitespace out in if utf8_len s = 5 then s else utc))"

section \<open>The history\<close>

record history =
  h_entries :: "string list"

definition history_path :: "path \<Rightarrow> path" where
  "history_path root = root @ [''shell'', ''history'']"

definition history_load :: "history codec \<Rightarrow> path \<Rightarrow> store \<Rightarrow> history" where
  "history_load K root = load_doc K \<lparr>h_entries = []\<rparr> (history_path root)"

definition history_push :: "string \<Rightarrow> history \<Rightarrow> history" where
  "history_push raw h = (let line = trim_matches is_whitespace raw in
     if line = [] then h
     else (let es = (if h_entries h \<noteq> [] \<and> last (h_entries h) = line then h_entries h else h_entries h @ [line]) in
       \<lparr>h_entries = (if length es > 50 then drop (length es - 50) es else es)\<rparr>))"

definition history_save :: "history codec \<Rightarrow> path \<Rightarrow> history \<Rightarrow> (store, io_error, unit) op" where
  "history_save K root h =
     bindS (fs_mkdirs (root @ [''shell''])) (\<lambda>_.
     bindS (lift_result (ok_or (IoError Other ''serde_json'') (enc K h))) (\<lambda>b.
       write_then_rename (root @ [''shell'', with_extension ''tmp'' ''history'']) (history_path root) b))"

section \<open>The tokenizer\<close>

definition is_quote :: "char \<Rightarrow> bool" where
  "is_quote c \<longleftrightarrow> c = CHR 0x27 \<or> c = CHR 0x22"

text \<open>The state of the loop: the open quote and the word so far.\<close>

fun tok :: "char option \<Rightarrow> string \<Rightarrow> string \<Rightarrow> string list" where
  "tok q cur [] = (if cur = [] then [] else [cur])"
| "tok (Some q) cur (c # cs) = (if c = q then tok None cur cs else tok (Some q) (cur @ [c]) cs)"
| "tok None cur (c # cs) =
     (if is_quote c then (if cur = [] then tok (Some c) cur cs else tok None (cur @ [c]) cs)
      else if is_whitespace c then (if cur = [] then tok None cur cs else cur # tok None [] cs)
      else tok None (cur @ [c]) cs)"

definition tokenize :: "string \<Rightarrow> string list" where
  "tokenize line = tok None [] line"

section \<open>The prompt\<close>

definition esc :: "string \<Rightarrow> string" where
  "esc s = [CHR 0x1B] @ ''['' @ s @ ''m''"

definition GREEN :: string where "GREEN = esc ''1;32''"
definition YELLOW :: string where "YELLOW = esc ''1;33''"
definition DIM :: string where "DIM = esc ''2''"
definition RESET :: string where "RESET = esc ''0''"

datatype shell_context = Local | Remote string

definition prompt :: "string option \<Rightarrow> shell_context \<Rightarrow> string \<Rightarrow> string" where
  "prompt clock ctx cwd =
     (let time = (case clock of None \<Rightarrow> [] | Some hm \<Rightarrow> DIM @ '' '' @ hm) in
      case ctx of
        Local \<Rightarrow> ''NEONET '' @ GREEN @ ''L:'' @ cwd @ RESET @ ''>'' @ time @ '' ''
      | Remote alias \<Rightarrow> ''NEONET['' @ YELLOW @ alias @ RESET @ ''] '' @ GREEN @ cwd @ RESET @ ''>'' @ time @ '' '')"

section \<open>Facts about sizes\<close>

text \<open>The number shown is the size in the unit, rounded down, and below 1024 unless the unit is the
  largest.\<close>

lemma fmt_loop_value:
  "\<exists>k \<le> length us. fmt_loop b u us = dec_digits (unat b div 1024 ^ k) @ (u # us) ! k
    \<and> (k < length us \<longrightarrow> unat b div 1024 ^ k < 1024) \<and> (0 < k \<longrightarrow> 1024 ^ k \<le> unat b)"
proof (induction b u us rule: fmt_loop.induct)
  case (1 b u)
  show ?case by simp
next
  case (2 b u v us)
  show ?case
  proof (cases "b \<ge> 1024")
    case False
    then have "unat b < 1024" by (simp add: word_le_nat_alt)
    then show ?thesis using False by (intro exI [of _ 0]) simp
  next
    case True
    then have b: "1024 \<le> unat b" by (simp add: word_le_nat_alt)
    have d: "unat (b div 1024) = unat b div 1024" by (simp add: unat_div)
    from 2 [OF True] obtain k where k: "k \<le> length us"
      "fmt_loop (b div 1024) v us = dec_digits (unat (b div 1024) div 1024 ^ k) @ (v # us) ! k"
      "k < length us \<longrightarrow> unat (b div 1024) div 1024 ^ k < 1024"
      "0 < k \<longrightarrow> 1024 ^ k \<le> unat (b div 1024)" by blast
    have "1024 ^ Suc k \<le> unat b"
    proof (cases "k = 0")
      case False
      then have "1024 ^ k \<le> unat b div 1024" using k(4) d by simp
      then show ?thesis by (simp add: less_eq_div_iff_mult_less_eq mult.commute)
    qed (use b in simp)
    with True k d show ?thesis by (intro exI [of _ "Suc k"]) (simp add: div_mult2_eq)
  qed
qed

section \<open>Facts about the history\<close>

text \<open>Adjacent repetitions dropped, the last of each run kept.\<close>

lemma remdups_adj_snoc:
  "remdups_adj (xs @ [x]) = (if xs \<noteq> [] \<and> last xs = x then remdups_adj xs else remdups_adj xs @ [x])"
  by (induction xs rule: remdups_adj.induct) auto

lemma lastn_last: "0 < n \<Longrightarrow> xs \<noteq> [] \<Longrightarrow> lastn n xs \<noteq> [] \<and> last (lastn n xs) = last xs"
proof -
  assume "0 < n" "xs \<noteq> []"
  then have "length xs - n < length xs" by (simp add: diff_less)
  then show ?thesis by (simp add: lastn_def last_drop)
qed

definition kept_lines :: "string list \<Rightarrow> string list" where
  "kept_lines ls = filter (\<lambda>l. l \<noteq> []) (map (trim_matches is_whitespace) ls)"

lemma history_push_entries:
  assumes "h_entries h = lastn 50 (remdups_adj xs)"
  shows "h_entries (history_push l h) = lastn 50 (remdups_adj (xs @ kept_lines [l]))"
proof (cases "trim_matches is_whitespace l = []")
  case True
  then show ?thesis using assms by (simp add: history_push_def kept_lines_def)
next
  case False
  let ?l = "trim_matches is_whitespace l"
  have same: "h_entries h \<noteq> [] \<and> last (h_entries h) = ?l \<longleftrightarrow> xs \<noteq> [] \<and> last xs = ?l"
    using assms lastn_last [of 50 "remdups_adj xs"] by (cases "xs = []") (auto simp: lastn_def last_remdups_adj)
  have cut: "(if length es > 50 then drop (length es - 50) es else es) = lastn 50 es" for es :: "string list"
    by (simp add: lastn_def)
  show ?thesis
    using False same assms lastn_append [of 50 "remdups_adj xs" "[?l]"]
    by (auto simp: history_push_def Let_def kept_lines_def cut remdups_adj_snoc lastn_all)
qed

section \<open>The tokenizer undoes quoting\<close>

text \<open>A word that one kind of quote can hold.\<close>

definition quotable :: "string \<Rightarrow> bool" where
  "quotable w \<longleftrightarrow> w \<noteq> [] \<and> (CHR 0x22 \<notin> set w \<or> CHR 0x27 \<notin> set w)"

definition quote_word :: "string \<Rightarrow> string" where
  "quote_word w = (if CHR 0x22 \<notin> set w then [CHR 0x22] @ w @ [CHR 0x22] else [CHR 0x27] @ w @ [CHR 0x27])"

text \<open>A word that needs no quotes.\<close>

definition bare :: "string \<Rightarrow> bool" where
  "bare w \<longleftrightarrow> w \<noteq> [] \<and> \<not> is_quote (hd w) \<and> list_all (\<lambda>c. \<not> is_whitespace c) w"

definition render :: "string list \<Rightarrow> string" where
  "render ws = join_with '' '' (map (\<lambda>w. if bare w then w else quote_word w) ws)"

lemma tok_quoted: "q \<notin> set w \<Longrightarrow> tok (Some q) cur (w @ q # cs) = tok None (cur @ w) cs"
  by (induction w arbitrary: cur) auto

lemma tok_bare: "list_all (\<lambda>c. \<not> is_whitespace c) w \<Longrightarrow> cur \<noteq> [] \<Longrightarrow> tok None cur (w @ cs) = tok None (cur @ w) cs"
  by (induction w arbitrary: cur) auto

lemma tok_word:
  assumes "bare w \<or> quotable w"
  shows "tok None [] ((if bare w then w else quote_word w) @ cs) = tok None w cs"
proof (cases "bare w")
  case True
  then obtain c w' where "w = c # w'" "\<not> is_quote c" "\<not> is_whitespace c" "list_all (\<lambda>c. \<not> is_whitespace c) w'"
    by (cases w) (auto simp: bare_def)
  then show ?thesis using True tok_bare [of w' "[c]"] by simp
next
  case False
  then have "quotable w" using assms by simp
  then show ?thesis using False
    by (auto simp: quote_word_def quotable_def is_quote_def tok_quoted)
qed

lemma tok_flush: "cur \<noteq> [] \<Longrightarrow> tok None cur ('' '' @ cs) = cur # tok None [] cs"
  by (simp add: is_quote_def is_whitespace_def)

text \<open>Quoting and tokenizing are inverse: words rendered with quotes around those that need them
  and joined by spaces are read back as the same words, whether they hold spaces or one kind of quote.\<close>

theorem tokenize_roundtrip:
  "(\<And>w. w \<in> set ws \<Longrightarrow> bare w \<or> quotable w) \<Longrightarrow> tokenize (render ws) = ws"
proof (induction ws)
  case Nil
  then show ?case by (simp add: tokenize_def render_def)
next
  case (Cons w ws)
  have w: "bare w \<or> quotable w" "w \<noteq> []" using Cons.prems [of w] by (auto simp: bare_def quotable_def)
  show ?case
  proof (cases ws)
    case Nil
    then show ?thesis using tok_word [OF w(1), of "[]"] w(2) by (simp add: tokenize_def render_def)
  next
    case (Cons v vs)
    then have "render (w # ws) = (if bare w then w else quote_word w) @ '' '' @ render ws"
      by (simp add: render_def)
    then show ?thesis
      using tok_word [OF w(1), of "'' '' @ render ws"] tok_flush [OF w(2)] Cons.IH Cons.prems
      by (simp add: tokenize_def)
  qed
qed

lemma tokenize_roundtrip_witness:
  "tokenize (render [''send'', ''two words'', ''say '' @ [CHR 0x22] @ ''hi'' @ [CHR 0x22]])
     = [''send'', ''two words'', ''say '' @ [CHR 0x22] @ ''hi'' @ [CHR 0x22]]"
  by (rule tokenize_roundtrip) (auto simp: quotable_def)

section \<open>The newest lines\<close>

text \<open>The history holds the last fifty of the lines entered, blank ones left out, surrounding
  space removed and immediate repetitions counted once.\<close>

theorem history_newest:
  "h_entries (foldl (\<lambda>h l. history_push l h) \<lparr>h_entries = []\<rparr> ls) = lastn 50 (remdups_adj (kept_lines ls))"
proof (induction ls rule: rev_induct)
  case Nil
  then show ?case by (simp add: kept_lines_def lastn_def)
next
  case (snoc l ls)
  then show ?case using history_push_entries [of _ "kept_lines ls" l] by (simp add: kept_lines_def)
qed

end
