(* ===== verification/SysInfo.thy ===== *)
theory SysInfo
  imports Shell
begin

text \<open>
  The host rows of \<open>sysinfo\<close> in \<open>src/shell.rs\<close>: what the shell reads of \<open>/etc\<close>, \<open>/proc\<close> and \<open>/sys\<close> and how it
  reads it. What \<open>uname -sr\<close> prints when it succeeds, the name of the operating system the binary was
  built for and the working directory are arguments. The lemmas say what a file in the usual format
  is read as.
\<close>

section \<open>Reading\<close>

text \<open>\<open>fs::read_to_string\<close> with its error dropped, and \<open>str::strip_prefix\<close>.\<close>

definition slurp :: "store \<Rightarrow> path \<Rightarrow> string option" where
  "slurp s p = (case fs_read p s of Inl _ \<Rightarrow> None | Inr b \<Rightarrow> utf8_decode b)"

definition strip_prefix :: "string \<Rightarrow> string \<Rightarrow> string option" where
  "strip_prefix p s = (if take (length p) s = p then Some (drop (length p) s) else None)"

text \<open>\<open>Iterator::find_map\<close>\<close>

fun find_map :: "('a \<Rightarrow> 'b option) \<Rightarrow> 'a list \<Rightarrow> 'b option" where
  "find_map f [] = None"
| "find_map f (x # xs) = (case f x of Some y \<Rightarrow> Some y | None \<Rightarrow> find_map f xs)"

abbreviation trim :: "string \<Rightarrow> string" where
  "trim \<equiv> trim_matches is_whitespace"

text \<open>\<open>trim_end_matches("kB")\<close>: every copy at the end goes, by looking at the reversed text.\<close>

fun drop_kB :: "string \<Rightarrow> string" where
  "drop_kB (a # b # cs) = (if a = CHR ''B'' \<and> b = CHR ''k'' then drop_kB cs else a # b # cs)"
| "drop_kB s = s"

section \<open>The rows\<close>

definition hostname :: "path \<Rightarrow> store \<Rightarrow> string" where
  "hostname cwd s = (case map_option trim (find_map (slurp s)
       [[''etc'', ''hostname''], [''proc'', ''sys'', ''kernel'', ''hostname''], cwd @ [''hostname'']]) of
     None \<Rightarrow> ''unknown''
   | Some n \<Rightarrow> if n = [] then ''unknown'' else n)"

definition distro_name :: "string \<Rightarrow> store \<Rightarrow> string" where
  "distro_name os s = (case Option.bind (slurp s [''etc'', ''os-release'']) (\<lambda>t. find_map (strip_prefix ''NAME='') (str_lines t)) of
     Some rest \<Rightarrow> trim (trim_matches (\<lambda>c. c = CHR 0x22) rest)
   | None \<Rightarrow> if fs_exists s [''etc'', ''arch-release''] then ''Arch Linux''
       else if fs_exists s [''etc'', ''debian_version''] then ''Debian'' else os)"

definition kernel :: "bytes option \<Rightarrow> string \<Rightarrow> string" where
  "kernel uname os = (case Option.bind uname utf8_decode of Some t \<Rightarrow> trim t | None \<Rightarrow> os)"

definition mem_kb :: "string \<Rightarrow> u64" where
  "mem_kb v = (case parse_nat (2 ^ 64) (trim (rev (drop_kB (rev (trim v))))) of Some n \<Rightarrow> of_nat n | None \<Rightarrow> 0)"

definition ram_total :: "store \<Rightarrow> string" where
  "ram_total s = (let kb = (case Option.bind (slurp s [''proc'', ''meminfo''])
         (\<lambda>t. find_map (\<lambda>l. map_option mem_kb (strip_prefix ''MemTotal:'' l)) (str_lines t)) of Some k \<Rightarrow> k | None \<Rightarrow> 0) in
     fmt_bytes (kb * 1024))"

definition is_battery :: "string \<Rightarrow> bool" where
  "is_battery n \<longleftrightarrow> take 3 n = ''BAT'' \<and> n \<noteq> ''BATTERY''"

definition battery :: "store \<Rightarrow> string option" where
  "battery s = (let base = [''sys'', ''class'', ''power_supply''] in
     case fs_list_dir base s of
       Inl _ \<Rightarrow> None
     | Inr ns \<Rightarrow> (case find is_battery ns of
         None \<Rightarrow> None
       | Some n \<Rightarrow> (case map_option trim (slurp s (base @ [n, ''capacity''])) of
           None \<Rightarrow> None
         | Some cap \<Rightarrow> (let status = (case map_option trim (slurp s (base @ [n, ''status''])) of Some t \<Rightarrow> t | None \<Rightarrow> ''?'') in
             Some (''Battery     '' @ cap @ ''% ('' @ (if status = ''Charging'' then ''charging'' else ''on battery'') @ '')'')))))"

definition system_info :: "path \<Rightarrow> bytes option \<Rightarrow> string \<Rightarrow> store \<Rightarrow> string list" where
  "system_info cwd uname os s =
     [''Host        '' @ hostname cwd s, ''OS          '' @ distro_name os s,
      ''Kernel      '' @ kernel uname os, ''RAM total   '' @ ram_total s]
     @ (case battery s of Some b \<Rightarrow> [b] | None \<Rightarrow> [])"

section \<open>Facts\<close>

lemma strip_prefix_iff: "strip_prefix p s = Some t \<longleftrightarrow> s = p @ t"
  by (auto simp: strip_prefix_def) (metis append_take_drop_id)

lemma find_map_first: "(\<And>x. x \<in> set xs \<Longrightarrow> f x = None) \<Longrightarrow> f y = Some z \<Longrightarrow> find_map f (xs @ y # ys) = Some z"
  by (induction xs) auto

lemma find_map_None [simp]: "find_map f xs = None \<longleftrightarrow> (\<forall>x \<in> set xs. f x = None)"
  by (induction xs) (auto split: option.splits)

lemma trim_pad:
  assumes "s \<noteq> []" "\<not> p (hd s)" "\<not> p (last s)" "list_all p a" "list_all p b"
  shows "trim_matches p (a @ s @ b) = s"
proof -
  have front: "dropWhile p (c @ t @ u) = t @ u" if "list_all p c" "t \<noteq> []" "\<not> p (hd t)" for c t u
    using that by (cases t) (auto simp: dropWhile_append list_all_iff)
  show ?thesis
    using front [OF assms(4,1,2), of b] front [of "rev b" "rev s" "[]"] assms(1,3,5)
    by (simp add: trim_matches_def hd_rev list_all_iff)
qed

lemmas trim_plain = trim_pad [of _ _ "[]" "[]", simplified]

text \<open>The distribution is the text of the first \<open>NAME=\<close> line, without its quotes.\<close>

lemma distro_name_quoted:
  assumes "slurp s [''etc'', ''os-release''] = Some t"
    and "str_lines t = before @ (''NAME='' @ [CHR 0x22] @ n @ [CHR 0x22]) # after"
    and "\<And>l. l \<in> set before \<Longrightarrow> strip_prefix ''NAME='' l = None"
    and "n \<noteq> []" "CHR 0x22 \<notin> set n" "\<not> is_whitespace (hd n)" "\<not> is_whitespace (last n)"
  shows "distro_name os s = n"
proof -
  have f: "find_map (strip_prefix ''NAME='') (str_lines t) = Some ([CHR 0x22] @ n @ [CHR 0x22])"
    unfolding assms(2) using assms(3) by (intro find_map_first) (simp_all add: strip_prefix_def)
  have "hd n \<noteq> CHR 0x22" "last n \<noteq> CHR 0x22"
    using assms(4,5) hd_in_set [of n] last_in_set [of n] by metis+
  then have "trim_matches (\<lambda>c. c = CHR 0x22) ([CHR 0x22] @ n @ [CHR 0x22]) = n"
    by (intro trim_pad assms(4)) simp_all
  then show ?thesis using assms(1,4,6,7) f trim_plain [of n is_whitespace] by (simp add: distro_name_def)
qed

text \<open>A size in kilobytes is read as the number before its unit, if it fits.\<close>

lemma drop_kB_other: "s = [] \<or> hd s \<noteq> CHR ''B'' \<Longrightarrow> drop_kB s = s"
  by (cases s rule: drop_kB.cases) auto

lemma digits_not_space: "\<not> is_whitespace (hd (dec_digits n))" "\<not> is_whitespace (last (dec_digits n))"
proof -
  have "\<not> is_whitespace c" if "is_digit c" for c
    using that by (auto simp: is_digit_def is_whitespace_def Let_def)
  moreover have "is_digit (hd (dec_digits n))" "is_digit (last (dec_digits n))"
    by (auto intro!: dec_digits_digit [of _ n])
  ultimately show "\<not> is_whitespace (hd (dec_digits n))" "\<not> is_whitespace (last (dec_digits n))"
    by blast+
qed

lemma mem_kb_reads:
  assumes "n < 2 ^ 64"
  shows "mem_kb (replicate k (CHR '' '') @ dec_digits n @ '' kB'') = of_nat n"
proof -
  have sp: "is_whitespace (CHR '' '')" "\<not> is_whitespace (CHR ''B'')" by (simp_all add: is_whitespace_def)
  have "trim (replicate k (CHR '' '') @ (dec_digits n @ '' kB'') @ []) = dec_digits n @ '' kB''"
    using digits_not_space by (intro trim_pad) (simp_all add: sp list_all_iff)
  moreover have "rev (drop_kB (rev (dec_digits n @ '' kB''))) = dec_digits n @ '' ''"
    by (simp add: drop_kB_other)
  moreover have "trim ([] @ dec_digits n @ '' '') = dec_digits n"
    using digits_not_space by (intro trim_pad) (simp_all add: sp)
  ultimately show ?thesis using parse_dec_digits [OF assms] by (simp add: mem_kb_def)
qed

text \<open>\<open>ram_total\<close> shows the bytes of the first \<open>MemTotal\<close> line.\<close>

lemma ram_total_shown:
  assumes "slurp s [''proc'', ''meminfo''] = Some t" and "n < 2 ^ 64"
    and "str_lines t = before @ (''MemTotal:'' @ replicate k (CHR '' '') @ dec_digits n @ '' kB'') # after"
    and "\<And>l. l \<in> set before \<Longrightarrow> strip_prefix ''MemTotal:'' l = None"
  shows "ram_total s = fmt_bytes (of_nat n * 1024)"
proof -
  have "find_map (\<lambda>l. map_option mem_kb (strip_prefix ''MemTotal:'' l)) (str_lines t) = Some (of_nat n)"
    unfolding assms(3) using assms(4) mem_kb_reads [OF assms(2), of k]
    by (intro find_map_first) (simp_all add: strip_prefix_def)
  then show ?thesis using assms(1) by (simp add: ram_total_def)
qed

end
