(* ===== verification/Vfs.thy ===== *)
theory Vfs
  imports Store "HOL-Library.Sublist"
begin

text \<open>
  The virtual drive of \<open>src/shell.rs\<close>: a tree of directories and files with a current directory. A
  directory is an association list, the \<open>BTreeMap\<close> of the code up to its order, which only
  \<open>items\<close> shows. The abstract drive is a map from paths to entries; every operation, errors
  included, is shown to be its specification on that map.

  A panic of the code (\<open>unreachable!\<close>) is an error of its own.
\<close>

section \<open>The drive\<close>

datatype vnode = VFile string | VDir "(string \<times> vnode) list"

type_synonym vdir = "(string \<times> vnode) list"

record vfs =
  v_root :: vdir
  v_cwd :: path

datatype vfs_error = VErr string | VPanic

definition vfs_new :: vfs where
  "vfs_new = \<lparr>v_root = [(''bin'', VDir []), (''usr'', VDir []), (''tmp'', VDir []), (''home'', VDir []),
     (''Apps'', VDir [(''Utilities'', VDir []), (''Games'', VDir [])])], v_cwd = []\<rparr>"

definition vfs_path :: "path \<Rightarrow> path" where
  "vfs_path root = root @ [''shell'', ''vfs.json'']"

definition vfs_load :: "vdir codec \<Rightarrow> path \<Rightarrow> store \<Rightarrow> vfs" where
  "vfs_load K root s = (case fs_read (vfs_path root) s of
       Inl _ \<Rightarrow> vfs_new
     | Inr b \<Rightarrow> (case dec K b of None \<Rightarrow> vfs_new | Some d \<Rightarrow> \<lparr>v_root = d, v_cwd = []\<rparr>))"

definition vfs_save :: "vdir codec \<Rightarrow> path \<Rightarrow> vfs \<Rightarrow> (store, io_error, unit) op" where
  "vfs_save K root v =
     bindS (fs_mkdirs (root @ [''shell''])) (\<lambda>_.
     bindS (lift_result (ok_or (IoError Other ''serde_json'') (enc K (v_root v)))) (\<lambda>b.
       write_then_rename (root @ [''shell'', with_extension ''tmp'' ''vfs.json'']) (vfs_path root) b))"

definition cwd_string :: "vfs \<Rightarrow> string" where
  "cwd_string v = ''/'' @ join_with ''/'' (v_cwd v)"

definition items :: "vdir \<Rightarrow> vdir" where
  "items d = sort_key fst d"

fun vnode_at :: "vdir \<Rightarrow> path \<Rightarrow> vnode option" where
  "vnode_at d [] = None"
| "vnode_at d [p] = map_of d p"
| "vnode_at d (p # q # ps) = (case map_of d p of Some (VDir d') \<Rightarrow> vnode_at d' (q # ps) | _ \<Rightarrow> None)"

definition dir_for :: "vdir \<Rightarrow> path \<Rightarrow> vdir option" where
  "dir_for d parent = (if parent = [] then Some d
     else (case vnode_at d parent of Some (VDir x) \<Rightarrow> Some x | _ \<Rightarrow> None))"

text \<open>A change through \<open>dir_for_mut\<close>, whose directory exists.\<close>

fun at_dir :: "path \<Rightarrow> (vdir \<Rightarrow> vdir) \<Rightarrow> vdir \<Rightarrow> vdir" where
  "at_dir [] f d = f d"
| "at_dir (p # ps) f d = (case map_of d p of
     Some (VDir d') \<Rightarrow> AList.update p (VDir (at_dir ps f d')) d | _ \<Rightarrow> d)"

definition split_path :: "vfs \<Rightarrow> string \<Rightarrow> path" where
  "split_path v p = path_join (v_cwd v) p"

definition parent_and_name :: "vfs \<Rightarrow> string \<Rightarrow> vfs_error + path \<times> string" where
  "parent_and_name v p = (let parts = split_path v p in
     if parts = [] then Inl (VErr ''malformed path'') else Inr (butlast parts, last parts))"

section \<open>Its operations\<close>

definition in_dir :: "path \<Rightarrow> (vdir \<Rightarrow> vdir) \<Rightarrow> vfs \<Rightarrow> vfs" where
  "in_dir parent f v = v\<lparr>v_root := at_dir parent f (v_root v)\<rparr>"

definition vcd :: "string \<Rightarrow> (vfs, vfs_error, unit) op" where
  "vcd p v = (let parts = split_path v p in
     if parts = [] then (v\<lparr>v_cwd := []\<rparr>, Inr ())
     else (case vnode_at (v_root v) parts of
         Some (VDir _) \<Rightarrow> (v\<lparr>v_cwd := parts\<rparr>, Inr ())
       | Some (VFile _) \<Rightarrow> (v, Inl (VErr (''is not a directory: '' @ p)))
       | None \<Rightarrow> (v, Inl (VErr (''no such directory: '' @ p)))))"

definition vls :: "vfs \<Rightarrow> vdir" where
  "vls v = (if v_cwd v = [] then items (v_root v)
     else (case vnode_at (v_root v) (v_cwd v) of Some (VDir d) \<Rightarrow> items d | _ \<Rightarrow> []))"

definition vmkdir :: "string \<Rightarrow> (vfs, vfs_error, unit) op" where
  "vmkdir p v = (case parent_and_name v p of
       Inl e \<Rightarrow> (v, Inl e)
     | Inr (parent, name) \<Rightarrow> (case dir_for (v_root v) parent of
         None \<Rightarrow> (v, Inl (VErr (''no such directory to hold '' @ p)))
       | Some d \<Rightarrow> if map_of d name \<noteq> None then (v, Inl (VErr (''already exists: '' @ name)))
           else (in_dir parent (AList.update name (VDir [])) v, Inr ())))"

definition vrmdir :: "string \<Rightarrow> (vfs, vfs_error, unit) op" where
  "vrmdir p v = (case parent_and_name v p of
       Inl e \<Rightarrow> (v, Inl e)
     | Inr (parent, name) \<Rightarrow> (case dir_for (v_root v) parent of
         None \<Rightarrow> (v, Inl (VErr (''not found: '' @ name)))
       | Some d \<Rightarrow> (case map_of d name of
           Some (VDir sub) \<Rightarrow> if sub \<noteq> [] then (v, Inl (VErr (''directory not empty: '' @ name)))
             else (in_dir parent (AList.delete name) v, Inr ())
         | Some (VFile _) \<Rightarrow> (v, Inl (VErr (''not a directory: '' @ name)))
         | None \<Rightarrow> (v, Inl (VErr (''not found: '' @ name))))))"

definition vrm :: "string \<Rightarrow> (vfs, vfs_error, unit) op" where
  "vrm p v = (case parent_and_name v p of
       Inl e \<Rightarrow> (v, Inl e)
     | Inr (parent, name) \<Rightarrow> (case dir_for (v_root v) parent of
         None \<Rightarrow> (v, Inl (VErr (''not found: '' @ name)))
       | Some d \<Rightarrow> (case map_of d name of
           Some (VDir (_ # _)) \<Rightarrow> (v, Inl (VErr (''directory not empty: '' @ name)))
         | None \<Rightarrow> (v, Inl (VErr (''not found: '' @ name)))
         | _ \<Rightarrow> (in_dir parent (AList.delete name) v, Inr ()))))"

text \<open>\<open>entry(..).or_insert_with(..)\<close>\<close>

definition or_insert :: "string \<Rightarrow> vnode \<Rightarrow> vdir \<Rightarrow> vdir" where
  "or_insert name x d = (if map_of d name = None then AList.update name x d else d)"

definition vtouch :: "string \<Rightarrow> (vfs, vfs_error, unit) op" where
  "vtouch p v = (case parent_and_name v p of
       Inl e \<Rightarrow> (v, Inl e)
     | Inr (parent, name) \<Rightarrow> (case dir_for (v_root v) parent of
         None \<Rightarrow> (v, Inl (VErr (''no such directory to hold '' @ p)))
       | Some _ \<Rightarrow> (in_dir parent (or_insert name (VFile [])) v, Inr ())))"

definition vcat :: "string \<Rightarrow> vfs \<Rightarrow> vfs_error + string" where
  "vcat p v = (case vnode_at (v_root v) (split_path v p) of
       Some (VFile c) \<Rightarrow> Inr c
     | Some (VDir _) \<Rightarrow> Inl (VErr (''is a directory, use '' @ [CHR 0x27] @ ''ls'' @ [CHR 0x27]))
     | None \<Rightarrow> Inl (VErr (''not found: '' @ p)))"

definition appended :: "string \<Rightarrow> string \<Rightarrow> string" where
  "appended c t = c @ (if c \<noteq> [] \<and> last c \<noteq> CHR 0x0A then [CHR 0x0A] else []) @ t @ [CHR 0x0A]"

definition vwrite :: "string \<Rightarrow> string \<Rightarrow> (vfs, vfs_error, unit) op" where
  "vwrite p t = bindS (vtouch p) (\<lambda>_ v. let parts = split_path v p in
     (case vnode_at (v_root v) parts of
        Some (VFile c) \<Rightarrow> (in_dir (butlast parts) (AList.update (last parts) (VFile (appended c t))) v, Inr ())
      | _ \<Rightarrow> (v, Inl VPanic)))"

definition vcopy :: "string \<Rightarrow> string \<Rightarrow> (vfs, vfs_error, unit) op" where
  "vcopy src dst v = (case vcat src v of Inl e \<Rightarrow> (v, Inl e) | Inr c \<Rightarrow> vwrite dst c v)"

definition vmove :: "string \<Rightarrow> string \<Rightarrow> (vfs, vfs_error, unit) op" where
  "vmove src dst v = (case vcat src v of Inl e \<Rightarrow> (v, Inl e)
     | Inr c \<Rightarrow> bindS (vwrite dst c) (\<lambda>_. vrm src) v)"

definition vrename :: "string \<Rightarrow> string \<Rightarrow> (vfs, vfs_error, unit) op" where
  "vrename old new v = (case vcat old v of Inl e \<Rightarrow> (v, Inl e)
     | Inr c \<Rightarrow> (case parent_and_name v old of Inl e \<Rightarrow> (v, Inl e)
     | Inr (parent, old_name) \<Rightarrow> (case parent_and_name v new of Inl e \<Rightarrow> (v, Inl e)
     | Inr (dparent, new_name) \<Rightarrow>
         if parent \<noteq> dparent
         then (v, Inl (VErr ''rename stays in the same directory (use copy/move)''))
         else (case dir_for (v_root v) parent of
             None \<Rightarrow> (v, Inl (VErr ''not found''))
           | Some d \<Rightarrow> if map_of d old_name \<noteq> None
               then (in_dir parent (\<lambda>d. AList.update new_name (VFile c) (AList.delete old_name d)) v, Inr ())
               else (v, Inl (VErr ''not found''))))))"

definition has_infix :: "string \<Rightarrow> string \<Rightarrow> bool" where
  "has_infix needle s \<longleftrightarrow> sublist needle s"

definition vgrep :: "string \<Rightarrow> vfs \<Rightarrow> (string \<times> string) list" where
  "vgrep needle v = concat (map (\<lambda>(name, nd). case nd of
       VFile c \<Rightarrow> map (Pair name) (filter (has_infix needle) (str_lines c))
     | VDir _ \<Rightarrow> []) (vls v))"

section \<open>The abstract drive\<close>

text \<open>A map from paths to entries, the root included.\<close>

datatype entry_at = DirAt | FileAt string

fun kind_of :: "vnode \<Rightarrow> entry_at" where
  "kind_of (VFile c) = FileAt c"
| "kind_of (VDir d) = DirAt"

type_synonym drive = "path \<Rightarrow> entry_at option"

fun flat :: "vdir \<Rightarrow> drive" where
  "flat d [] = Some DirAt"
| "flat d [p] = map_option kind_of (map_of d p)"
| "flat d (p # q # ps) = (case map_of d p of Some (VDir d') \<Rightarrow> flat d' (q # ps) | _ \<Rightarrow> None)"

fun below :: "vnode \<Rightarrow> drive" where
  "below (VFile c) q = (if q = [] then Some (FileAt c) else None)"
| "below (VDir d) q = flat d q"

lemma flat_Cons: "flat d (p # q) = (case map_of d p of None \<Rightarrow> None | Some x \<Rightarrow> below x q)"
proof (cases q)
  case Nil
  then show ?thesis by (cases "map_of d p") (auto split: vnode.splits, metis below.elims below.simps kind_of.elims kind_of.simps flat.simps(1))
next
  case (Cons a q')
  then show ?thesis by (auto split: option.splits vnode.splits)
qed

declare flat.simps(2,3) [simp del]

lemma flat_vnode_at: "p \<noteq> [] \<Longrightarrow> flat d p = map_option kind_of (vnode_at d p)"
  by (induction d p rule: vnode_at.induct) (auto simp: flat.simps split: option.splits vnode.splits)

lemma dir_for_flat: "(dir_for d p = None) = (flat d p \<noteq> Some DirAt)"
  by (auto simp: dir_for_def flat_vnode_at split: option.splits vnode.splits)

text \<open>What lies below a directory of the drive.\<close>

lemma flat_append: "dir_for d p = Some x \<Longrightarrow> flat d (p @ q) = flat x q"
proof (induction d p rule: vnode_at.induct)
  case (1 d)
  then show ?case by (simp add: dir_for_def)
next
  case (2 d p)
  then show ?case by (auto simp: dir_for_def flat_Cons split: option.splits vnode.splits)
next
  case (3 d p r ps)
  then obtain y where y: "map_of d p = Some (VDir y)"
    by (auto simp: dir_for_def split: option.splits vnode.splits)
  then have "dir_for y (r # ps) = Some x" using 3(2) by (simp add: dir_for_def)
  from 3(1) [OF y refl this] y show ?case by (simp add: flat_Cons)
qed

text \<open>A change of a directory is a change of the paths below it.\<close>

lemma flat_at_dir:
  "dir_for d p = Some x \<Longrightarrow> flat (at_dir p f d) q = (if prefix p q then flat (f x) (drop (length p) q) else flat d q)"
proof (induction p f d arbitrary: q rule: at_dir.induct)
  case (1 f d)
  then show ?case by (simp add: dir_for_def)
next
  case (2 p ps f d)
  obtain y where y: "map_of d p = Some (VDir y)" "dir_for y ps = Some x"
    using 2(2) by (cases ps) (auto simp: dir_for_def split: option.splits vnode.splits)
  show ?case
  proof (cases q)
    case Nil
    then show ?thesis using y by simp
  next
    case (Cons a q')
    then show ?thesis using y 2(1) [OF y(1) refl y(2)] by (auto simp: flat_Cons)
  qed
qed

lemma flat_update: "flat (AList.update n v d) q = (case q of [] \<Rightarrow> Some DirAt
    | c # r \<Rightarrow> if c = n then below v r else flat d q)"
  by (cases q) (simp_all add: flat_Cons)

lemma flat_delete: "flat (AList.delete n d) q = (case q of [] \<Rightarrow> Some DirAt
    | c # r \<Rightarrow> if c = n then None else flat d q)"
  by (cases q) (simp_all add: flat_Cons)

text \<open>Nothing lies below what is not a directory.\<close>

lemma flat_below: "flat d p \<noteq> Some DirAt \<Longrightarrow> r \<noteq> [] \<Longrightarrow> flat d (p @ r) = None"
proof (induction d p rule: vnode_at.induct)
  case (1 d)
  then show ?case by simp
next
  case (2 d p)
  show ?case
  proof (cases "map_of d p")
    case (Some nd)
    then show ?thesis using 2 by (cases nd) (simp_all add: flat_Cons)
  qed (simp add: flat_Cons)
next
  case (3 d p q ps)
  show ?case
  proof (cases "map_of d p")
    case (Some nd)
    then show ?thesis using 3 by (cases nd) (simp_all add: flat_Cons)
  qed (simp add: flat_Cons)
qed

text \<open>An entry of a directory.\<close>

lemma flat_entry:
  assumes "dir_for d ps = Some x"
  shows "flat d (ps @ [n]) = map_option kind_of (map_of x n)"
    "map_of x n = Some (VDir sub) \<Longrightarrow> (\<forall>c. flat d (ps @ [n, c]) = None) \<longleftrightarrow> sub = []"
proof -
  show "flat d (ps @ [n]) = map_option kind_of (map_of x n)"
    by (simp add: flat_append [OF assms] flat.simps)
  assume s: "map_of x n = Some (VDir sub)"
  have e: "flat d (ps @ [n, c]) = map_option kind_of (map_of sub c)" for c
    using flat_append [OF assms, of "[n, c]"] s by (simp add: flat.simps)
  show "(\<forall>c. flat d (ps @ [n, c]) = None) \<longleftrightarrow> sub = []"
  proof (cases sub)
    case (Cons a sub')
    then have "map_of sub (fst a) \<noteq> None" by simp
    then show ?thesis using e Cons by (metis list.distinct(1) option.map_disc_iff)
  qed (simp add: e)
qed

lemma flat_put:
  assumes "dir_for d ps = Some x"
  shows "flat (at_dir ps (AList.update n v) d)
    = (\<lambda>q. if prefix (ps @ [n]) q then below v (drop (Suc (length ps)) q) else flat d q)"
proof
  fix q
  show "flat (at_dir ps (AList.update n v) d) q
    = (if prefix (ps @ [n]) q then below v (drop (Suc (length ps)) q) else flat d q)"
  proof (cases "prefix ps q")
    case True
    then obtain r where q: "q = ps @ r" by (auto simp: prefix_def)
    then show ?thesis using flat_at_dir [OF assms, of "AList.update n v" q] flat_append [OF assms, of r]
      by (cases r) (auto simp: flat_update)
  next
    case False
    then have "\<not> prefix (ps @ [n]) q" by (blast intro: append_prefixD)
    then show ?thesis using False flat_at_dir [OF assms] by simp
  qed
qed

lemma flat_drop:
  assumes "dir_for d ps = Some x"
  shows "flat (at_dir ps (AList.delete n) d) = (\<lambda>q. if prefix (ps @ [n]) q then None else flat d q)"
proof
  fix q
  show "flat (at_dir ps (AList.delete n) d) q = (if prefix (ps @ [n]) q then None else flat d q)"
  proof (cases "prefix ps q")
    case True
    then obtain r where q: "q = ps @ r" by (auto simp: prefix_def)
    then show ?thesis using flat_at_dir [OF assms, of "AList.delete n" q] flat_append [OF assms, of r]
      by (cases r) (auto simp: flat_delete)
  next
    case False
    then have "\<not> prefix (ps @ [n]) q" by (blast intro: append_prefixD)
    then show ?thesis using False flat_at_dir [OF assms] by simp
  qed
qed

section \<open>The operations on the abstract drive\<close>

definition named :: "path \<Rightarrow> string" where
  "named p = last p"

definition drive_touch :: "string \<Rightarrow> path \<Rightarrow> drive \<Rightarrow> drive \<times> (vfs_error + unit)" where
  "drive_touch s p m =
     (if p = [] then (m, Inl (VErr ''malformed path''))
      else if m (butlast p) \<noteq> Some DirAt then (m, Inl (VErr (''no such directory to hold '' @ s)))
      else (if m p = None then m(p \<mapsto> FileAt []) else m, Inr ()))"

definition drive_mkdir :: "string \<Rightarrow> path \<Rightarrow> drive \<Rightarrow> drive \<times> (vfs_error + unit)" where
  "drive_mkdir s p m =
     (if p = [] then (m, Inl (VErr ''malformed path''))
      else if m (butlast p) \<noteq> Some DirAt then (m, Inl (VErr (''no such directory to hold '' @ s)))
      else if m p \<noteq> None then (m, Inl (VErr (''already exists: '' @ named p)))
      else (m(p \<mapsto> DirAt), Inr ()))"

text \<open>Removal: only directories (\<open>rmdir\<close>), or files too (\<open>rm\<close>).\<close>

definition drive_remove :: "bool \<Rightarrow> path \<Rightarrow> drive \<Rightarrow> drive \<times> (vfs_error + unit)" where
  "drive_remove only_dirs p m =
     (if p = [] then (m, Inl (VErr ''malformed path''))
      else if m (butlast p) \<noteq> Some DirAt then (m, Inl (VErr (''not found: '' @ named p)))
      else (case m p of
          None \<Rightarrow> (m, Inl (VErr (''not found: '' @ named p)))
        | Some DirAt \<Rightarrow> if \<exists>c. m (p @ [c]) \<noteq> None then (m, Inl (VErr (''directory not empty: '' @ named p)))
            else (m(p := None), Inr ())
        | Some (FileAt _) \<Rightarrow> if only_dirs then (m, Inl (VErr (''not a directory: '' @ named p)))
            else (m(p := None), Inr ())))"

definition drive_cat :: "string \<Rightarrow> path \<Rightarrow> drive \<Rightarrow> vfs_error + string" where
  "drive_cat s p m = (case (if p = [] then None else m p) of
       Some (FileAt c) \<Rightarrow> Inr c
     | Some DirAt \<Rightarrow> Inl (VErr (''is a directory, use '' @ [CHR 0x27] @ ''ls'' @ [CHR 0x27]))
     | None \<Rightarrow> Inl (VErr (''not found: '' @ s)))"

definition drive_write :: "string \<Rightarrow> path \<Rightarrow> string \<Rightarrow> drive \<Rightarrow> drive \<times> (vfs_error + unit)" where
  "drive_write s p t m = (case drive_touch s p m of
       (m1, Inl e) \<Rightarrow> (m1, Inl e)
     | (m1, Inr _) \<Rightarrow> (case m1 p of
         Some (FileAt c) \<Rightarrow> (m1(p \<mapsto> FileAt (appended c t)), Inr ()) | _ \<Rightarrow> (m1, Inl VPanic)))"

text \<open>A rename replaces whatever has the new name, and all that lies below it.\<close>

definition drive_rename :: "string \<Rightarrow> path \<Rightarrow> path \<Rightarrow> drive \<Rightarrow> drive \<times> (vfs_error + unit)" where
  "drive_rename s p q m = (case drive_cat s p m of
       Inl e \<Rightarrow> (m, Inl e)
     | Inr c \<Rightarrow>
         if q = [] then (m, Inl (VErr ''malformed path''))
         else if butlast p \<noteq> butlast q
         then (m, Inl (VErr ''rename stays in the same directory (use copy/move)''))
         else (\<lambda>r. if r = q then Some (FileAt c) else if r = p \<or> prefix q r then None else m r, Inr ()))"

section \<open>Every operation meets its specification\<close>

lemma named_split: "p \<noteq> [] \<Longrightarrow> p = butlast p @ [last p]"
  by simp

lemma put_file_flat:
  assumes "dir_for d (butlast p) = Some x" and "p \<noteq> []" and "flat d p \<noteq> Some DirAt"
  shows "flat (at_dir (butlast p) (AList.update (last p) (VFile c)) d) = (flat d)(p \<mapsto> FileAt c)"
proof
  fix q
  have l: "Suc (length p - Suc 0) = length p" "butlast p @ [last p] = p" using assms(2) by simp_all
  show "flat (at_dir (butlast p) (AList.update (last p) (VFile c)) d) q = ((flat d)(p \<mapsto> FileAt c)) q"
  proof (cases "prefix p q")
    case True
    then obtain r where "q = p @ r" by (auto simp: prefix_def)
    then show ?thesis using flat_below [OF assms(3), of r] by (cases r) (simp_all add: flat_put [OF assms(1)] l)
  next
    case False
    then have "q \<noteq> p" by auto
    then show ?thesis using False by (simp add: flat_put [OF assms(1)] l)
  qed
qed

lemma drop_flat:
  assumes "dir_for d (butlast p) = Some x" and "p \<noteq> []" and "\<And>r. r \<noteq> [] \<Longrightarrow> flat d (p @ r) = None"
  shows "flat (at_dir (butlast p) (AList.delete (last p)) d) = (flat d)(p := None)"
proof
  fix q
  have l: "butlast p @ [last p] = p" using assms(2) by simp
  show "flat (at_dir (butlast p) (AList.delete (last p)) d) q = ((flat d)(p := None)) q"
  proof (cases "prefix p q")
    case True
    then obtain r where "q = p @ r" by (auto simp: prefix_def)
    then show ?thesis using assms(3) [of r] by (cases r) (simp_all add: flat_drop [OF assms(1)] l)
  next
    case False
    then have "q \<noteq> p" by auto
    then show ?thesis using False by (simp add: flat_drop [OF assms(1)] l)
  qed
qed

lemma empty_dir_below: "(\<forall>c. flat d (p @ [c]) = None) \<Longrightarrow> r \<noteq> [] \<Longrightarrow> flat d (p @ r) = None"
proof (cases r)
  case (Cons c r')
  assume "\<forall>c. flat d (p @ [c]) = None"
  then have "flat d (p @ [c]) \<noteq> Some DirAt" by simp
  from flat_below [OF this, of r'] show ?thesis
    using Cons \<open>\<forall>c. flat d (p @ [c]) = None\<close> by (cases r') simp_all
qed simp

text \<open>The entry of a path, seen from its directory.\<close>

lemma entry_flat:
  assumes "dir_for d (butlast p) = Some x" and "p \<noteq> []"
  shows "flat d p = map_option kind_of (map_of x (last p))"
    "map_of x (last p) = Some (VDir sub) \<Longrightarrow> (\<forall>c. flat d (p @ [c]) = None) \<longleftrightarrow> sub = []"
  using flat_entry [OF assms(1), of "last p"] assms(2) named_split [OF assms(2)]
  by (metis, metis append_assoc append_Cons append_Nil)

lemma dir_flat: "dir_for d p = None \<Longrightarrow> flat d p \<noteq> Some DirAt" "dir_for d p = Some x \<Longrightarrow> flat d p = Some DirAt"
  using dir_for_flat [of d p] by auto

lemma vtouch_flat:
  "vtouch s v = (v', r) \<Longrightarrow> drive_touch s (split_path v s) (flat (v_root v)) = (flat (v_root v'), r) \<and> v_cwd v' = v_cwd v"
proof -
  assume t: "vtouch s v = (v', r)"
  let ?p = "split_path v s"
  show ?thesis
  proof (cases "?p = []")
    case True
    then show ?thesis using t by (simp add: vtouch_def parent_and_name_def drive_touch_def Let_def)
  next
    case p: False
    show ?thesis
    proof (cases "dir_for (v_root v) (butlast ?p)")
      case None
      then show ?thesis using t p dir_flat(1) [OF None]
        by (simp add: vtouch_def parent_and_name_def drive_touch_def Let_def)
    next
      case (Some x)
      note e = entry_flat [OF Some p]
      have v': "v' = in_dir (butlast ?p) (or_insert (last ?p) (VFile [])) v" "r = Inr ()"
        using t p Some by (simp_all add: vtouch_def parent_and_name_def Let_def)
      show ?thesis
      proof (cases "flat (v_root v) ?p = None")
        case True
        have "flat (at_dir (butlast ?p) (or_insert (last ?p) (VFile [])) (v_root v))
            = flat (at_dir (butlast ?p) (AList.update (last ?p) (VFile [])) (v_root v))"
          using True e(1) by (intro ext) (simp add: flat_at_dir [OF Some] or_insert_def)
        then show ?thesis using v' p dir_flat(2) [OF Some] True put_file_flat [OF Some p]
          by (simp add: drive_touch_def in_dir_def)
      next
        case False
        have "flat (at_dir (butlast ?p) (or_insert (last ?p) (VFile [])) (v_root v)) = flat (v_root v)"
        proof
          fix q
          have "or_insert (last ?p) (VFile []) x = x" using False e(1) by (auto simp: or_insert_def)
          then show "flat (at_dir (butlast ?p) (or_insert (last ?p) (VFile [])) (v_root v)) q = flat (v_root v) q"
            using flat_append [OF Some] by (auto simp: flat_at_dir [OF Some] prefix_def)
        qed
        then show ?thesis using v' p dir_flat(2) [OF Some] False by (auto simp: drive_touch_def in_dir_def)
      qed
    qed
  qed
qed

lemma vmkdir_flat:
  assumes "vmkdir s v = (v', r)"
  shows "drive_mkdir s (split_path v s) (flat (v_root v)) = (flat (v_root v'), r) \<and> v_cwd v' = v_cwd v"
proof (cases "split_path v s = []")
  case True
  then show ?thesis using assms by (auto simp: vmkdir_def parent_and_name_def drive_mkdir_def Let_def)
next
  case p: False
  let ?p = "split_path v s"
  show ?thesis
  proof (cases "dir_for (v_root v) (butlast ?p)")
    case None
    then show ?thesis using assms p dir_flat(1) [OF None]
      by (auto simp: vmkdir_def parent_and_name_def drive_mkdir_def Let_def)
  next
    case (Some x)
    note e = entry_flat(1) [OF Some p] and d = dir_flat(2) [OF Some]
    show ?thesis
    proof (cases "map_of x (last ?p)")
      case None
      have "flat (at_dir (butlast ?p) (AList.update (last ?p) (VDir [])) (v_root v)) q
          = ((flat (v_root v))(?p \<mapsto> DirAt)) q" for q
      proof (cases "prefix ?p q")
        case True
        then obtain z where q: "q = ?p @ z" by (auto simp: prefix_def)
        have "flat (v_root v) ?p \<noteq> Some DirAt" using e None by simp
        from flat_below [OF this, of z] show ?thesis using p q
          by (cases z) (simp_all add: flat_put [OF Some] flat_Cons)
      next
        case False
        then have "q \<noteq> ?p" by auto
        then show ?thesis using False p by (simp add: flat_put [OF Some])
      qed
      then show ?thesis using assms p Some None e d
        by (auto simp: vmkdir_def parent_and_name_def drive_mkdir_def Let_def in_dir_def fun_eq_iff)
    next
      case (Some nd)
      then show ?thesis using assms p \<open>dir_for _ _ = Some x\<close> e d
        by (auto simp: vmkdir_def parent_and_name_def drive_mkdir_def Let_def named_def)
    qed
  qed
qed

text \<open>Both removals; \<open>only_dirs\<close> tells them apart.\<close>

lemma removal_flat:
  assumes "(if only_dirs then vrmdir s else vrm s) v = (v', r)"
  shows "drive_remove only_dirs (split_path v s) (flat (v_root v)) = (flat (v_root v'), r) \<and> v_cwd v' = v_cwd v"
proof (cases "split_path v s = []")
  case True
  then show ?thesis using assms
    by (cases only_dirs) (auto simp: vrmdir_def vrm_def parent_and_name_def drive_remove_def Let_def)
next
  case p: False
  let ?p = "split_path v s"
  show ?thesis
  proof (cases "dir_for (v_root v) (butlast ?p)")
    case None
    then show ?thesis using assms p dir_flat(1) [OF None]
      by (cases only_dirs) (auto simp: vrmdir_def vrm_def parent_and_name_def drive_remove_def Let_def named_def)
  next
    case (Some x)
    note e = entry_flat [OF Some p] and d = dir_flat(2) [OF Some] and dr = drop_flat [OF Some p]
    note defs = vrmdir_def vrm_def parent_and_name_def drive_remove_def Let_def named_def in_dir_def
    show ?thesis
    proof (cases "map_of x (last ?p)")
      case None
      then show ?thesis using assms p Some e(1) d by (cases only_dirs) (auto simp: defs)
    next
      case nd: (Some nd)
      show ?thesis
      proof (cases nd)
        case (VFile c)
        then have f: "flat (v_root v) ?p = Some (FileAt c)" using e(1) nd by simp
        then have "r \<noteq> [] \<Longrightarrow> flat (v_root v) (?p @ r) = None" for r using flat_below by simp
        with dr f show ?thesis using assms p Some nd VFile d by (cases only_dirs) (auto simp: defs)
      next
        case (VDir sub)
        then have f: "flat (v_root v) ?p = Some DirAt" using e(1) nd by simp
        show ?thesis
        proof (cases sub)
          case Nil
          then have em: "\<forall>c. flat (v_root v) (?p @ [c]) = None" using e(2) nd VDir by simp
          from dr empty_dir_below [OF em] f em show ?thesis
            using assms p Some nd VDir d Nil by (cases only_dirs) (auto simp: defs)
        next
          case (Cons a sub')
          then have "\<exists>c. flat (v_root v) (?p @ [c]) \<noteq> None" using e(2) nd VDir by auto
          with f show ?thesis using assms p Some nd VDir d Cons by (cases only_dirs) (auto simp: defs)
        qed
      qed
    qed
  qed
qed

lemma vcat_flat: "vcat s v = drive_cat s (split_path v s) (flat (v_root v))"
  by (cases "split_path v s = []")
    (auto simp: vcat_def drive_cat_def flat_vnode_at split: option.splits vnode.splits)

lemma butlast_differs: "p \<noteq> [] \<Longrightarrow> butlast p \<noteq> p"
  by (metis butlast_snoc append_butlast_last_id not_Cons_self2 append_self_conv)

lemma drive_touched: "drive_touch s p m = (m', Inr u) \<Longrightarrow> m' (butlast p) = Some DirAt"
  by (auto simp: drive_touch_def butlast_differs split: if_splits)

lemma vwrite_flat:
  assumes "vwrite s t v = (v', r)"
  shows "drive_write s (split_path v s) t (flat (v_root v)) = (flat (v_root v'), r) \<and> v_cwd v' = v_cwd v"
proof -
  obtain v1 r1 where t1: "vtouch s v = (v1, r1)" by fastforce
  note f1 = vtouch_flat [OF t1]
  let ?p = "split_path v s"
  have sp: "split_path v1 s = ?p" using f1 by (simp add: split_path_def)
  show ?thesis
  proof (cases r1)
    case (Inl e)
    then show ?thesis using f1 assms t1 by (auto simp: vwrite_def bindS_def drive_write_def)
  next
    case (Inr u)
    have p: "?p \<noteq> []" using f1 Inr by (auto simp: drive_touch_def)
    have "flat (v_root v1) (butlast ?p) = Some DirAt" using f1 Inr drive_touched by blast
    then obtain x where x: "dir_for (v_root v1) (butlast ?p) = Some x"
      using dir_for_flat [of "v_root v1"] by fastforce
    have nd: "flat (v_root v1) ?p = map_option kind_of (vnode_at (v_root v1) ?p)" using p by (rule flat_vnode_at)
    show ?thesis
    proof (cases "vnode_at (v_root v1) ?p")
      case None
      then show ?thesis using f1 assms t1 Inr sp nd
        by (auto simp: vwrite_def bindS_def drive_write_def Let_def)
    next
      case (Some y)
      show ?thesis
      proof (cases y)
        case (VFile c)
        then have "flat (v_root v1) ?p \<noteq> Some DirAt" using nd Some by simp
        from put_file_flat [OF x p this] show ?thesis using f1 assms t1 Inr sp nd Some VFile
          by (auto simp: vwrite_def bindS_def drive_write_def Let_def in_dir_def)
      next
        case (VDir d)
        then show ?thesis using f1 assms t1 Inr sp nd Some
          by (auto simp: vwrite_def bindS_def drive_write_def Let_def)
      qed
    qed
  qed
qed

text \<open>A file put in the place of another of the same directory.\<close>

lemma replace_flat:
  assumes "dir_for d ps = Some x" and "flat d (ps @ [m]) = Some (FileAt a)"
  shows "flat (at_dir ps (\<lambda>d. AList.update n (VFile c) (AList.delete m d)) d)
    = (\<lambda>r. if r = ps @ [n] then Some (FileAt c) else if r = ps @ [m] \<or> prefix (ps @ [n]) r then None else flat d r)"
proof
  fix z
  show "flat (at_dir ps (\<lambda>d. AList.update n (VFile c) (AList.delete m d)) d) z
    = (if z = ps @ [n] then Some (FileAt c) else if z = ps @ [m] \<or> prefix (ps @ [n]) z then None else flat d z)"
  proof (cases "prefix ps z")
    case True
    then obtain w where w: "z = ps @ w" by (auto simp: prefix_def)
    show ?thesis
    proof (cases w)
      case Nil
      then show ?thesis using w flat_append [OF assms(1), of "[]"] by (simp add: flat_at_dir [OF assms(1)])
    next
      case (Cons k w')
      have "k = m \<Longrightarrow> w' \<noteq> [] \<Longrightarrow> flat x (k # w') = None"
        using flat_below [of d "ps @ [m]" w'] assms(2) flat_append [OF assms(1), of "k # w'"] by simp
      then show ?thesis using w Cons flat_append [OF assms(1), of w]
        by (auto simp: flat_at_dir [OF assms(1)] flat_update flat_delete)
    qed
  next
    case False
    then have "\<not> prefix (ps @ [n]) z" "z \<noteq> ps @ [n]" "z \<noteq> ps @ [m]" by (auto dest: append_prefixD)
    then show ?thesis using False by (simp add: flat_at_dir [OF assms(1)])
  qed
qed

lemma vrename_flat:
  assumes "vrename s t v = (v', r)"
  shows "drive_rename s (split_path v s) (split_path v t) (flat (v_root v)) = (flat (v_root v'), r)
    \<and> v_cwd v' = v_cwd v"
proof (cases "vcat s v")
  case (Inl e)
  then show ?thesis using assms by (auto simp: vrename_def drive_rename_def vcat_flat [symmetric])
next
  case (Inr c)
  let ?p = "split_path v s" and ?q = "split_path v t"
  have cat: "drive_cat s ?p (flat (v_root v)) = Inr c" using Inr by (simp add: vcat_flat)
  then have p: "?p \<noteq> []" and fp: "flat (v_root v) ?p = Some (FileAt c)"
    by (auto simp: drive_cat_def split: if_splits option.splits entry_at.splits)
  note defs = vrename_def drive_rename_def parent_and_name_def Let_def in_dir_def
  show ?thesis
  proof (cases "?q = [] \<or> butlast ?p \<noteq> butlast ?q")
    case True
    then show ?thesis using assms Inr cat p by (auto simp: defs)
  next
    case False
    then have q: "?q = butlast ?p @ [last ?q]" by (metis append_butlast_last_id)
    have pp: "butlast ?p @ [last ?p] = ?p" using p by simp
    have "flat (v_root v) (butlast ?p) = Some DirAt"
      using fp flat_below [of "v_root v" "butlast ?p" "[last ?p]"] pp by fastforce
    then obtain x where x: "dir_for (v_root v) (butlast ?p) = Some x"
      using dir_for_flat [of "v_root v"] by fastforce
    have n: "map_of x (last ?p) \<noteq> None" using entry_flat(1) [OF x p] fp by (metis option.map_disc_iff option.simps(3))
    have f: "flat (v_root v) (butlast ?p @ [last ?p]) = Some (FileAt c)" using fp pp by simp
    from replace_flat [OF x f, of "last ?q" c] show ?thesis
      using assms Inr cat p False x n pp q [symmetric] by (auto simp: defs)
  qed
qed

lemma vcd_flat: "vcd s v = (v\<lparr>v_cwd := (if split_path v s = [] then []
    else if flat (v_root v) (split_path v s) = Some DirAt then split_path v s else v_cwd v)\<rparr>,
    if flat (v_root v) (split_path v s) = Some DirAt then Inr ()
    else if flat (v_root v) (split_path v s) = None then Inl (VErr (''no such directory: '' @ s))
    else Inl (VErr (''is not a directory: '' @ s)))"
  by (cases "split_path v s = []")
    (auto simp: vcd_def Let_def flat_vnode_at split: option.splits vnode.splits)

section \<open>The drive as a whole\<close>

text \<open>The commands of the shell, and what each does to the abstract drive and the current directory.\<close>

datatype vfs_op = Cd string | Mkdir string | Rmdir string | Rm string | Touch string | WriteTo string string
  | CopyTo string string | MoveTo string string | RenameTo string string

fun vfs_do :: "vfs_op \<Rightarrow> (vfs, vfs_error, unit) op" where
  "vfs_do (Cd p) = vcd p"
| "vfs_do (Mkdir p) = vmkdir p"
| "vfs_do (Rmdir p) = vrmdir p"
| "vfs_do (Rm p) = vrm p"
| "vfs_do (Touch p) = vtouch p"
| "vfs_do (WriteTo p t) = vwrite p t"
| "vfs_do (CopyTo p q) = vcopy p q"
| "vfs_do (MoveTo p q) = vmove p q"
| "vfs_do (RenameTo p q) = vrename p q"

definition drive_cd :: "string \<Rightarrow> path \<Rightarrow> drive \<Rightarrow> path option \<times> (vfs_error + unit)" where
  "drive_cd s p m = (case m p of
       Some DirAt \<Rightarrow> (Some p, Inr ())
     | Some (FileAt _) \<Rightarrow> (None, Inl (VErr (''is not a directory: '' @ s)))
     | None \<Rightarrow> (None, Inl (VErr (''no such directory: '' @ s))))"

definition drive_copy :: "string \<Rightarrow> path \<Rightarrow> string \<Rightarrow> path \<Rightarrow> drive \<Rightarrow> drive \<times> (vfs_error + unit)" where
  "drive_copy s p t q m = (case drive_cat s p m of Inl e \<Rightarrow> (m, Inl e) | Inr c \<Rightarrow> drive_write t q c m)"

fun drive_do :: "vfs_op \<Rightarrow> drive \<times> path \<Rightarrow> (drive \<times> path) \<times> (vfs_error + unit)" where
  "drive_do (Cd s) (m, w) = (case drive_cd s (path_join w s) m of
     (Some p, r) \<Rightarrow> ((m, p), r) | (None, r) \<Rightarrow> ((m, w), r))"
| "drive_do (Mkdir s) (m, w) = (case drive_mkdir s (path_join w s) m of (m', r) \<Rightarrow> ((m', w), r))"
| "drive_do (Rmdir s) (m, w) = (case drive_remove True (path_join w s) m of (m', r) \<Rightarrow> ((m', w), r))"
| "drive_do (Rm s) (m, w) = (case drive_remove False (path_join w s) m of (m', r) \<Rightarrow> ((m', w), r))"
| "drive_do (Touch s) (m, w) = (case drive_touch s (path_join w s) m of (m', r) \<Rightarrow> ((m', w), r))"
| "drive_do (WriteTo s t) (m, w) = (case drive_write s (path_join w s) t m of (m', r) \<Rightarrow> ((m', w), r))"
| "drive_do (CopyTo s t) (m, w) = (case drive_copy s (path_join w s) t (path_join w t) m of
     (m', r) \<Rightarrow> ((m', w), r))"
| "drive_do (MoveTo s t) (m, w) = (case drive_copy s (path_join w s) t (path_join w t) m of
     (m1, Inl e) \<Rightarrow> ((m1, w), Inl e)
   | (m1, Inr _) \<Rightarrow> (case drive_remove False (path_join w s) m1 of (m', r) \<Rightarrow> ((m', w), r)))"
| "drive_do (RenameTo s t) (m, w) = (case drive_rename s (path_join w s) (path_join w t) m of
     (m', r) \<Rightarrow> ((m', w), r))"

definition drive_of :: "vfs \<Rightarrow> drive \<times> path" where
  "drive_of v = (flat (v_root v), v_cwd v)"

lemma vcopy_flat:
  assumes "vcopy s t v = (v', r)"
  shows "drive_copy s (split_path v s) t (split_path v t) (flat (v_root v)) = (flat (v_root v'), r) \<and> v_cwd v' = v_cwd v"
  using assms vwrite_flat [of t _ v v' r]
  by (auto simp: vcopy_def drive_copy_def vcat_flat [symmetric] split: sum.splits)

lemma vmove_as: "vmove s t = bindS (vcopy s t) (\<lambda>_. vrm s)"
  by (rule ext) (auto simp: vmove_def vcopy_def bindS_def split: sum.splits)

lemma vmove_flat:
  assumes "vmove s t v = (v', r)"
  shows "drive_do (MoveTo s t) (drive_of v) = (drive_of v', r)"
proof -
  obtain v1 r1 where c: "vcopy s t v = (v1, r1)" by fastforce
  note f = vcopy_flat [OF c]
  then have sp: "split_path v1 s = split_path v s" by (simp add: split_path_def)
  show ?thesis
  proof (cases r1)
    case (Inl e)
    then show ?thesis using assms c f by (auto simp: vmove_as bindS_def drive_of_def split_path_def)
  next
    case (Inr u)
    then have "vrm s v1 = (v', r)" using assms c by (simp add: vmove_as bindS_def)
    then have "drive_remove False (split_path v1 s) (flat (v_root v1)) = (flat (v_root v'), r) \<and> v_cwd v' = v_cwd v1"
      by (intro removal_flat) simp
    then show ?thesis using Inr f sp by (simp add: drive_of_def split_path_def)
  qed
qed

section \<open>Well-formed drives\<close>

text \<open>In every directory the names are distinct and each is the name of one entry: not empty, not
  \<open>.\<close> or \<open>..\<close>, without a slash. So every entry can be named by a path.\<close>

fun node_ok :: "vnode \<Rightarrow> bool" where
  "node_ok (VFile c) \<longleftrightarrow> True"
| "node_ok (VDir d) \<longleftrightarrow> distinct (map fst d) \<and> list_all (\<lambda>(n, x). plain_name n \<and> node_ok x) d"

definition vfs_ok :: "vfs \<Rightarrow> bool" where
  "vfs_ok v \<longleftrightarrow> node_ok (VDir (v_root v)) \<and> list_all plain_name (v_cwd v)"

lemma node_ok_map_of: "node_ok (VDir d) \<Longrightarrow> map_of d n = Some x \<Longrightarrow> plain_name n \<and> node_ok x"
  by (auto simp: list_all_iff dest: map_of_SomeD)

lemma update_entries: "set (AList.update n x d) \<subseteq> insert (n, x) (set d)"
  by (induction d) auto

lemma delete_entries: "set (AList.delete n d) \<subseteq> set d"
  by (simp add: AList.delete_eq)

lemma node_ok_update: "node_ok (VDir d) \<Longrightarrow> plain_name n \<Longrightarrow> node_ok x \<Longrightarrow> node_ok (VDir (AList.update n x d))"
  using update_entries [of n x d] by (auto simp: list_all_iff distinct_update)

lemma node_ok_delete: "node_ok (VDir d) \<Longrightarrow> node_ok (VDir (AList.delete n d))"
  using delete_entries [of n d] by (auto simp: list_all_iff distinct_delete)

lemma node_ok_empty: "node_ok (VDir [])"
  by simp

declare node_ok.simps(2) [simp del]

lemma node_ok_at_dir:
  "node_ok (VDir d) \<Longrightarrow> (\<And>x. node_ok (VDir x) \<Longrightarrow> node_ok (VDir (f x))) \<Longrightarrow> node_ok (VDir (at_dir p f d))"
proof (induction p f d rule: at_dir.induct)
  case (1 f d)
  then show ?case by simp
next
  case (2 p ps f d)
  show ?case
  proof (cases "map_of d p")
    case (Some x)
    then show ?thesis using 2 node_ok_map_of [OF 2(2) Some]
      by (cases x) (simp_all add: node_ok_update)
  qed (use 2(2) in simp)
qed

lemma walk_path_plain:
  "list_all plain_name b \<Longrightarrow> \<forall>c\<in>set cs. CHR ''/'' \<notin> set c \<Longrightarrow> list_all plain_name (walk_path b cs)"
proof (induction cs arbitrary: b)
  case Nil
  then show ?case by simp
next
  case (Cons c cs)
  have up: "list_all plain_name (butlast b)" using Cons.prems(1) by (meson in_set_butlastD list_all_iff)
  have cs: "\<forall>c\<in>set cs. CHR ''/'' \<notin> set c" using Cons.prems(2) by simp
  have "list_all plain_name (b @ [c])" if "\<not> (c = [] \<or> c = ''.'')" "c \<noteq> ''..''"
    using Cons.prems that by (simp add: plain_name_def [of c])
  then show ?case using Cons.IH [OF up cs] Cons.IH [OF Cons.prems(1) cs] Cons.IH [OF _ cs, of "b @ [c]"]
    by (simp only: walk_path.simps split: if_split) blast
qed

lemma split_path_plain: "vfs_ok v \<Longrightarrow> list_all plain_name (split_path v s)"
  using walk_path_plain [of _ "split_on (CHR ''/'') s"] split_on_pieces [of _ "CHR ''/''" s]
  by (simp add: split_path_def path_join_def vfs_ok_def)

lemma target_plain: "vfs_ok v \<Longrightarrow> parent_and_name v s = Inr (ps, n) \<Longrightarrow> plain_name n"
  using split_path_plain [of v s]
  by (auto simp: parent_and_name_def Let_def list_all_iff split: if_splits dest: last_in_set)

lemma vfs_ok_in_dir:
  "vfs_ok v \<Longrightarrow> (\<And>x. node_ok (VDir x) \<Longrightarrow> node_ok (VDir (f x))) \<Longrightarrow> vfs_ok (in_dir ps f v)"
  by (simp add: vfs_ok_def in_dir_def node_ok_at_dir)

text \<open>What each operation does to the tree is one change of one directory.\<close>

lemmas dir_changes = vfs_ok_in_dir node_ok_update node_ok_delete node_ok_empty

lemma vtouch_ok: "vfs_ok v \<Longrightarrow> vfs_ok (fst (vtouch s v))"
  by (auto simp: vtouch_def or_insert_def intro!: dir_changes dest: target_plain split: sum.splits option.splits)

lemma vmkdir_ok: "vfs_ok v \<Longrightarrow> vfs_ok (fst (vmkdir s v))"
  by (auto simp: vmkdir_def intro!: dir_changes dest: target_plain split: sum.splits option.splits)

lemma vrm_ok: "vfs_ok v \<Longrightarrow> vfs_ok (fst (vrm s v))"
  by (auto simp: vrm_def intro!: dir_changes split: sum.splits option.splits vnode.splits list.splits)

lemma vrmdir_ok: "vfs_ok v \<Longrightarrow> vfs_ok (fst (vrmdir s v))"
  by (auto simp: vrmdir_def intro!: dir_changes split: sum.splits option.splits vnode.splits)

lemma vwrite_ok:
  assumes "vfs_ok v"
  shows "vfs_ok (fst (vwrite s t v))"
proof -
  obtain v1 r where t: "vtouch s v = (v1, r)" by fastforce
  then have v1: "vfs_ok v1" using vtouch_ok [OF assms, of s] by simp
  have "split_path v1 s \<noteq> [] \<Longrightarrow> plain_name (last (split_path v1 s))"
    using split_path_plain [OF v1, of s] by (auto simp: list_all_iff)
  moreover have "vnode_at (v_root v1) (split_path v1 s) = Some y \<Longrightarrow> split_path v1 s \<noteq> []" for y by auto
  ultimately show ?thesis using t v1
    by (cases r) (auto simp: vwrite_def bindS_def Let_def intro!: vfs_ok_in_dir node_ok_update
        split: option.splits vnode.splits)
qed

lemma vcopy_ok: "vfs_ok v \<Longrightarrow> vfs_ok (fst (vcopy s t v))"
  by (auto simp: vcopy_def vwrite_ok split: sum.splits)

lemma vmove_ok: "vfs_ok v \<Longrightarrow> vfs_ok (fst (vmove s t v))"
  using vcopy_ok [of v s t] vrm_ok by (auto simp: vmove_as bindS_def split: prod.splits sum.splits)

lemma vrename_ok: "vfs_ok v \<Longrightarrow> vfs_ok (fst (vrename s t v))"
  by (auto simp: vrename_def intro!: dir_changes dest: target_plain split: sum.splits option.splits)

lemma vcd_ok: "vfs_ok v \<Longrightarrow> vfs_ok (fst (vcd s v))"
  using split_path_plain [of v s] by (auto simp: vcd_flat vfs_ok_def)

lemma vfs_do_ok: "vfs_ok v \<Longrightarrow> vfs_ok (fst (vfs_do c v))"
  by (cases c) (simp_all add: vcd_ok vmkdir_ok vrmdir_ok vrm_ok vtouch_ok vwrite_ok vcopy_ok vmove_ok vrename_ok)

section \<open>The properties\<close>

text \<open>C8: every command of the virtual drive, its errors and its panic included, acts on the tree as its
  specification on the map from paths to entries does.\<close>

theorem vfs_refines: "drive_do c (drive_of v) = (drive_of (fst (vfs_do c v)), snd (vfs_do c v))"
proof -
  obtain v' r where r: "vfs_do c v = (v', r)" by fastforce
  have "drive_do c (drive_of v) = (drive_of v', r)"
  proof (cases c)
    case (Cd s)
    then show ?thesis using r
      by (auto simp: vcd_flat drive_of_def drive_cd_def split_path_def [symmetric]
          split: option.splits entry_at.splits if_splits)
  next
    case (MoveTo s t)
    then show ?thesis using r vmove_flat by simp
  qed (use r vmkdir_flat vtouch_flat vwrite_flat vcopy_flat vrename_flat removal_flat [of True] removal_flat [of False]
      in \<open>fastforce simp: drive_of_def split_path_def\<close>)+
  with r show ?thesis by simp
qed

text \<open>C35: any commands, failed ones included, keep a drive well-formed: names are distinct in each
  directory, every name is a single path component, and so is every name of the current directory.\<close>

theorem vfs_well_formed:
  assumes "vfs_ok v"
  shows "vfs_ok (foldl (\<lambda>v c. fst (vfs_do c v)) v cs)"
  using assms by (induction cs rule: rev_induct) (simp_all add: vfs_do_ok)

lemma vfs_well_formed_witness:
  "vfs_ok (foldl (\<lambda>v c. fst (vfs_do c v)) vfs_new [Mkdir ''home/../a/'', WriteTo ''//a/./b'' ''x'', Cd ''a''])"
  by (rule vfs_well_formed) (simp add: vfs_new_def vfs_ok_def plain_name_def node_ok.simps(2))

text \<open>What the operations do not guard: a file moved onto itself is lost, a write to a directory
  panics, and a rename replaces a directory and all it holds.\<close>

lemma drive_losses:
  "flat (v_root (fst (vfs_do (MoveTo ''f'' ''f'') \<lparr>v_root = [(''f'', VFile ''x'')], v_cwd = []\<rparr>))) [''f''] = None"
  "snd (vfs_do (WriteTo ''tmp'' ''x'') vfs_new) = Inl VPanic"
  "vfs_do (RenameTo ''f'' ''d'') \<lparr>v_root = [(''f'', VFile ''x''), (''d'', VDir [(''g'', VFile ''y'')])], v_cwd = []\<rparr>
    = (\<lparr>v_root = [(''d'', VFile ''x'')], v_cwd = []\<rparr>, Inr ())"
  by code_simp+

end
