(* ===== verification/Flasher.thy ===== *)
theory Flasher
  imports Pair Ssh
begin

text \<open>
  \<open>src/flasher.rs\<close>: installing the program from a drive, writing the drive's bundle, and adopting a
  bundle. What the process environment and the build tool give are arguments: a \<open>host\<close> record holds
  \<open>PATH\<close>, \<open>HOME\<close>, the current directory and the process id; the outcome of \<open>cargo build\<close> is the
  function \<open>cargo\<close>, which may change the store. Mode bits are not part of the store, so
  \<open>set_executable\<close> only needs its file to exist.

  The lemmas show where an installed program ends up, that nothing is trusted without the answer yes,
  and that a drive written by one machine pairs the other with it.
\<close>

section \<open>The bundle\<close>

definition BUNDLE_FILE :: string where "BUNDLE_FILE = ''flashed.json''"
definition BUNDLE_BIN_SUBDIR :: string where "BUNDLE_BIN_SUBDIR = ''bin''"

record flashed_source =
  fs_public_key :: bytes
  fs_fingerprint :: string
  fs_alias :: string

record flashed_bundle =
  fb_source :: flashed_source
  fb_token :: string
  fb_issued_at :: u64
  fb_ttl :: u64

section \<open>Finding an installation\<close>

record host =
  h_path :: string
  h_home :: "string option"
  h_cwd :: path
  h_pid :: nat

datatype installed = OnPath string | At string | Missing

text \<open>\<open>Path::join\<close> on names as they are written, and the place a written name stands for.\<close>

definition join_name :: "string \<Rightarrow> string \<Rightarrow> string" where
  "join_name d n = (if d = [] \<or> last d = CHR ''/'' then d @ n else d @ ''/'' @ n)"

definition place_of :: "host \<Rightarrow> string \<Rightarrow> path" where
  "place_of h d = path_join (h_cwd h) d"

definition split_paths :: "host \<Rightarrow> string list" where
  "split_paths h = split_on (CHR '':'') (h_path h)"

definition is_file :: "store \<Rightarrow> path \<Rightarrow> bool" where
  "is_file s p \<longleftrightarrow> file_at s p \<noteq> None"

definition which :: "host \<Rightarrow> string \<Rightarrow> store \<Rightarrow> io_error + string" where
  "which h name s = (case find (\<lambda>d. is_file s (place_of h (join_name d name))) (split_paths h) of
       Some d \<Rightarrow> Inr (join_name d name)
     | None \<Rightarrow> Inl (IoError NotFound ''not on PATH''))"

text \<open>The candidates all begin with \<open>$HOME/\<close>; \<open>rest\<close> is what follows.\<close>

definition expand_home :: "host \<Rightarrow> string \<Rightarrow> string" where
  "expand_home h rest = (case h_home h of Some home \<Rightarrow> join_name home rest | None \<Rightarrow> ''$HOME/'' @ rest)"

definition home_bins :: "host \<Rightarrow> string list" where
  "home_bins h = map (expand_home h) [''.local/bin'', ''bin'']"

definition home_bin_candidate :: "host \<Rightarrow> store \<Rightarrow> string option" where
  "home_bin_candidate h s = map_option (\<lambda>d. join_name d ''neonet'')
     (find (\<lambda>d. is_file s (place_of h (join_name d ''neonet''))) (home_bins h))"

definition find_installed :: "host \<Rightarrow> store \<Rightarrow> installed" where
  "find_installed h s = (case which h ''neonet'' s of
       Inr p \<Rightarrow> OnPath p
     | Inl _ \<Rightarrow> (case home_bin_candidate h s of Some p \<Rightarrow> At p | None \<Rightarrow> Missing))"

definition is_installed :: "host \<Rightarrow> store \<Rightarrow> bool" where
  "is_installed h s \<longleftrightarrow> find_installed h s \<noteq> Missing"

section \<open>Installing\<close>

text \<open>\<open>fs::remove_file\<close> and \<open>fs::copy\<close>\<close>

definition fs_remove :: "path \<Rightarrow> (store, io_error, unit) op" where
  "fs_remove p s = (case file_at s p of
       None \<Rightarrow> (s, Inl (os_error NotFound))
     | Some _ \<Rightarrow> if st_wfault s p \<noteq> None then (s, Inl (os_error PermissionDenied))
         else (s\<lparr>st_files := AList.delete p (st_files s)\<rparr>, Inr ()))"

definition fs_copy :: "path \<Rightarrow> path \<Rightarrow> (store, io_error, unit) op" where
  "fs_copy p q = bindS (\<lambda>s. (s, fs_read p s)) (\<lambda>b. fs_write q b)"

definition is_writable :: "host \<Rightarrow> string \<Rightarrow> store \<Rightarrow> store \<times> bool" where
  "is_writable h d s =
     (if \<not> is_dir s (place_of h d) then (s, False)
      else let probe = place_of h (join_name d (''.neonet.probe.'' @ dec_digits (h_pid h))) in
        (case fs_write probe [] s of
           (s1, Inr _) \<Rightarrow> (fst (fs_remove probe s1), True)
         | (s1, Inl _) \<Rightarrow> (s1, False)))"

text \<open>The first of a list of directories that can be written.\<close>

fun first_writable :: "host \<Rightarrow> string list \<Rightarrow> store \<Rightarrow> store \<times> string option" where
  "first_writable h [] s = (s, None)"
| "first_writable h (d # ds) s = (case is_writable h d s of
     (s1, True) \<Rightarrow> (s1, Some d) | (s1, False) \<Rightarrow> first_writable h ds s1)"

definition pick_dest :: "host \<Rightarrow> (store, io_error, string) op" where
  "pick_dest h s = (case first_writable h (filter (\<lambda>d. d \<noteq> []) (split_paths h) @ home_bins h) s of
       (s1, Some d) \<Rightarrow> (s1, Inr d)
     | (s1, None) \<Rightarrow> (s1, Inl (IoError PermissionDenied ''no writable install directory found on PATH'')))"

definition set_executable :: "path \<Rightarrow> (store, io_error, unit) op" where
  "set_executable p s = (if is_file s p then (s, Inr ()) else (s, Inl (os_error NotFound)))"

definition atomic_install :: "host \<Rightarrow> path \<Rightarrow> string \<Rightarrow> (store, io_error, string) op" where
  "atomic_install h src dest_dir =
     (let dest = join_name dest_dir ''neonet'';
          tmp = place_of h (join_name dest_dir (''neonet.tmp.'' @ dec_digits (h_pid h))) in
      bindS (fs_copy src tmp) (\<lambda>_.
      bindS (set_executable tmp) (\<lambda>_.
      bindS (fs_rename tmp (place_of h dest)) (\<lambda>_. ret dest))))"

text \<open>The last steps of both installations.\<close>

definition install_from :: "host \<Rightarrow> path \<Rightarrow> string \<Rightarrow> (store, io_error, string) op" where
  "install_from h src note = bindS (pick_dest h) (\<lambda>dest. bindS (atomic_install h src dest) (\<lambda>p. ret (note @ p)))"

function repo_root :: "store \<Rightarrow> path \<Rightarrow> path option" where
  "repo_root s d = (if is_file s (d @ [''Cargo.toml'']) then Some d
     else if d = [] then None else repo_root s (butlast d))"
  by pat_completeness auto
termination by (relation "measure (\<lambda>(s, d). length d)") auto

declare repo_root.simps [simp del]

definition toolchain_present :: "host \<Rightarrow> store \<Rightarrow> bool" where
  "toolchain_present h s \<longleftrightarrow> (\<forall>n \<in> set [''cargo'', ''rustc'']. case which h n s of Inr _ \<Rightarrow> True | Inl _ \<Rightarrow> False)"

type_synonym build_tool = "path \<Rightarrow> (store, io_error, bool) op"

definition build_from_source :: "build_tool \<Rightarrow> host \<Rightarrow> (store, io_error, string) op" where
  "build_from_source cargo h s = (case repo_root s (h_cwd h) of
       None \<Rightarrow> (s, Inl (IoError NotFound ''no NeoNet source checkout found near the current directory to build from''))
     | Some repo \<Rightarrow> bindS (cargo repo) (\<lambda>ok.
         if \<not> ok then raise (IoError Other ''cargo build --release failed'')
         else (\<lambda>s1. let bin = repo @ [''target'', ''release'', ''neonet''] in
           if \<not> is_file s1 bin
           then (s1, Inl (IoError NotFound ''build finished but target/release/neonet wasn't produced''))
           else install_from h bin ''neonet was missing -- built from source and installed into '' s1)) s)"

definition ensure :: "build_tool \<Rightarrow> host \<Rightarrow> path option \<Rightarrow> (store, io_error, string) op" where
  "ensure cargo h usb s = (case find_installed h s of
       OnPath p \<Rightarrow> (s, Inr (''neonet already installed: '' @ p))
     | At p \<Rightarrow> (s, Inr (''neonet found off-PATH at '' @ p @ '' (add its directory to PATH to use it directly)''))
     | Missing \<Rightarrow>
         (case usb of
            Some u \<Rightarrow> if is_file s (u @ [BUNDLE_BIN_SUBDIR, ''neonet''])
              then install_from h (u @ [BUNDLE_BIN_SUBDIR, ''neonet''])
                ''neonet was missing -- installed the bundled binary from this drive into '' s
              else if toolchain_present h s then build_from_source cargo h s
              else (s, Inl (IoError NotFound ''neonet is not installed''))
          | None \<Rightarrow> if toolchain_present h s then build_from_source cargo h s
              else (s, Inl (IoError NotFound ''neonet is not installed''))))"

section \<open>Authoring and adopting\<close>

definition flash_author ::
    "crates \<Rightarrow> pending_token codec \<Rightarrow> flashed_bundle codec \<Rightarrow> bytes \<Rightarrow> u64 \<Rightarrow> path \<Rightarrow> path \<Rightarrow> identity \<Rightarrow>
     (store, io_error, flashed_bundle) op" where
  "flash_author C P B raw now root usb i =
     bindS (issue_token C P raw now root None) (\<lambda>token.
       let bundle = \<lparr>fb_source = \<lparr>fs_public_key = public_key (public_of C i),
                       fs_fingerprint = fingerprint C (public_of C i), fs_alias = ''flashed-from''\<rparr>,
                     fb_token = token, fb_issued_at = now, fb_ttl = DEFAULT_TTL_SECS\<rparr> in
       bindS (lift_result (encode_doc B bundle)) (\<lambda>b.
       bindS (fs_write (usb @ [BUNDLE_FILE]) b) (\<lambda>_. ret bundle)))"

definition read_bundle :: "flashed_bundle codec \<Rightarrow> path \<Rightarrow> store \<Rightarrow> io_error + flashed_bundle" where
  "read_bundle B usb s = bindR (fs_read (usb @ [BUNDLE_FILE]) s) (\<lambda>b.
     bindR (ok_or (IoError InvalidData BUNDLE_FILE) (dec B b)) (\<lambda>bundle.
       if fb_token bundle = [] \<or> fs_public_key (fb_source bundle) = replicate 32 0
       then Inl (IoError InvalidData (BUNDLE_FILE @ '' is missing a token or public key''))
       else Inr bundle))"

definition devices_path :: "path \<Rightarrow> path" where
  "devices_path root = root @ [''devices.json'']"

definition load_devices :: "resolution_directory codec \<Rightarrow> path \<Rightarrow> store \<Rightarrow> resolution_directory" where
  "load_devices D root = load_doc D empty_directory (devices_path root)"

definition save_devices :: "resolution_directory codec \<Rightarrow> path \<Rightarrow> resolution_directory \<Rightarrow> (store, io_error, unit) op" where
  "save_devices D root = save_doc D (root @ [''devices.json.tmp'']) (devices_path root)"

interpretation known: persisted "load_devices D root" "save_devices D root" "codec_ok_at D"
  "doc_readable (devices_path root)" "doc_healthy (root @ [''devices.json.tmp'']) (devices_path root)"
  "doc_storable D" for D root
  unfolding load_devices_def save_devices_def by (rule doc_persisted) (simp add: devices_path_def)

record adopt_summary =
  as_trusted :: bool
  as_source :: flashed_source

definition flashed_device :: "flashed_source \<Rightarrow> device_record" where
  "flashed_device src = \<lparr>dr_identity = \<lparr>public_key = fs_public_key src\<rparr>, dr_alias = fs_alias src,
     dr_user = ''neo'', dr_resolution = \<lparr>rs_host = [], rs_port = 22, rs_known_hosts = []\<rparr>\<rparr>"

definition adopt ::
    "crates \<Rightarrow> pair_ledger codec \<Rightarrow> flashed_bundle codec \<Rightarrow> resolution_directory codec \<Rightarrow> u64 \<Rightarrow> path \<Rightarrow> path \<Rightarrow>
     (flashed_source \<Rightarrow> io_error + bool) \<Rightarrow> (store, io_error, adopt_summary) op" where
  "adopt C L B D now root usb confirm s =
     (case read_bundle B usb s of
        Inl e \<Rightarrow> (s, Inl e)
      | Inr bundle \<Rightarrow> (case confirm (fb_source bundle) of
          Inl e \<Rightarrow> (s, Inl e)
        | Inr False \<Rightarrow> (s, Inr \<lparr>as_trusted = False, as_source = fb_source bundle\<rparr>)
        | Inr True \<Rightarrow>
            bindS (record_pairing C L now root \<lparr>public_key = fs_public_key (fb_source bundle)\<rparr>) (\<lambda>_ s1.
            bindS (save_devices D root (dir_add (flashed_device (fb_source bundle)) (load_devices D root s1)))
              (\<lambda>_. ret \<lparr>as_trusted = True, as_source = fb_source bundle\<rparr>) s1) s))"

section \<open>What an installation leaves\<close>

lemma fs_rename_moved: "fs_rename p q s = (s', Inr u) \<Longrightarrow> file_at s' q = file_at s p"
  by (auto simp: fs_rename_def file_at_def split: if_splits option.splits)

lemma atomic_install_ok:
  assumes "atomic_install h src d s = (s', Inr p)"
  shows "p = join_name d ''neonet''" "\<exists>b. fs_read src s = Inr b \<and> file_at s' (place_of h p) = Some b"
proof -
  let ?tmp = "place_of h (join_name d (''neonet.tmp.'' @ dec_digits (h_pid h)))"
  from assms obtain b s1 s2 where "fs_read src s = Inr b" and w: "fs_write ?tmp b s = (s1, Inr ())"
    and "set_executable ?tmp s1 = (s2, Inr ())" and m: "fs_rename ?tmp (place_of h (join_name d ''neonet'')) s2 = (s', Inr ())"
    and p: "p = join_name d ''neonet''"
    by (auto simp: atomic_install_def Let_def bindS_ok_iff fs_copy_def ret_def)
  moreover from this have "s2 = s1" by (auto simp: set_executable_def split: if_splits)
  ultimately show "p = join_name d ''neonet''" "\<exists>b. fs_read src s = Inr b \<and> file_at s' (place_of h p) = Some b"
    using fs_write_ok [OF w] fs_rename_moved [OF m] by (auto simp: store_simps)
qed

lemma first_writable_mem: "first_writable h ds s = (s', Some d) \<Longrightarrow> d \<in> set ds"
  by (induction h ds s rule: first_writable.induct) (auto split: prod.splits bool.splits)

lemma pick_dest_mem: "pick_dest h s = (s', Inr d) \<Longrightarrow> d \<in> set (split_paths h) \<union> set (home_bins h)"
  by (auto simp: pick_dest_def dest: first_writable_mem split: prod.splits option.splits)

text \<open>A program file in one of the directories searched is found.\<close>

lemma file_installed:
  assumes "d \<in> set (split_paths h) \<union> set (home_bins h)" and "is_file s (place_of h (join_name d ''neonet''))"
  shows "is_installed h s"
proof -
  have "find P ds = None \<Longrightarrow> d \<in> set ds \<Longrightarrow> \<not> P d" for P and ds :: "string list" by (auto simp: find_None_iff)
  then show ?thesis using assms
    by (auto simp: is_installed_def find_installed_def which_def home_bin_candidate_def split: option.splits sum.splits)
qed

lemma install_settles:
  assumes "install_from h src note s = (s', Inr m)"
  shows "is_installed h s'"
proof -
  from assms obtain d s1 p where d: "pick_dest h s = (s1, Inr d)" and "atomic_install h src d s1 = (s', Inr p)"
    by (auto simp: install_from_def bindS_ok_iff ret_def)
  with atomic_install_ok [of h src d s1 s' p] have "is_file s' (place_of h (join_name d ''neonet''))"
    by (auto simp: is_file_def)
  with pick_dest_mem [OF d] show ?thesis by (rule file_installed)
qed

lemma build_settles: "build_from_source cargo h s = (s', Inr m) \<Longrightarrow> is_installed h s'"
  by (auto simp: build_from_source_def bindS_ok_iff raise_def Let_def
      split: option.splits if_splits dest: install_settles)

lemma ensure_installed: "is_installed h s \<Longrightarrow> \<exists>m. ensure cargo h usb s = (s, Inr m)"
  by (cases "find_installed h s") (simp_all add: is_installed_def ensure_def)

text \<open>An \<open>ensure\<close> that reports success leaves an installed program, whether it was there, came
  from the drive or was built; so every later \<open>ensure\<close> succeeds and changes nothing.\<close>

theorem ensure_settles:
  assumes "ensure cargo h usb s = (s', Inr m)"
  shows "is_installed h s' \<and> (\<exists>m'. ensure cargo' h usb' s' = (s', Inr m'))"
proof -
  have "is_installed h s'"
  proof (cases "find_installed h s")
    case Missing
    then show ?thesis using assms
      by (auto simp: ensure_def dest: install_settles build_settles split: option.splits if_splits)
  qed (use assms in \<open>simp_all add: ensure_def is_installed_def\<close>)
  with ensure_installed show ?thesis by blast
qed

section \<open>Adoption\<close>

lemma save_devices_ledger:
  assumes "save_devices D root ds s = (s', r)"
  shows "load_ledger L root s' = load_ledger L root s"
proof -
  note sv = assms [unfolded save_devices_def]
  have "file_at s' (ledger_path root) = file_at s (ledger_path root)"
    by (rule save_doc_frame [OF sv]) (simp_all add: ledger_path_def devices_path_def)
  then show ?thesis unfolding load_ledger_def using save_doc_env [OF sv] by (intro load_doc_cong) simp_all
qed

text \<open>What an adoption does once the answer was yes.\<close>

lemma adopt_yes:
  assumes "adopt C L B D now root usb confirm s = (s', r)" and "read_bundle B usb s = Inr b"
    and "confirm (fb_source b) = Inr True"
  obtains s1 x where "record_pairing C L now root \<lparr>public_key = fs_public_key (fb_source b)\<rparr> s = (s1, x)"
    "load_ledger L root s' = load_ledger L root s1"
    "r = Inr y \<Longrightarrow> x = Inr () \<and>
       save_devices D root (dir_add (flashed_device (fb_source b)) (load_devices D root s1)) s1 = (s', Inr ())"
proof -
  obtain s1 x where p: "record_pairing C L now root \<lparr>public_key = fs_public_key (fb_source b)\<rparr> s = (s1, x)" by fastforce
  let ?ds = "dir_add (flashed_device (fb_source b)) (load_devices D root s1)"
  obtain s2 z where d: "save_devices D root ?ds s1 = (s2, z)" by fastforce
  have "load_ledger L root s' = load_ledger L root s1"
    using assms p d save_devices_ledger [OF d, of L]
    by (cases x; cases z) (auto simp: adopt_def bindS_def ret_def)
  moreover have "r = Inr y \<Longrightarrow> x = Inr () \<and> save_devices D root ?ds s1 = (s', Inr ())"
    using assms p d by (cases x; cases z) (auto simp: adopt_def bindS_def ret_def)
  ultimately show ?thesis using that p by blast
qed

lemma adopt_no:
  assumes "adopt C L B D now root usb confirm s = (s', r)"
    and "\<nexists>b. read_bundle B usb s = Inr b \<and> confirm (fb_source b) = Inr True"
  shows "s' = s"
  using assms by (auto simp: adopt_def split: sum.splits bool.splits)


section \<open>A drive pairs two machines\<close>

lemma author_ok:
  assumes "flash_author C P B raw now root usb i s = (s', Inr b)" and "codec_ok P"
  shows "fb_token b = hex_encode C raw" "public_key (public_of C i) = fs_public_key (fb_source b)"
    "fs_alias (fb_source b) = ''flashed-from''"
    "disk_token P root s' = Some \<lparr>pt_token = fb_token b, pt_expires_at = now + token_ttl None, pt_used = False\<rparr>"
    "\<exists>bs. enc B b = Some bs \<and> file_at s' (usb @ [BUNDLE_FILE]) = Some bs"
proof -
  from assms(1) obtain s1 tok bs where t: "issue_token C P raw now root None s = (s1, Inr tok)"
    and b: "b = \<lparr>fb_source = \<lparr>fs_public_key = public_key (public_of C i),
                   fs_fingerprint = fingerprint C (public_of C i), fs_alias = ''flashed-from''\<rparr>,
                 fb_token = tok, fb_issued_at = now, fb_ttl = DEFAULT_TTL_SECS\<rparr>"
    and e: "enc B b = Some bs" and w: "fs_write (usb @ [BUNDLE_FILE]) bs s1 = (s', Inr ())"
    by (auto simp: flash_author_def bindS_ok_iff lift_result_def encode_doc_def bind_simps ret_def Let_def)
  from t have tok: "tok = hex_encode C raw"
    and wp: "write_pending P root \<lparr>pt_token = tok, pt_expires_at = now + token_ttl None, pt_used = False\<rparr> s = (s1, Inr ())"
    by (auto simp: issue_token_def Let_def bindS_ok_iff ret_def)
  show "fb_token b = hex_encode C raw" "public_key (public_of C i) = fs_public_key (fb_source b)"
    "fs_alias (fb_source b) = ''flashed-from''" using b tok by simp_all
  show "\<exists>bs. enc B b = Some bs \<and> file_at s' (usb @ [BUNDLE_FILE]) = Some bs"
    using e fs_write_ok [OF w] by (simp add: store_simps)
  have "pending_path root \<noteq> usb @ [BUNDLE_FILE]" by (simp add: pending_path_def BUNDLE_FILE_def)
  from fs_write_frame [OF w this] write_pending_ok(1) [OF wp assms(2)] b
  show "disk_token P root s' = Some \<lparr>pt_token = fb_token b, pt_expires_at = now + token_ttl None, pt_used = False\<rparr>"
    by (simp add: disk_token_def)
qed

lemma adopt_frame:
  assumes "adopt C L B D now root usb confirm s = (s', r)"
    and "q \<notin> {root @ [''paired.tmp''], ledger_path root, root @ [''devices.json.tmp''], devices_path root}"
  shows "file_at s' q = file_at s q"
proof (cases "\<exists>b. read_bundle B usb s = Inr b \<and> confirm (fb_source b) = Inr True")
  case False
  then show ?thesis using adopt_no [OF assms(1)] by simp
next
  case True
  have p: "file_at s2 q = file_at s1 q" if "record_pairing C L now root i s1 = (s2, x)" for i s1 s2 x
  proof -
    have "s2 = s1 \<or> (\<exists>v. save_ledger L root v s1 = (s2, x))"
      using that by (auto simp: record_pairing_def Let_def split: if_splits)
    then show ?thesis using assms(2)
      by (auto simp: save_ledger_def ledger_path_def intro: save_doc_frame)
  qed
  have d: "file_at s2 q = file_at s1 q" if "save_devices D root ds s1 = (s2, x)" for ds s1 s2 x
    using that assms(2) by (auto simp: save_devices_def devices_path_def intro: save_doc_frame)
  from True assms(1) show ?thesis
    by (auto simp: adopt_def bindS_def ret_def split: prod.splits sum.splits dest!: p d)
qed

text \<open>A drive pairs the machine that adopts it with the machine that wrote it. If machine A
  writes its bundle to a drive and machine B, having been answered yes, adopts the drive without an
  error, then B's ledger holds A, B's device directory names A's key \<open>flashed-from\<close> with no SSH host, and the
  token on the drive is the one A holds, unused, for the next two minutes.\<close>

theorem flash_pairs:
  assumes "flash_author C P B raw now root usb i s = (s1, Inr b)" and "confirm (fb_source b) = Inr True"
    and "adopt C L B D now' root' usb confirm s1 = (s2, Inr y)"
    and "codec_ok P" and "codec_ok B" and "codec_ok L" and "codec_ok D"
    and "\<not> st_rfault s1 (ledger_path root')" and "\<not> st_rfault s1 (devices_path root')"
  shows "is_paired C L root' (public_of C i) s2 \<and> as_trusted y
    \<and> flashed_device (fb_source b) \<in> set (load_devices D root' s2)
    \<and> dr_identity (flashed_device (fb_source b)) = public_of C i
    \<and> disk_token P root s2 = Some \<lparr>pt_token = fb_token b, pt_expires_at = now + 120, pt_used = False\<rparr>"
proof -
  note a = author_ok [OF assms(1,4)]
  have key: "\<lparr>public_key = fs_public_key (fb_source b)\<rparr> = public_of C i" using a(2) by simp
  obtain bs where bs: "enc B b = Some bs" "file_at s1 (usb @ [BUNDLE_FILE]) = Some bs" using a(5) by blast
  have rb: "read_bundle B usb s1 = Inr b"
    using assms(3) bs codec_okD [OF assms(5) bs(1)]
    by (auto simp: adopt_def read_bundle_def fs_read_def ok_or_def split: if_splits)
  obtain t x where p: "record_pairing C L now' root' \<lparr>public_key = fs_public_key (fb_source b)\<rparr> s1 = (t, x)"
    and l: "load_ledger L root' s2 = load_ledger L root' t"
    and d: "x = Inr ()" "save_devices D root' (dir_add (flashed_device (fb_source b)) (load_devices D root' t)) t = (s2, Inr ())"
    by (rule adopt_yes [OF assms(3) rb assms(2), of y]) blast
  have "is_paired C L root' (public_of C i) t"
    using record_pairing_ok [of C L now' root' "public_of C i" s1 t "()"] p d(1) assms(6,8) by (simp add: key)
  moreover have "\<not> st_rfault t (devices_path root')" using record_pairing_faults [OF p] assms(9) by simp
  then have "load_devices D root' s2 = dir_add (flashed_device (fb_source b)) (load_devices D root' t)"
    by (intro known.load_save [OF d(2)]) (use assms(7) in \<open>auto simp: doc_readable_def\<close>)
  moreover have "disk_token P root s2 = disk_token P root s1"
    using adopt_frame [OF assms(3), of "pending_path root"]
    by (simp add: disk_token_def pending_path_def ledger_path_def devices_path_def)
  moreover have "as_trusted y" using assms(2,3) rb by (auto simp: adopt_def bindS_ok_iff ret_def)
  ultimately show ?thesis using l a key
    by (simp add: is_paired_def dir_add_mem flashed_device_def token_ttl_def DEFAULT_TTL_SECS_def MAX_TTL_SECS_def)
qed

text \<open>Witnesses: machine \<open>a\<close> writes a drive mounted at \<open>u\<close>, machine \<open>b\<close> adopts it.\<close>

definition flash_source :: flashed_source where
  "flash_source = \<lparr>fs_public_key = [66], fs_fingerprint = ''B'', fs_alias = ''flashed-from''\<rparr>"

definition flash_bundle :: flashed_bundle where
  "flash_bundle = \<lparr>fb_source = flash_source, fb_token = ''A'', fb_issued_at = 100, fb_ttl = 120\<rparr>"

definition flash_bundles :: "flashed_bundle codec" where
  "flash_bundles = table_codec [flash_bundle]"

definition flash_ledgers :: "pair_ledger codec" where
  "flash_ledgers = table_codec [[\<lparr>pd_fingerprint = ''B'', pd_public_key = [66], pd_paired_at = 101\<rparr>]]"

definition flash_directories :: "resolution_directory codec" where
  "flash_directories = table_codec [[flashed_device flash_source]]"

definition flash_store :: store where
  "flash_store = \<lparr>st_files = [], st_dirs = [[''a''], [''u''], [''b'']], st_wfault = (\<lambda>_. None), st_rfault = (\<lambda>_. False)\<rparr>"

definition flash_written :: store where
  "flash_written = fst (flash_author demo_crates demo_pc flash_bundles [65] 100 [''a''] [''u'']
     \<lparr>signing_key = [66], key_path = []\<rparr> flash_store)"

definition flash_adopted :: "bool \<Rightarrow> store \<times> (io_error + adopt_summary)" where
  "flash_adopted yes = adopt demo_crates flash_ledgers flash_bundles flash_directories 101 [''b''] [''u'']
     (\<lambda>src. Inr yes) flash_written"

lemma flash_codecs: "codec_ok demo_pc" "codec_ok flash_bundles" "codec_ok flash_ledgers" "codec_ok flash_directories"
  by (simp_all add: demo_pc_def flash_bundles_def flash_ledgers_def flash_directories_def table_codec_ok)

lemma flash_runs:
  "flash_author demo_crates demo_pc flash_bundles [65] 100 [''a''] [''u''] \<lparr>signing_key = [66], key_path = []\<rparr> flash_store
     = (flash_written, Inr flash_bundle)"
  "flash_adopted True = (fst (flash_adopted True), Inr \<lparr>as_trusted = True, as_source = flash_source\<rparr>)"
proof -
  have "snd (flash_author demo_crates demo_pc flash_bundles [65] 100 [''a''] [''u'']
      \<lparr>signing_key = [66], key_path = []\<rparr> flash_store) = Inr flash_bundle" by code_simp
  then show "flash_author demo_crates demo_pc flash_bundles [65] 100 [''a''] [''u'']
      \<lparr>signing_key = [66], key_path = []\<rparr> flash_store = (flash_written, Inr flash_bundle)"
    unfolding flash_written_def by (metis prod.collapse)
  have "snd (flash_adopted True) = Inr \<lparr>as_trusted = True, as_source = flash_source\<rparr>" by code_simp
  then show "flash_adopted True = (fst (flash_adopted True), Inr \<lparr>as_trusted = True, as_source = flash_source\<rparr>)"
    by (metis prod.collapse)
qed

lemma flash_readable:
  "\<not> st_rfault flash_written (ledger_path [''b''])" "\<not> st_rfault flash_written (devices_path [''b''])"
  by code_simp+

lemma flash_pairs_witness:
  "is_paired demo_crates flash_ledgers [''b''] \<lparr>public_key = [66]\<rparr> (fst (flash_adopted True))
   \<and> disk_token demo_pc [''a''] (fst (flash_adopted True))
     = Some \<lparr>pt_token = ''A'', pt_expires_at = 220, pt_used = False\<rparr>"
  using flash_pairs [OF flash_runs(1) _ flash_runs(2) [unfolded flash_adopted_def] flash_codecs flash_readable]
  by (simp add: flash_adopted_def public_of_def demo_crates_def flash_bundle_def)


definition flash_host :: host where
  "flash_host = \<lparr>h_path = ''/x:/bin'', h_home = None, h_cwd = [], h_pid = 7\<rparr>"

definition drive_store :: store where
  "drive_store = \<lparr>st_files = [([''u'', ''bin'', ''neonet''], [1, 2])], st_dirs = [[''u''], [''u'', ''bin''], [''bin'']],
     st_wfault = (\<lambda>_. None), st_rfault = (\<lambda>_. False)\<rparr>"

lemma ensure_settles_witness:
  "let s = fst (ensure (\<lambda>_. ret False) flash_host (Some [''u'']) drive_store) in
     \<not> is_installed flash_host drive_store \<and> file_at s [''bin'', ''neonet''] = Some [1, 2] \<and> is_installed flash_host s"
proof -
  let ?r = "ensure (\<lambda>_. ret False) flash_host (Some [''u'']) drive_store"
  have "case snd ?r of Inr _ \<Rightarrow> True | Inl _ \<Rightarrow> False" by code_simp
  then obtain m where "?r = (fst ?r, Inr m)" by (cases "snd ?r") (auto simp: prod_eq_iff)
  from ensure_settles [OF this] have "is_installed flash_host (fst ?r)" by blast
  moreover have "\<not> is_installed flash_host drive_store" "file_at (fst ?r) [''bin'', ''neonet''] = Some [1, 2]"
    by code_simp+
  ultimately show ?thesis unfolding Let_def by blast
qed

end
