(* ===== verification/Update.thy ===== *)
theory Update
  imports Store
begin

text \<open>
  \<open>src/update.rs\<close>: \<open>neonet update\<close>. The \<open>git\<close> and \<open>cargo\<close> programs are one argument, \<open>tool\<close>: what a
  command does to the world and what it answers. The session records every command that is started
  and every line that is printed, so the lemmas can say which commands an update runs and in which
  order. Output is text that \<open>git\<close> prints in ASCII; an error is the chain of messages \<open>anyhow\<close>
  prints, each cut to its first clause.
\<close>

section \<open>Commands\<close>

datatype command = Git "path option" "string list" | Cargo path "string list"

record tool_output =
  po_success :: bool
  po_stdout :: string
  po_stderr :: string

type_synonym 'w tool = "command \<Rightarrow> 'w \<Rightarrow> 'w \<times> tool_output option"

record 'w session =
  u_world :: 'w
  u_log :: "command list"
  u_printed :: "string list"

type_synonym ('w, 'a) task = "('w session, string list, 'a) op"

text \<open>Starting a program; \<open>None\<close> is the failure to start it.\<close>

definition exec :: "'w tool \<Rightarrow> string \<Rightarrow> command \<Rightarrow> ('w, tool_output) task" where
  "exec T context c s = (case T c (u_world s) of (w, x) \<Rightarrow>
     (s\<lparr>u_world := w, u_log := u_log s @ [c]\<rparr>, ok_or [context] x))"

definition println :: "string \<Rightarrow> ('w, unit) task" where
  "println t s = (s\<lparr>u_printed := u_printed s @ [t]\<rparr>, Inr ())"

definition bail :: "string \<Rightarrow> ('w, 'a) task" where
  "bail t = raise [t]"

definition with_context :: "string \<Rightarrow> ('w, 'a) task \<Rightarrow> ('w, 'a) task" where
  "with_context t m = map_errS (\<lambda>e. t # e) m"

text \<open>\<open>Result::ok\<close> on a task.\<close>

definition attempt :: "('w, 'a) task \<Rightarrow> ('w, 'a option) task" where
  "attempt m s = (case m s of (s', Inl _) \<Rightarrow> (s', Inr None) | (s', Inr a) \<Rightarrow> (s', Inr (Some a)))"

definition git_ln :: "'w tool \<Rightarrow> path \<Rightarrow> string list \<Rightarrow> ('w, string) task" where
  "git_ln T repo args = bindS (exec T (''could not run git '' @ join_with '' '' args) (Git (Some repo) args)) (\<lambda>out.
     if \<not> po_success out
     then bail (''git '' @ join_with '' '' args @ '' failed: '' @ trim_matches is_whitespace (po_stderr out))
     else ret (trim_matches is_whitespace (po_stdout out)))"

definition short_sha :: "string \<Rightarrow> string" where
  "short_sha sha = take 8 sha"

section \<open>The checkout\<close>

function find_repo_root_from :: "store \<Rightarrow> path \<Rightarrow> path option" where
  "find_repo_root_from s dir =
     (if fs_exists s (dir @ [''.git'']) \<and> file_at s (dir @ [''Cargo.toml'']) \<noteq> None then Some dir
      else if dir = [] then None else find_repo_root_from s (butlast dir))"
  by pat_completeness auto
termination by (relation "measure (\<lambda>(s, dir). length dir)") auto

declare find_repo_root_from.simps [simp del]

record update_env =
  ue_exe :: "path option"
  ue_cwd :: "path option"
  ue_repo :: "string option"
  ue_branch :: "string option"

definition find_repo_root :: "update_env \<Rightarrow> store \<Rightarrow> path option" where
  "find_repo_root E s = (case ue_exe E of
       Some [] \<Rightarrow> None
     | e \<Rightarrow> (let starts = (case e of None \<Rightarrow> [] | Some x \<Rightarrow> [butlast x])
                        @ (case ue_cwd E of None \<Rightarrow> [] | Some c \<Rightarrow> [c]) in
         Option.bind (find (\<lambda>d. find_repo_root_from s d \<noteq> None) starts) (find_repo_root_from s)))"

section \<open>The update\<close>

definition nonempty :: "string option \<Rightarrow> string option" where
  "nonempty x = (case x of Some [] \<Rightarrow> None | _ \<Rightarrow> x)"

text \<open>The flag, then the environment, then what \<open>git\<close> says of the checkout.\<close>

definition or_else :: "'a option \<Rightarrow> ('w, 'a option) task \<Rightarrow> ('w, 'a option) task" where
  "or_else x m = (case x of Some a \<Rightarrow> ret (Some a) | None \<Rightarrow> m)"

definition source_repo :: "'w tool \<Rightarrow> update_env \<Rightarrow> path \<Rightarrow> string option \<Rightarrow> ('w, string option) task" where
  "source_repo T E repo arg = or_else arg (or_else (nonempty (ue_repo E))
     (attempt (git_ln T repo [''remote'', ''get-url'', ''origin''])))"

definition source_branch :: "'w tool \<Rightarrow> update_env \<Rightarrow> path \<Rightarrow> string option \<Rightarrow> ('w, string option) task" where
  "source_branch T E repo arg = or_else arg (or_else (nonempty (ue_branch E))
     (bindS (attempt (git_ln T repo [''rev-parse'', ''--abbrev-ref'', ''HEAD'']))
       (\<lambda>b. ret (if b = Some ''HEAD'' then None else b))))"

definition settle_origin :: "'w tool \<Rightarrow> path \<Rightarrow> string \<Rightarrow> ('w, unit) task" where
  "settle_origin T repo url = bindS (attempt (git_ln T repo [''remote'', ''get-url'', ''origin''])) (\<lambda>current.
     case current of
       Some c \<Rightarrow> if c \<noteq> url
         then bindS (println (''repointing origin: '' @ c @ '' -> '' @ url)) (\<lambda>_.
              bindS (git_ln T repo [''remote'', ''set-url'', ''origin'', url]) (\<lambda>_. ret ()))
         else ret ()
     | None \<Rightarrow> bindS (git_ln T repo [''remote'', ''add'', ''origin'', url]) (\<lambda>_. ret ()))"

definition rebuild :: "'w tool \<Rightarrow> path \<Rightarrow> bool \<Rightarrow> ('w, unit) task" where
  "rebuild T repo release =
     bindS (println (''rebuilding the '' @ (if release then ''release'' else ''debug'') @ '' binary...'')) (\<lambda>_.
     bindS (exec T ''could not run cargo build'' (Cargo repo (''build'' # (if release then [''--release''] else [])))) (\<lambda>out.
       if \<not> po_success out then bail ''the rebuild failed''
       else println (''rebuild finished -- the next '' @ (if release then ''neonet (release build)'' else ''neonet'')
              @ '' run uses the new code.'')))"

definition fetch_and_pull :: "'w tool \<Rightarrow> path \<Rightarrow> string \<Rightarrow> string \<Rightarrow> bool \<Rightarrow> ('w, unit) task" where
  "fetch_and_pull T repo url branch release =
     bindS (println (''checking '' @ url @ '' ('' @ branch @ '')...'')) (\<lambda>_.
     bindS (with_context (''could not fetch from '' @ url) (git_ln T repo [''fetch'', ''--quiet'', ''origin'', branch])) (\<lambda>_.
     bindS (git_ln T repo [''rev-parse'', ''HEAD'']) (\<lambda>local.
     bindS (with_context (''branch '' @ branch @ '' was not found on '' @ url)
         (git_ln T repo [''rev-parse'', ''origin/'' @ branch])) (\<lambda>remote.
       if local = remote then println (''already up to date at '' @ short_sha local @ ''.'')
       else
         bindS (println (''update available: '' @ short_sha local @ '' -> '' @ short_sha remote @ ''.'')) (\<lambda>_.
         bindS (exec T ''could not run git pull --ff-only'' (Git (Some repo) [''pull'', ''--ff-only'', ''origin'', branch])) (\<lambda>out.
           if \<not> po_success out then bail ''the pull was refused''
           else bindS (println (''updated to '' @ short_sha remote @ '' in /'' @ join_with ''/'' repo @ ''.'')) (\<lambda>_.
             rebuild T repo release)))))))"

definition update_run ::
    "'w tool \<Rightarrow> update_env \<Rightarrow> store \<Rightarrow> string option \<Rightarrow> string option \<Rightarrow> bool \<Rightarrow> ('w, unit) task" where
  "update_run T E st repo_arg branch_arg release =
     bindS (exec T ''could not run git'' (Git None [''--version''])) (\<lambda>v.
     if \<not> po_success v then bail ''git is not usable''
     else (case find_repo_root E st of
         None \<Rightarrow> bail ''could not find this checkout''
       | Some repo \<Rightarrow>
           bindS (source_repo T E repo repo_arg) (\<lambda>u. case u of
               None \<Rightarrow> bail ''no source repo to update from''
             | Some url \<Rightarrow>
                 bindS (source_branch T E repo branch_arg) (\<lambda>b. case b of
                     None \<Rightarrow> bail ''could not determine which branch to follow''
                   | Some branch \<Rightarrow>
                       bindS (settle_origin T repo url) (\<lambda>_.
                         fetch_and_pull T repo url branch release)))))"

section \<open>The commands an update runs\<close>

text \<open>The only command that touches the work tree is a pull that refuses anything but a
  fast-forward; nothing is reset, checked out, cleaned, stashed or pushed.\<close>

fun gentle :: "command \<Rightarrow> bool" where
  "gentle (Git None args) \<longleftrightarrow> args = [''--version'']"
| "gentle (Git (Some repo) args) \<longleftrightarrow> args \<noteq> [] \<and>
     (if hd args = ''remote'' then 2 \<le> length args \<and> args ! 1 \<in> {''get-url'', ''set-url'', ''add''}
      else if hd args = ''fetch'' then length args = 4 \<and> take 3 args = [''fetch'', ''--quiet'', ''origin'']
      else if hd args = ''pull'' then length args = 4 \<and> take 3 args = [''pull'', ''--ff-only'', ''origin'']
      else hd args = ''rev-parse'')"
| "gentle (Cargo repo args) \<longleftrightarrow> args \<in> {[''build''], [''build'', ''--release'']}"

text \<open>A task only ever adds gentle commands to the log.\<close>

definition adds_gentle :: "'w session \<Rightarrow> 'w session \<Rightarrow> bool" where
  "adds_gentle s s' \<longleftrightarrow> (list_all gentle (u_log s) \<longrightarrow> list_all gentle (u_log s'))"

lemma adds_gentle_preorder: "reflp adds_gentle" "transp adds_gentle"
  by (auto simp: adds_gentle_def reflp_def transp_def)

lemma gentle_exec: "gentle c \<Longrightarrow> preserves adds_gentle (exec T t c)"
  by (rule preservesI) (auto simp: exec_def adds_gentle_def split: prod.splits)

lemma gentle_pure: "preserves adds_gentle (println t)" "preserves adds_gentle (bail t)" "preserves adds_gentle (ret a)"
  by (auto intro!: preservesI simp: println_def bail_def raise_def ret_def adds_gentle_def)

lemma gentle_wrap:
  "preserves adds_gentle m \<Longrightarrow> preserves adds_gentle (with_context t m)"
  "preserves adds_gentle m \<Longrightarrow> preserves adds_gentle (attempt m)"
  by (auto intro!: preservesI simp: with_context_def attempt_def map_errS_def preserves_def split: prod.splits sum.splits)

lemma gentle_or_else: "preserves adds_gentle m \<Longrightarrow> preserves adds_gentle (or_else x m)"
  by (cases x) (simp_all add: or_else_def gentle_pure)

lemma gentle_if: "(b \<Longrightarrow> preserves adds_gentle m) \<Longrightarrow> (\<not> b \<Longrightarrow> preserves adds_gentle m') \<Longrightarrow>
    preserves adds_gentle (if b then m else m')"
  by simp

lemma gentle_option: "preserves adds_gentle m \<Longrightarrow> (\<And>a. preserves adds_gentle (f a)) \<Longrightarrow>
    preserves adds_gentle (case x of None \<Rightarrow> m | Some a \<Rightarrow> f a)"
  by (cases x) simp_all

lemmas gentle_rules = preserves_bindS [OF adds_gentle_preorder(2)] gentle_pure gentle_wrap gentle_or_else
  gentle_if gentle_option

lemma gentle_git: "gentle (Git (Some repo) args) \<Longrightarrow> preserves adds_gentle (git_ln T repo args)"
  unfolding git_ln_def by (intro gentle_rules gentle_exec)

lemma gentle_run: "preserves adds_gentle (update_run T E st repo_arg branch_arg release)"
  unfolding update_run_def source_repo_def source_branch_def settle_origin_def fetch_and_pull_def rebuild_def
  by (intro gentle_rules gentle_git gentle_exec) simp_all

definition fresh_session :: "'w \<Rightarrow> 'w session" where
  "fresh_session w = \<lparr>u_world = w, u_log = [], u_printed = []\<rparr>"

text \<open>An update never runs a command that could destroy local work. Whatever \<open>git\<close> and
  \<open>cargo\<close> answer, the commands started are a version check, reads of revisions and of the remote, a
  setting of the remote, a fetch, a fast-forward-only pull and a build.\<close>

theorem update_gentle:
  "list_all gentle (u_log (fst (update_run T E st repo_arg branch_arg release (fresh_session w))))"
proof -
  obtain s' r where "update_run T E st repo_arg branch_arg release (fresh_session w) = (s', r)" by fastforce
  with preservesD [OF gentle_run this] show ?thesis by (simp add: adds_gentle_def fresh_session_def)
qed

end
