(* ===== verification/Cli.thy ===== *)
theory Cli
  imports NodeNet StorageLib Vfs Flasher
begin

text \<open>
  The helpers of \<open>src/main.rs\<close>: where the state lives, keys given on the command line, the counter of
  revocations, the allow list, the device directory, flags, the daemons started from the shell and
  remote paths. Environment variables, the clock and process ids are arguments. An error is the
  chain of messages \<open>anyhow\<close> prints, each cut to its first clause.
\<close>

type_synonym chain = "string list"

definition context_of :: "string \<Rightarrow> ('s, io_error, 'a) op \<Rightarrow> ('s, chain, 'a) op" where
  "context_of t m = map_errS (\<lambda>e. [t, err_text e]) m"

text \<open>The bare question mark: the error's own text.\<close>

definition anyhow :: "('s, io_error, 'a) op \<Rightarrow> ('s, chain, 'a) op" where
  "anyhow m = map_errS (\<lambda>e. [err_text e]) m"

section \<open>State and identity\<close>

definition home_dir :: "string option \<Rightarrow> string option \<Rightarrow> string" where
  "home_dir neonet_home h = (case neonet_home of
       Some p \<Rightarrow> p
     | None \<Rightarrow> (case h of Some d \<Rightarrow> join_name d ''.neonet'' | None \<Rightarrow> ''.neonet''))"

fun identity_text :: "identity_error \<Rightarrow> chain" where
  "identity_text (IdIo e) = [err_text e]"
| "identity_text (InvalidFile t) = [t]"

definition load_identity :: "bytes \<Rightarrow> path \<Rightarrow> (store, chain, identity) op" where
  "load_identity seed root =
     bindS (context_of ''could not create state directory'' (fs_mkdirs root)) (\<lambda>_.
       map_errS (\<lambda>e. ''could not load or generate identity'' # identity_text e)
         (load_or_generate seed (root @ [''identity''])))"

text \<open>\<open>Node::new\<close> takes the directory of the key file as the node's home.\<close>

definition default_node_home :: "identity \<Rightarrow> path" where
  "default_node_home i = butlast (key_path i)"

definition parse_public_key :: "crates \<Rightarrow> string \<Rightarrow> chain + bytes" where
  "parse_public_key C hex = (case hex_decode C hex of
       None \<Rightarrow> Inl [''not valid hex'']
     | Some b \<Rightarrow> if length b = 32 then Inr b else Inl [''a public key must be exactly 64 hex characters''])"

section \<open>The counter of revocations\<close>

fun from_le :: "bytes \<Rightarrow> u64" where
  "from_le [] = 0"
| "from_le (b # bs) = push_bit 8 (from_le bs) OR ucast b"

definition sat_succ :: "u64 \<Rightarrow> u64" where
  "sat_succ n = (if n = - 1 then - 1 else n + 1)"

definition epoch_path :: "path \<Rightarrow> path" where
  "epoch_path root = root @ [''revoke.epoch'']"

definition next_epoch :: "path \<Rightarrow> store \<Rightarrow> u64" where
  "next_epoch root s = (case fs_read (epoch_path root) s of
       Inr b \<Rightarrow> if length b = 8 then sat_succ (from_le b) else 1
     | Inl _ \<Rightarrow> 1)"

definition next_revocation_epoch :: "path \<Rightarrow> (store, chain, u64) op" where
  "next_revocation_epoch root s = (let n = next_epoch root s in
     bindS (anyhow (write_then_rename (root @ [with_extension ''epoch.tmp'' ''revoke.epoch'']) (epoch_path root) (le_bytes64 n)))
       (\<lambda>_. ret n) s)"

section \<open>The allow list\<close>

definition load_allow_list :: "crates \<Rightarrow> string list codec \<Rightarrow> path option \<Rightarrow> store \<Rightarrow> chain + allow_list" where
  "load_allow_list C J p s = (case p of
       None \<Rightarrow> Inr allow_open
     | Some q \<Rightarrow>
         bindR (map_err (\<lambda>e. [''could not read allow-list file'', err_text e]) (fs_read q s)) (\<lambda>b.
         bindR (ok_or [''not valid allow-list JSON''] (dec J b)) (\<lambda>keys.
           if keys = [] then Inl [''allow-list file is empty'']
           else bindR (mapR (\<lambda>h. bindR (parse_public_key C h) (\<lambda>k. Inr \<lparr>public_key = k\<rparr>)) keys)
                  (\<lambda>is. Inr (allow_only is)))))"

section \<open>Devices and flags\<close>

definition read_devices :: "resolution_directory codec \<Rightarrow> path \<Rightarrow> store \<Rightarrow> chain + resolution_directory" where
  "read_devices D root s =
     (if \<not> fs_exists s (devices_path root) then Inr empty_directory
      else bindR (map_err (\<lambda>e. [''could not read devices.json'', err_text e]) (fs_read (devices_path root) s))
             (\<lambda>b. ok_or [''devices.json is not valid device-directory JSON''] (dec D b)))"

definition short_id :: "string \<Rightarrow> string" where
  "short_id fp = take 12 fp"

definition flag_value :: "string list \<Rightarrow> string \<Rightarrow> string option" where
  "flag_value args name = (case dropWhile (\<lambda>a. a \<noteq> name) args of _ # v # _ \<Rightarrow> Some v | _ \<Rightarrow> None)"

definition flag_usize :: "string list \<Rightarrow> string \<Rightarrow> nat option" where
  "flag_usize args name = Option.bind (flag_value args name) (parse_nat (2 ^ 64))"

datatype channel_target = Alias string | Nothing

definition words_text :: "string list \<Rightarrow> string option" where
  "words_text ws = (if ws = [] then None else Some (join_with '' '' ws))"

definition find_channel_target ::
    "crates \<Rightarrow> resolution_directory codec \<Rightarrow> path \<Rightarrow> string list \<Rightarrow> string option \<Rightarrow> store \<Rightarrow>
     channel_target \<times> string option" where
  "find_channel_target C D root ws mounted s =
     (let known = (case (ws, read_devices D root s) of
          (w # _, Inr ds) \<Rightarrow> dir_resolve C w ds \<noteq> None | _ \<Rightarrow> False) in
      if known then (Alias (hd ws), words_text (tl ws))
      else (case mounted of Some m \<Rightarrow> (Alias m, words_text ws) | None \<Rightarrow> (Nothing, None)))"

section \<open>Daemons\<close>

record daemon =
  d_name :: string
  d_pid :: u32
  d_log :: string

definition daemons_path :: "path \<Rightarrow> path" where
  "daemons_path root = root @ [''logs'', ''daemons.json'']"

definition list_daemons :: "daemon list codec \<Rightarrow> path \<Rightarrow> store \<Rightarrow> daemon list" where
  "list_daemons K root = load_doc K [] (daemons_path root)"

definition save_daemons :: "daemon list codec \<Rightarrow> path \<Rightarrow> daemon list \<Rightarrow> (store, io_error, unit) op" where
  "save_daemons K root ds =
     bindS (lift_result (encode_doc K ds)) (\<lambda>b.
     bindS (fs_mkdirs (root @ [''logs''])) (\<lambda>_.
       write_then_rename (root @ [''logs'', with_extension ''tmp'' ''daemons.json'']) (daemons_path root) b))"

text \<open>The daemons on record when another is added; a file that does not parse counts as empty.\<close>

definition recorded_daemons :: "daemon list codec \<Rightarrow> path \<Rightarrow> store \<Rightarrow> chain + daemon list" where
  "recorded_daemons K root s = (if \<not> fs_exists s (daemons_path root) then Inr []
     else bindR (map_err (\<lambda>e. [''could not read daemons.json'', err_text e]) (fs_read (daemons_path root) s))
            (\<lambda>b. Inr (case dec K b of Some ds \<Rightarrow> ds | None \<Rightarrow> [])))"

text \<open>\<open>spawn\<close> starts the process and yields its id; \<open>micros\<close> is the time in the log's name.\<close>

definition spawn_daemon ::
    "daemon list codec \<Rightarrow> (string \<Rightarrow> string list \<Rightarrow> (store, io_error, u32) op) \<Rightarrow> nat \<Rightarrow> path \<Rightarrow> string \<Rightarrow>
     string list \<Rightarrow> (store, chain, u32 \<times> path) op" where
  "spawn_daemon K spawn micros root sub argv =
     (let logs = root @ [''logs'']; log = sub @ ''-'' @ dec_digits micros @ ''.log'' in
      bindS (anyhow (fs_mkdirs logs)) (\<lambda>_.
      bindS (context_of ''could not open daemon log'' (fs_write (logs @ [log]) [])) (\<lambda>_.
      bindS (context_of ''could not spawn neonet'' (spawn sub argv)) (\<lambda>pid s.
        bindS (lift_result (recorded_daemons K root s)) (\<lambda>ds.
        bindS (anyhow (save_doc K (logs @ [with_extension ''tmp'' ''daemons.json'']) (daemons_path root)
            (ds @ [\<lparr>d_name = sub, d_pid = pid, d_log = ''/'' @ join_with ''/'' (logs @ [log])\<rparr>])))
          (\<lambda>_. ret (pid, logs @ [log]))) s))))"

section \<open>Remote paths\<close>

definition join_remote_path :: "string \<Rightarrow> string \<Rightarrow> string" where
  "join_remote_path cwd target =
     join_with ''/'' (walk_path (if cwd = [] then [] else split_on (CHR ''/'') cwd) (split_on (CHR ''/'') target))"

definition remote_cwd_display :: "string \<Rightarrow> string" where
  "remote_cwd_display cwd = (if cwd = [] then ''/'' else ''/'' @ cwd)"

section \<open>Epochs count up\<close>

lemma bit_from_le: "bit (from_le bs) k \<longleftrightarrow> k < 64 \<and> k div 8 < length bs \<and> bit (bs ! (k div 8)) (k mod 8)"
proof (induction bs arbitrary: k)
  case (Cons b bs)
  show ?case
  proof (cases "k < 8")
    case True
    then show ?thesis by (simp add: bit_or_iff bit_push_bit_iff bit_ucast_iff)
  next
    case False
    then obtain j where k: "k = j + 8" by (metis add.commute le_Suc_ex not_less)
    have "\<not> bit b (j + 8)" using bit_imp_le_length [of b "j + 8"] by auto
    moreover have "(j + 8) div 8 = Suc (j div 8)" by simp
    ultimately show ?thesis using Cons [of j] k by (auto simp: bit_or_iff bit_push_bit_iff bit_ucast_iff)
  qed
qed simp

lemma from_le_bytes64: "from_le (le_bytes64 n) = n"
proof (rule bit_word_eqI)
  fix k assume "k < LENGTH(64)"
  then have k: "k < 64" "k div 8 < 8" by simp_all
  then have "le_bytes64 n ! (k div 8) = ucast (drop_bit (8 * (k div 8)) n)" by (simp add: le_bytes64_def)
  moreover have "8 * (k div 8) + k mod 8 = k" by simp
  ultimately show "bit (from_le (le_bytes64 n)) k = bit n k"
    using k by (simp add: bit_from_le le_bytes64_def bit_ucast_iff bit_drop_bit_eq)
qed

lemma le_bytes64_length [simp]: "length (le_bytes64 n) = 8"
  by (simp add: le_bytes64_def)

text \<open>The last epoch that reached the disk; 0 before the first.\<close>

definition stored_epoch :: "path \<Rightarrow> store \<Rightarrow> u64" where
  "stored_epoch root s = (case file_at s (epoch_path root) of
     Some b \<Rightarrow> if length b = 8 then from_le b else 0 | None \<Rightarrow> 0)"

lemma epoch_tmp: "root @ [with_extension ''epoch.tmp'' ''revoke.epoch''] \<noteq> epoch_path root"
proof -
  have "with_extension ''epoch.tmp'' ''revoke.epoch'' = ''revoke.epoch.tmp''" by code_simp
  then show ?thesis by (simp add: epoch_path_def)
qed

definition epoch_readable :: "path \<Rightarrow> store \<Rightarrow> bool" where
  "epoch_readable root s \<longleftrightarrow> \<not> st_rfault s (epoch_path root) \<and> \<not> is_dir s (epoch_path root)"

lemma next_epoch_readable: "epoch_readable root s \<Longrightarrow> next_epoch root s = sat_succ (stored_epoch root s)"
  by (auto simp: next_epoch_def stored_epoch_def epoch_readable_def fs_read_def ok_or_def sat_succ_def split: option.splits)

lemma next_revocation_epoch_step:
  assumes "next_revocation_epoch root s = (s', r)" and "epoch_readable root s"
  shows "epoch_readable root s'"
    "r = Inr n \<Longrightarrow> n = sat_succ (stored_epoch root s) \<and> stored_epoch root s' = n"
    "r = Inl e \<Longrightarrow> stored_epoch root s' = stored_epoch root s"
proof -
  let ?t = "root @ [with_extension ''epoch.tmp'' ''revoke.epoch'']"
  let ?n = "next_epoch root s"
  obtain x where w: "write_then_rename ?t (epoch_path root) (le_bytes64 ?n) s = (s', x)"
    and r: "r = (case x of Inl e \<Rightarrow> Inl [err_text e] | Inr _ \<Rightarrow> Inr ?n)"
    using assms(1)
    by (auto simp: next_revocation_epoch_def Let_def bindS_def anyhow_def map_errS_def map_err_def ret_def
        split: prod.splits sum.splits)
  show "epoch_readable root s'" using write_then_rename_env [OF w] assms(2) by (simp add: epoch_readable_def)
  show "r = Inr n \<Longrightarrow> n = sat_succ (stored_epoch root s) \<and> stored_epoch root s' = n"
  proof -
    assume "r = Inr n"
    then have n: "n = ?n" and "\<exists>u. x = Inr u" using r by (cases x; simp)+
    then obtain u where w': "write_then_rename ?t (epoch_path root) (le_bytes64 ?n) s = (s', Inr u)" using w by blast
    from write_then_rename_ok [OF w' epoch_tmp] show ?thesis
      using n next_epoch_readable [OF assms(2)] by (simp add: stored_epoch_def from_le_bytes64)
  qed
  show "r = Inl e \<Longrightarrow> stored_epoch root s' = stored_epoch root s"
  proof -
    assume "r = Inl e"
    then obtain y where "write_then_rename ?t (epoch_path root) (le_bytes64 ?n) s = (s', Inl y)"
      using r w by (cases x) simp_all
    from write_then_rename_err [OF this epoch_tmp [symmetric]] show ?thesis by (simp add: stored_epoch_def)
  qed
qed

text \<open>Calls one after another, each under its own write faults, and the epochs handed out.\<close>

fun epoch_run :: "path \<Rightarrow> (path \<Rightarrow> fault option) list \<Rightarrow> store \<Rightarrow> store \<times> u64 list" where
  "epoch_run root [] s = (s, [])"
| "epoch_run root (w # ws) s = (let (s1, r) = next_revocation_epoch root (s\<lparr>st_wfault := w\<rparr>);
     (s2, es) = epoch_run root ws s1 in (s2, case r of Inr n \<Rightarrow> n # es | Inl _ \<Rightarrow> es))"

lemma sat_succ_unat: "unat n < 2 ^ 64 - 1 \<Longrightarrow> unat (sat_succ n) = Suc (unat n)"
proof -
  assume n: "unat n < 2 ^ 64 - 1"
  have "unat (- 1 :: u64) = 2 ^ 64 - 1" by (simp add: unsigned_minus_1_eq_mask mask_eq_exp_minus_1)
  with n have ne: "n \<noteq> - 1" by auto
  have "unat (n + 1) = unat n + 1" using n by (subst unat_add_lem [THEN iffD1]) simp_all
  then show ?thesis using ne by (simp add: sat_succ_def)
qed

text \<open>C26: the epochs of a device's revocations count up without gaps or repetitions. However writes
  fail in between, the calls that succeed hand out the successors of the last stored epoch one after
  another, until 64 bits are exhausted.\<close>

theorem revocation_epochs:
  assumes "epoch_readable root s" and "unat (stored_epoch root s) + length ws < 2 ^ 64 - 1"
  shows "\<exists>k \<le> length ws. map unat (snd (epoch_run root ws s))
    = [Suc (unat (stored_epoch root s)) ..< Suc (unat (stored_epoch root s)) + k]"
  using assms
proof (induction ws arbitrary: s)
  case Nil
  then show ?case by simp
next
  case (Cons w ws)
  let ?s = "s\<lparr>st_wfault := w\<rparr>"
  obtain s1 r where st: "next_revocation_epoch root ?s = (s1, r)" by fastforce
  have rd: "epoch_readable root ?s" and e: "stored_epoch root ?s = stored_epoch root s"
    using Cons.prems(1) by (simp_all add: epoch_readable_def is_dir_def stored_epoch_def file_at_def)
  note step = next_revocation_epoch_step [OF st rd]
  obtain s2 es where run: "epoch_run root ws s1 = (s2, es)" by fastforce
  show ?case
  proof (cases r)
    case (Inl x)
    then have "stored_epoch root s1 = stored_epoch root s" using step(3) e by simp
    then obtain k where "k \<le> length ws" "map unat es = [Suc (unat (stored_epoch root s)) ..< Suc (unat (stored_epoch root s)) + k]"
      using Cons.IH [OF step(1)] Cons.prems(2) run by auto
    then show ?thesis using st run Inl by (intro exI [of _ k]) simp
  next
    case (Inr n)
    then have n: "n = sat_succ (stored_epoch root s)" "stored_epoch root s1 = n" using step(2) e by simp_all
    have "unat (stored_epoch root s) < 2 ^ 64 - 1" using Cons.prems(2) by simp
    then have un: "unat n = Suc (unat (stored_epoch root s))" using n(1) sat_succ_unat by simp
    then obtain k where "k \<le> length ws" "map unat es = [Suc (unat n) ..< Suc (unat n) + k]"
      using Cons.IH [OF step(1)] Cons.prems(2) run n(2) by auto
    then show ?thesis using st run Inr un by (intro exI [of _ "Suc k"]) (simp add: upt_conv_Cons)
  qed
qed

lemma revocation_epochs_witness:
  "map unat (snd (epoch_run [''h''] [\<lambda>_. None, \<lambda>_. Some Refused, \<lambda>_. None] (fresh_store [''h'']))) = [1, 2]"
proof -
  let ?s = "fresh_store [''h'']" and ?ws = "[\<lambda>_. None, \<lambda>_. Some Refused, \<lambda>_. None]"
  have "epoch_readable [''h''] ?s" "stored_epoch [''h''] ?s = 0" by code_simp+
  from revocation_epochs [OF this(1), of ?ws] this(2) obtain k
    where k: "map unat (snd (epoch_run [''h''] ?ws ?s)) = [1 ..< 1 + k]" by auto
  have "length (snd (epoch_run [''h''] ?ws ?s)) = 2" by code_simp
  with k have "k = 2" by (metis add_diff_cancel_left' length_map length_upt)
  then show ?thesis unfolding k by (simp add: upt_rec)
qed

section \<open>The allow list admits what the file names\<close>

lemma parse_public_key_ok: "parse_public_key C h = Inr k \<longleftrightarrow> hex_decode C h = Some k \<and> length k = 32"
  by (auto simp: parse_public_key_def split: option.splits if_splits)

text \<open>An allow file is never silently weakened. Without a file everybody is admitted; with
  one, either loading it fails or it names at least one key, every name in it is a 32-byte key, and
  exactly the devices with those keys are admitted.\<close>

theorem allow_file_exact:
  assumes "load_allow_list C J p s = Inr al"
  shows "case p of
      None \<Rightarrow> permits al i
    | Some q \<Rightarrow> \<exists>b hs ks. fs_read q s = Inr b \<and> dec J b = Some hs \<and> hs \<noteq> [] \<and> map (hex_decode C) hs = map Some ks
        \<and> list_all (\<lambda>k. length k = 32) ks \<and> (permits al i \<longleftrightarrow> public_key i \<in> set ks)"
proof (cases p)
  case None
  then show ?thesis using assms by (simp add: load_allow_list_def permits_def allow_open_def)
next
  case (Some q)
  let ?f = "\<lambda>h. bindR (parse_public_key C h) (\<lambda>k. Inr \<lparr>public_key = k\<rparr>)"
  from Some assms obtain b hs "is" where r: "fs_read q s = Inr b" "dec J b = Some hs" "hs \<noteq> []"
    and m: "mapR ?f hs = Inr is" and al: "al = allow_only is"
    by (auto simp: load_allow_list_def bind_simps map_err_def ok_or_def split: if_splits sum.splits option.splits)
  have each: "hex_decode C (hs ! n) = Some (public_key (is ! n)) \<and> length (public_key (is ! n)) = 32"
    if n: "n < length hs" for n
  proof -
    obtain k where "hex_decode C (hs ! n) = Some k" "length k = 32" "is ! n = \<lparr>public_key = k\<rparr>"
      using mapR_ok_nth [OF m n] by (auto simp: bind_simps parse_public_key_ok)
    then show ?thesis by simp
  qed
  have len: "length is = length hs" using mapR_ok_length [OF m] .
  have "map (hex_decode C) hs = map Some (map public_key is)"
    using each len by (intro nth_equalityI) simp_all
  moreover have "list_all (\<lambda>k. length k = 32) (map public_key is)"
    using each len by (auto simp: list_all_length)
  moreover have "i \<in> set is \<longleftrightarrow> public_key i \<in> set (map public_key is)" 
    by (auto simp: image_iff) (metis public_identity.equality unit.exhaust old.unit.exhaust)
  ultimately show ?thesis using r Some al
    by (auto simp: permits_def allow_only_def simp del: map_map intro!: exI [of _ "map public_key is"])
qed

definition allow_store :: store where
  "allow_store = (fresh_store [''h''])\<lparr>st_files := [([''h'', ''allow.json''], [])]\<rparr>"

definition allow_codec :: "string list codec" where
  "allow_codec = table_codec [[replicate 32 CHR ''k'']]"

lemma allow_file_exact_witness:
  "\<exists>al. load_allow_list demo_crates allow_codec (Some [''h'', ''allow.json'']) allow_store = Inr al
    \<and> permits al \<lparr>public_key = replicate 32 107\<rparr> \<and> \<not> permits al \<lparr>public_key = [1]\<rparr>"
proof -
  let ?r = "load_allow_list demo_crates allow_codec (Some [''h'', ''allow.json'']) allow_store"
  have r: "?r = Inr (Some [\<lparr>public_key = replicate 32 107\<rparr>])" by code_simp
  have f: "fs_read [''h'', ''allow.json''] allow_store = Inr []" "dec allow_codec [] = Some [replicate 32 CHR ''k'']"
    by code_simp+
  have h: "hex_decode demo_crates (replicate 32 CHR ''k'') = Some (replicate 32 107)" by code_simp
  have "permits (Some [\<lparr>public_key = replicate 32 107\<rparr>]) i \<longleftrightarrow> public_key i = replicate 32 107" for i
    using allow_file_exact [OF r, of i] f h by auto
  moreover have "[1 :: byte] \<noteq> replicate 32 107" by (auto dest: arg_cong [where f = length])
  ultimately show ?thesis using r by simp
qed

section \<open>Remote paths stay inside the share's root\<close>

text \<open>A current directory on a device: the root, or plain names with slashes between them.\<close>

definition remote_ok :: "string \<Rightarrow> bool" where
  "remote_ok cwd \<longleftrightarrow> cwd = [] \<or> list_all plain_name (split_on (CHR ''/'') cwd)"

lemma join_plain_ok: "list_all plain_name ps \<Longrightarrow> remote_ok (join_with ''/'' ps)"
proof (cases ps)
  case (Cons q qs)
  moreover assume p: "list_all plain_name ps"
  then have "\<forall>p \<in> set ps. CHR ''/'' \<notin> set p" by (auto simp: list_all_iff plain_name_def)
  ultimately have "split_on (CHR ''/'') (join_with ''/'' ps) = ps" by (intro split_join) auto
  then show ?thesis using p by (simp add: remote_ok_def)
qed (simp add: remote_ok_def)

lemma join_remote_ok: "remote_ok cwd \<Longrightarrow> remote_ok (join_remote_path cwd t)"
  unfolding join_remote_path_def
  by (intro join_plain_ok walk_path_plain) (auto simp: remote_ok_def dest: split_on_pieces)

text \<open>Whatever is typed at a remote prompt, the current directory stays a normal path under
  the root of the share: no empty, \<open>.\<close> or \<open>..\<close> component ever reaches the device.\<close>

theorem remote_cwd_normal: "remote_ok (foldl join_remote_path [] targets)"
proof (induction targets rule: rev_induct)
  case (snoc t ts)
  then show ?case using join_remote_ok by simp
qed (simp add: remote_ok_def)

section \<open>Daemons\<close>

text \<open>A daemon that was started is the last one listed.\<close>

lemma spawned_daemon_listed:
  assumes "spawn_daemon K spawn micros root sub argv s = (s', Inr (pid, log))" and "codec_ok K"
    and "\<not> st_rfault s' (daemons_path root)"
  shows "\<exists>ds. list_daemons K root s'
    = ds @ [\<lparr>d_name = sub, d_pid = pid, d_log = ''/'' @ join_with ''/'' log\<rparr>]"
proof -
  have tmp: "root @ [''logs'', with_extension ''tmp'' ''daemons.json''] \<noteq> daemons_path root"
  proof -
    have "with_extension ''tmp'' ''daemons.json'' = ''daemons.tmp''" by code_simp
    then show ?thesis by (simp add: daemons_path_def)
  qed
  obtain s1 ds where sv: "save_doc K (root @ [''logs'', with_extension ''tmp'' ''daemons.json'']) (daemons_path root)
      (ds @ [\<lparr>d_name = sub, d_pid = pid, d_log = ''/'' @ join_with ''/'' log\<rparr>]) s1 = (s', Inr ())"
    using assms(1)
    by (auto simp: spawn_daemon_def Let_def bindS_ok_iff anyhow_def context_of_def map_errS_ok ret_def split: sum.splits)
  have "\<not> st_rfault s1 (daemons_path root)" using save_doc_env [OF sv] assms(3) by simp
  then have "list_daemons K root s' = ds @ [\<lparr>d_name = sub, d_pid = pid, d_log = ''/'' @ join_with ''/'' log\<rparr>]"
    unfolding list_daemons_def
    by (intro doc_load_save [OF sv tmp]) (use assms(2) in \<open>auto simp: doc_readable_def codec_ok_at_def codec_ok_def\<close>)
  then show ?thesis by blast
qed

end
