(* ===== verification/Commands.thy ===== *)
theory Commands
  imports Cli AppStorage AppRendezvous AppCore AppLobby AppPair AppFiles Update
begin

text \<open>
  The commands of \<open>src/main.rs\<close> (\<open>run\<close>): each resolves a device, reaches it over the mesh, sends one
  request or a few, and acts on the answer. The mesh is a record of two operations on an abstract
  world: \<open>reach\<close> dials the bootstrap list and waits for a route (\<open>NodeNet\<close> models how), \<open>ask\<close> is
  \<open>Client::call\<close> with the reply decoded. The command's own state is its store, the world and what it
  has printed. The shell's commands of the same names send the same requests and act on the answers
  in the same way.
\<close>

section \<open>The desk a command works on\<close>

record 'w desk =
  dk_store :: store
  dk_world :: 'w
  dk_out :: "string list"

type_synonym ('w, 'a) cmd = "('w desk, chain, 'a) op"

record 'w mesh =
  reach :: "bootstrap_entry list \<Rightarrow> public_identity \<Rightarrow> ('w, chain, unit) op"
  ask :: "public_identity \<Rightarrow> 'w call"

record 'w seat =
  se_env :: env
  se_mesh :: "'w mesh"
  se_devices :: "resolution_directory codec"
  se_bootstrap :: "(socket_addr \<times> string) list codec"
  se_root :: path
  se_cwd :: path
  se_identity :: identity

definition on_files :: "(store, chain, 'a) op \<Rightarrow> ('w, 'a) cmd" where
  "on_files m d = (case m (dk_store d) of (s, r) \<Rightarrow> (d\<lparr>dk_store := s\<rparr>, r))"

definition on_mesh :: "('w, chain, 'a) op \<Rightarrow> ('w, 'a) cmd" where
  "on_mesh m d = (case m (dk_world d) of (w, r) \<Rightarrow> (d\<lparr>dk_world := w\<rparr>, r))"

definition from_store :: "(store \<Rightarrow> chain + 'a) \<Rightarrow> ('w, 'a) cmd" where
  "from_store f d = (d, f (dk_store d))"

definition say :: "string \<Rightarrow> ('w, unit) cmd" where
  "say t d = (d\<lparr>dk_out := dk_out d @ [t]\<rparr>, Inr ())"

fun say_all :: "string list \<Rightarrow> ('w, unit) cmd" where
  "say_all [] = ret ()"
| "say_all (t # ts) = bindS (say t) (\<lambda>_. say_all ts)"

definition give_up :: "string \<Rightarrow> ('w, 'a) cmd" where
  "give_up t = raise [t]"

definition seat_crates :: "'w seat \<Rightarrow> crates" where
  "seat_crates S = e_crates (se_env S)"

definition seat_finger :: "'w seat \<Rightarrow> public_identity \<Rightarrow> string" where
  "seat_finger S i = finger (se_env S) i"

section \<open>Reaching a device\<close>

text \<open>\<open>mesh_client\<close>; the node it opens keeps its state under the root.\<close>

definition mesh_client :: "'w seat \<Rightarrow> string \<Rightarrow> path option \<Rightarrow> ('w, public_identity) cmd" where
  "mesh_client S dev boot =
     bindS (from_store (read_devices (se_devices S) (se_root S))) (\<lambda>ds.
     case dir_resolve (seat_crates S) dev ds of
       None \<Rightarrow> give_up (''device '' @ dev @ '' not found'')
     | Some r \<Rightarrow>
         bindS (from_store (\<lambda>s. map_err (\<lambda>_. [''could not load bootstrap file''])
             (load_bootstrap (seat_crates S) (se_bootstrap S)
               (case boot of Some p \<Rightarrow> p | None \<Rightarrow> se_root S @ [''bootstrap.json'']) s))) (\<lambda>es.
         bindS (on_files (context_of ''could not initialize node'' (fs_mkdirs (se_root S)))) (\<lambda>_.
         bindS (on_mesh (map_errS (\<lambda>e. (''no route to device '' @ dev) # e) (reach (se_mesh S) es (dr_identity r)))) (\<lambda>_.
           ret (dr_identity r)))))"

type_synonym 'w asker = "app_frame \<Rightarrow> ('w, app_frame) cmd"

definition request :: "'w seat \<Rightarrow> public_identity \<Rightarrow> app_frame \<Rightarrow> ('w, app_frame) cmd" where
  "request S peer f = on_mesh (anyhow (ask (se_mesh S) peer f))"

section \<open>Burrow\<close>

definition entry_row :: "entry \<Rightarrow> string" where
  "entry_row e = en_name e @ (case en_kind e of KFile \<Rightarrow> [] | KDirectory \<Rightarrow> ''/'' | KSymlink \<Rightarrow> ''@'')
     @ [CHR 0x09] @ dec_digits (unat (en_size e))"

definition browse_via :: "'w asker \<Rightarrow> string option \<Rightarrow> ('w, unit) cmd" where
  "browse_via call path =
     bindS (call (AppBurrow (BList (case path of Some p \<Rightarrow> p | None \<Rightarrow> ''.'')))) (\<lambda>r. case r of
         AppBurrow (BListing _ es) \<Rightarrow> say_all (if es = [] then [''(empty)''] else map entry_row es)
       | AppBurrow (BError _ msg) \<Rightarrow> give_up (''browse failed on the host: '' @ msg)
       | _ \<Rightarrow> give_up ''unexpected reply to browse'')"

definition cmd_browse :: "'w seat \<Rightarrow> string \<Rightarrow> string option \<Rightarrow> path option \<Rightarrow> ('w, unit) cmd" where
  "cmd_browse S dev path boot =
     bindS (mesh_client S dev boot) (\<lambda>peer. browse_via (request S peer) path)"

definition fork_via :: "'w seat \<Rightarrow> 'w asker \<Rightarrow> string \<Rightarrow> ('w, unit) cmd" where
  "fork_via S call path =
     bindS (call (AppBurrow (BRead path))) (\<lambda>r. case r of
         AppBurrow (BContent _ b) \<Rightarrow>
           (let dest = path_join (se_root S @ [''forked'']) path in
            bindS (on_files (anyhow (fs_mkdirs (butlast dest)))) (\<lambda>_.
            bindS (on_files (anyhow (fs_write dest b))) (\<lambda>_.
              say (''forked '' @ path @ '' to /'' @ join_with ''/'' dest))))
       | AppBurrow (BError _ msg) \<Rightarrow> give_up (''fork failed on the host: '' @ msg)
       | _ \<Rightarrow> give_up ''unexpected reply to fork'')"

definition cmd_fork :: "'w seat \<Rightarrow> string \<Rightarrow> string \<Rightarrow> path option \<Rightarrow> ('w, unit) cmd" where
  "cmd_fork S dev path boot =
     bindS (mesh_client S dev boot) (\<lambda>peer. fork_via S (request S peer) path)"

section \<open>Encrypted storage\<close>

fun storage_text :: "storage_error \<Rightarrow> chain" where
  "storage_text (SIo e) = [''I/O: '' @ err_text e]"
| "storage_text (SCodec t) = [''codec: '' @ t]"
| "storage_text SCrypto = [''crypto failure'']"

text \<open>What \<open>build_manifest\<close> reads of a regular file, whose \<open>read\<close> fills the buffer up to the end.\<close>

function blocks_of :: "nat \<Rightarrow> bytes \<Rightarrow> bytes list" where
  "blocks_of n b = (if n = 0 \<or> b = [] then [] else take n b # blocks_of n (drop n b))"
  by pat_completeness auto
termination by (relation "measure (\<lambda>(n, b). length b)") auto

declare blocks_of.simps [simp del]

definition file_reading :: "path \<Rightarrow> store \<Rightarrow> reading" where
  "file_reading p s = bindR (fs_read p s) (\<lambda>b. Inr (of_nat (length b), blocks_of DEFAULT_CHUNK_SIZE b))"

definition storage_key :: "'w seat \<Rightarrow> bytes \<Rightarrow> ('w, bytes) cmd" where
  "storage_key S seed = on_files (map_errS storage_text (load_or_generate_key seed (se_root S @ [''storage.key''])))"

definition push_to ::
    "'w seat \<Rightarrow> (nat \<Rightarrow> bytes) \<Rightarrow> bytes \<Rightarrow> string \<Rightarrow> path \<Rightarrow> public_identity \<Rightarrow> ('w, string) cmd" where
  "push_to S nonce seed dev p peer =
     bindS (from_store (\<lambda>s. map_err (\<lambda>e. [file_display e]) (build_manifest (seat_crates S)
         (k_manifest (e_codecs (se_env S))) (se_identity S) (if p = [] then None else Some (last p)) (file_reading p s)
         DEFAULT_CHUNK_SIZE))) (\<lambda>(m, cs).
     bindS (lift_result (map_err (\<lambda>e. [err_text e]) (need_id (se_env S) m))) (\<lambda>fid.
     bindS (storage_key S seed) (\<lambda>key.
     bindS (lift_result (map_err storage_text
         (encrypt_all (seat_crates S) key (zip (map nonce [0..<length cs]) cs)))) (\<lambda>es.
     bindS (on_mesh (context_of ''could not store'' (push_chunks (k_encrypted (e_codecs (se_env S)))
         (ask (se_mesh S) peer) fid m es))) (\<lambda>_.
     bindS (say (''stored on '' @ dev @ '' (file id '' @ fid @ '')'')) (\<lambda>_. ret fid))))))"

definition cmd_store_push ::
    "'w seat \<Rightarrow> (nat \<Rightarrow> bytes) \<Rightarrow> bytes \<Rightarrow> string \<Rightarrow> path \<Rightarrow> path option \<Rightarrow> ('w, string) cmd" where
  "cmd_store_push S nonce seed dev p boot =
     bindS (from_store (\<lambda>s. if fs_exists s p then Inr () else Inl [''file not found''])) (\<lambda>_.
     bindS (mesh_client S dev boot) (push_to S nonce seed dev p))"

text \<open>After the pull: decrypt, and write to the destination, by default the name in the manifest.\<close>

definition restore_file ::
    "'w seat \<Rightarrow> bytes \<Rightarrow> path option \<Rightarrow> file_manifest \<times> encrypted_chunk list \<Rightarrow> ('w, path) cmd" where
  "restore_file S seed output r = (case r of (m, es) \<Rightarrow>
     bindS (storage_key S seed) (\<lambda>key.
     bindS (lift_result (map_err storage_text (decrypt_all (seat_crates S) key es))) (\<lambda>cs.
       let dest = (case output of Some p \<Rightarrow> p | None \<Rightarrow> path_join (se_cwd S) (fm_name m)) in
       bindS (on_files (map_errS (\<lambda>e. [file_display e]) (reconstruct (seat_crates S) m cs dest))) (\<lambda>_.
       bindS (say (''restored to /'' @ join_with ''/'' dest)) (\<lambda>_. ret dest)))))"

text \<open>\<open>None\<close>: the pull's fuel ran out.\<close>

definition pull_cmd ::
    "nat \<Rightarrow> 'w seat \<Rightarrow> public_identity \<Rightarrow> string \<Rightarrow> 'w desk \<Rightarrow>
     ('w desk \<times> (chain + file_manifest \<times> encrypted_chunk list)) option" where
  "pull_cmd fuel S peer fid d = map_option (\<lambda>(w, r). (d\<lparr>dk_world := w\<rparr>, map_err (\<lambda>e. [''could not fetch '' @ fid, err_text e]) r))
     (pull_chunks fuel (ask (se_mesh S) peer) fid (dk_world d))"

definition cmd_store_pull ::
    "nat \<Rightarrow> 'w seat \<Rightarrow> bytes \<Rightarrow> string \<Rightarrow> string \<Rightarrow> path option \<Rightarrow> path option \<Rightarrow> 'w desk \<Rightarrow>
     ('w desk \<times> (chain + path)) option" where
  "cmd_store_pull fuel S seed dev fid output boot d = (case mesh_client S dev boot d of
       (d1, Inl e) \<Rightarrow> Some (d1, Inl e)
     | (d1, Inr peer) \<Rightarrow> map_option (\<lambda>(d2, r). bindS (lift_result r) (restore_file S seed output) d2)
         (pull_cmd fuel S peer fid d1))"

definition copy_between ::
    "nat \<Rightarrow> 'w seat \<Rightarrow> string \<Rightarrow> public_identity \<Rightarrow> string \<Rightarrow> public_identity \<Rightarrow> string \<Rightarrow> 'w desk \<Rightarrow>
     ('w desk \<times> (chain + unit)) option" where
  "copy_between fuel S src from_peer dst to_peer fid d =
     map_option (\<lambda>(d1, x). bindS (lift_result x) (\<lambda>(m, es).
         bindS (on_mesh (context_of ''could not write'' (push_chunks (k_encrypted (e_codecs (se_env S)))
           (ask (se_mesh S) to_peer) fid m es))) (\<lambda>_.
         say (''replicated '' @ fid @ '' ('' @ show_nat (length es) @ '' chunks) from '' @ src @ '' to '' @ dst))) d1)
       (pull_cmd fuel S from_peer fid d)"

definition cmd_replicate ::
    "nat \<Rightarrow> 'w seat \<Rightarrow> string \<Rightarrow> string \<Rightarrow> string \<Rightarrow> path option \<Rightarrow> 'w desk \<Rightarrow> ('w desk \<times> (chain + unit)) option" where
  "cmd_replicate fuel S src dst fid boot d = (case read_devices (se_devices S) (se_root S) (dk_store d) of
       Inl e \<Rightarrow> Some (d, Inl e)
     | Inr ds \<Rightarrow> (case dir_resolve (seat_crates S) dst ds of
         None \<Rightarrow> Some (d, Inl [''device '' @ dst @ '' not found in devices.json''])
       | Some r \<Rightarrow> (case mesh_client S src boot d of
           (d1, Inl e) \<Rightarrow> Some (d1, Inl e)
         | (d1, Inr peer) \<Rightarrow> copy_between fuel S src peer dst (dr_identity r) fid d1)))"

section \<open>Revocation and registration\<close>

definition revoke_via :: "'w asker \<Rightarrow> string \<Rightarrow> core_frame \<Rightarrow> ('w, unit) cmd" where
  "revoke_via call dev f = bindS (call (AppCore f)) (\<lambda>r. case r of
       AppCore (RevokeAck e) \<Rightarrow> say (dev @ '' acknowledged revocation epoch '' @ dec_digits (unat e))
     | AppCore (RevokeRefuse e why) \<Rightarrow>
         give_up (dev @ '' refused revocation epoch '' @ dec_digits (unat e) @ '': '' @ why)
     | _ \<Rightarrow> give_up ''unexpected reply to revoke'')"

definition cmd_revoke :: "'w seat \<Rightarrow> string \<Rightarrow> string \<Rightarrow> path option \<Rightarrow> ('w, unit) cmd" where
  "cmd_revoke S dev hex boot =
     bindS (lift_result (parse_public_key (seat_crates S) hex)) (\<lambda>k.
     bindS (on_files (next_revocation_epoch (se_root S))) (\<lambda>epoch.
       let revoked = \<lparr>public_key = k\<rparr>;
           sig = sign_with (seat_crates S) (se_identity S) (revoke_payload epoch revoked) in
       bindS (mesh_client S dev boot) (\<lambda>peer. revoke_via (request S peer) dev (RevokeBroadcast revoked epoch sig))))"

text \<open>The operator commands open a node of the default home, not of the root.\<close>

definition cmd_operator_add :: "'w seat \<Rightarrow> string \<Rightarrow> ('w, unit) cmd" where
  "cmd_operator_add S hex =
     bindS (lift_result (parse_public_key (seat_crates S) hex)) (\<lambda>k.
     let home = default_node_home (se_identity S) in
     bindS (on_files (context_of ''could not open node state'' (fs_mkdirs home))) (\<lambda>_.
     bindS (on_files (anyhow (set_operator (se_env S) home \<lparr>public_key = k\<rparr>))) (\<lambda>_.
       say (''added '' @ seat_finger S \<lparr>public_key = k\<rparr> @ '' to the operator set at /''
         @ join_with ''/'' (operators_path (se_root S)) @ '' (this node only)''))))"

definition cmd_operator_list :: "'w seat \<Rightarrow> ('w, unit) cmd" where
  "cmd_operator_list S =
     (let home = default_node_home (se_identity S) in
      bindS (on_files (context_of ''could not open node state'' (fs_mkdirs home))) (\<lambda>_ d.
        let ops = operators (se_env S) home (dk_store d) in
        say_all (if ops = {} then [''operator set is empty''] else sorted_list_of_set ops) d))"

text \<open>The node of a mesh client, as the frame constructors use it.\<close>

definition seat_node :: "'w seat \<Rightarrow> store \<Rightarrow> node" where
  "seat_node S s = \<lparr>n_identity = se_identity S, n_home = se_root S, n_store = s, n_outbox = [], n_hosts = []\<rparr>"

definition register_via :: "'w seat \<Rightarrow> 'w asker \<Rightarrow> string \<Rightarrow> string \<Rightarrow> u32 option \<Rightarrow> ('w, unit) cmd" where
  "register_via S call dev addr ttl d =
     (let n = seat_node S (dk_store d);
          f = (case ttl of Some t \<Rightarrow> register_frame_with_ttl (se_env S) n addr t
               | None \<Rightarrow> register_frame (se_env S) n addr) in
      bindS (call (AppRendezvous f)) (\<lambda>r. case r of
          AppRendezvous Registered \<Rightarrow> say (''registered '' @ addr @ '' with '' @ dev)
        | AppRendezvous (RError msg) \<Rightarrow> give_up (dev @ '' refused the registration: '' @ msg)
        | _ \<Rightarrow> give_up ''unexpected reply to register'') d)"

definition cmd_register :: "'w seat \<Rightarrow> string \<Rightarrow> string \<Rightarrow> u32 option \<Rightarrow> path option \<Rightarrow> ('w, unit) cmd" where
  "cmd_register S dev addr ttl boot =
     (if CHR '':'' \<notin> set addr then give_up ''--addr must be a host:port peers can dial back''
      else bindS (mesh_client S dev boot) (\<lambda>peer. register_via S (request S peer) dev addr ttl))"

text \<open>\<open>str::to_lowercase\<close> on code points up to U+00FF, and \<open>str::contains\<close>.\<close>

definition lower_char :: "char \<Rightarrow> char" where
  "lower_char c = (let n = (of_char c :: nat) in
     if (65 \<le> n \<and> n \<le> 90) \<or> (192 \<le> n \<and> n \<le> 222 \<and> n \<noteq> 215) then char_of (n + 32) else c)"

definition lowercase :: "string \<Rightarrow> string" where
  "lowercase s = map lower_char s"

definition scan_hits :: "'w seat \<Rightarrow> string \<Rightarrow> endpoint_record list \<Rightarrow> endpoint_record list" where
  "scan_hits S filt rs = sort_key (\<lambda>r. seat_finger S (ep_identity r)) (filter (\<lambda>r. filt = []
     \<or> has_infix filt (lowercase (seat_finger S (ep_identity r))) \<or> has_infix filt (lowercase (ep_address r))) rs)"

definition record_row :: "'w seat \<Rightarrow> endpoint_record \<Rightarrow> string" where
  "record_row S r = seat_finger S (ep_identity r) @ '' @ '' @ ep_address r"

text \<open>The probes of \<open>--active\<close>; an answer that is no probe result drops the record silently.\<close>

fun probe_all :: "'w seat \<Rightarrow> public_identity \<Rightarrow> endpoint_record list \<Rightarrow> ('w, endpoint_record list) cmd" where
  "probe_all S peer [] = ret []"
| "probe_all S peer (r # rs) =
     bindS (request S peer (AppRendezvous (Probe (seat_finger S (ep_identity r))))) (\<lambda>x. case x of
         AppRendezvous (ProbeResult _ alive) \<Rightarrow>
           if alive then bindS (probe_all S peer rs) (\<lambda>ls. ret (r # ls))
           else bindS (say (record_row S r @ '' (stale)'')) (\<lambda>_. probe_all S peer rs)
       | _ \<Rightarrow> probe_all S peer rs)"

definition cmd_scan :: "'w seat \<Rightarrow> string \<Rightarrow> string option \<Rightarrow> bool \<Rightarrow> path option \<Rightarrow> ('w, unit) cmd" where
  "cmd_scan S dev filt active boot =
     bindS (mesh_client S dev boot) (\<lambda>peer.
     bindS (request S peer (AppRendezvous RList)) (\<lambda>r. case r of
         AppRendezvous (ListResult rs) \<Rightarrow>
           (let f = lowercase (case filt of Some x \<Rightarrow> x | None \<Rightarrow> []); hits = scan_hits S f rs in
            bindS (if active then probe_all S peer hits else ret hits) (\<lambda>hits.
              say_all (if hits = [] then [''(no devices registered'' @ (if f = [] then [] else '' matching '' @ f) @ '')'']
                else map (record_row S) hits)))
       | AppRendezvous (RError msg) \<Rightarrow> give_up (dev @ '' could not enumerate: '' @ msg)
       | _ \<Rightarrow> give_up ''unexpected reply to scan''))"

section \<open>Pairing\<close>

text \<open>\<open>neonet pair\<close> up to the inbox loop: the token it prints, and the home of the node that then
  answers.\<close>

definition cmd_pair :: "'w seat \<Rightarrow> bytes \<Rightarrow> u64 option \<Rightarrow> path option \<Rightarrow> ('w, string \<times> path) cmd" where
  "cmd_pair S raw ttl boot =
     bindS (from_store (\<lambda>s. map_err (\<lambda>_. [''could not load bootstrap file''])
         (load_bootstrap (seat_crates S) (se_bootstrap S)
           (case boot of Some p \<Rightarrow> p | None \<Rightarrow> se_root S @ [''bootstrap.json'']) s))) (\<lambda>_.
     bindS (on_files (context_of ''could not issue a pairing token''
         (issue_token (seat_crates S) (k_pending (e_codecs (se_env S))) raw (e_now (se_env S)) (se_root S) ttl))) (\<lambda>token.
     bindS (say (''pairing token: '' @ token)) (\<lambda>_.
     let home = default_node_home (se_identity S) in
     bindS (on_files (context_of ''could not initialize node'' (fs_mkdirs home))) (\<lambda>_.
       ret (token, home)))))"

definition flash_via :: "'w asker \<Rightarrow> string \<Rightarrow> string \<Rightarrow> ('w, unit) cmd" where
  "flash_via call dev token = bindS (call (AppPair (Redeem token))) (\<lambda>r. case r of
       AppPair (Redeemed fp) \<Rightarrow> say (dev @ '' paired '' @ fp)
     | AppPair (PError msg) \<Rightarrow> give_up (dev @ '' refused the token: '' @ msg)
     | _ \<Rightarrow> give_up ''unexpected reply to flash'')"

definition cmd_flash :: "'w seat \<Rightarrow> string \<Rightarrow> string \<Rightarrow> path option \<Rightarrow> ('w, unit) cmd" where
  "cmd_flash S dev token boot =
     (if token = [] then give_up ''no token given''
      else bindS (mesh_client S dev boot) (\<lambda>peer. flash_via (request S peer) dev token))"

definition cmd_pairs :: "'w seat \<Rightarrow> string list codec \<Rightarrow> (string list \<Rightarrow> string) \<Rightarrow> bool \<Rightarrow> ('w, unit) cmd" where
  "cmd_pairs S J pretty as_allow d =
     (let ds = paired_devices (k_ledger (e_codecs (se_env S))) (se_root S) (dk_store d);
          key = (\<lambda>r. hex_encode (seat_crates S) (pd_public_key r)) in
      if as_allow then say (pretty (map key ds)) d
      else say_all (if ds = [] then [''no pairings recorded yet'']
        else map (\<lambda>r. pd_fingerprint r @ [CHR 0x09] @ key r @ [CHR 0x09] @ dec_digits (unat (pd_paired_at r))) ds) d)"

section \<open>Lobbies and channels\<close>

definition log_row :: "log_line \<Rightarrow> string" where
  "log_row l = dec_digits (unat (ll_at l)) @ [CHR 0x09] @ ll_sender l @ [CHR 0x09] @ ll_text l"

text \<open>The answer's lobby name, not the one asked for, is recorded.\<close>

definition join_text :: "string \<Rightarrow> string \<Rightarrow> string \<Rightarrow> string list" where
  "join_text name title welcome =
     [''joined lobby '' @ name @ '' ('' @ (if title = [] then name else title) @ '')'']
     @ (if title \<noteq> [] \<and> title \<noteq> name then [''lobby title: '' @ title] else [])
     @ (if welcome \<noteq> [] then [welcome] else [])"

definition record_join ::
    "'w seat \<Rightarrow> string \<Rightarrow> string \<Rightarrow> public_identity \<Rightarrow> string \<Rightarrow> string \<Rightarrow> string \<Rightarrow> ('w, unit) cmd" where
  "record_join S dev key peer name title welcome =
     bindS (on_files (context_of ''could not record the lobby in the local roster''
         (add_to_roster (k_roster (e_codecs (se_env S))) (se_root S)
           \<lparr>ml_name = name, ml_host_alias = dev, ml_host_fingerprint = seat_finger S peer, ml_key_hex = key,
            ml_title = title, ml_welcome = welcome\<rparr>)))
       (\<lambda>_. say_all (join_text name title welcome))"

definition cmd_join :: "'w seat \<Rightarrow> string \<Rightarrow> string \<Rightarrow> string \<Rightarrow> path option \<Rightarrow> ('w, unit) cmd" where
  "cmd_join S name dev key boot =
     (if key = [] then give_up ''no lobby key given''
      else bindS (mesh_client S dev boot) (\<lambda>peer.
        bindS (request S peer (AppLobby (Join name key))) (\<lambda>r. case r of
            AppLobby (Joined name' title welcome) \<Rightarrow> record_join S dev key peer name' title welcome
          | AppLobby (Refuse msg) \<Rightarrow> give_up (dev @ '' refused the lobby key: '' @ msg)
          | _ \<Rightarrow> give_up ''unexpected reply to join'')))"

definition show_channel :: "'w seat \<Rightarrow> public_identity \<Rightarrow> ('w, unit) cmd" where
  "show_channel S peer d = (let ls = read_channel (se_root S) (seat_finger S peer) (dk_store d) in
     say_all (if ls = [] then [''no channel messages with '' @ seat_finger S peer @ '' yet.''] else map log_row ls) d)"

definition cmd_channel :: "'w seat \<Rightarrow> string \<Rightarrow> string option \<Rightarrow> path option \<Rightarrow> ('w, unit) cmd" where
  "cmd_channel S dev msg boot =
     bindS (mesh_client S dev boot) (\<lambda>peer. case msg of
         None \<Rightarrow> show_channel S peer
       | Some t \<Rightarrow> bindS (request S peer (AppChannel (ChSend t))) (\<lambda>r. case r of
             AppChannel (ChAck t) \<Rightarrow>
               say (''channel message to '' @ seat_finger S peer @ '' acked at '' @ dec_digits (unat t) @ ''.'')
           | _ \<Rightarrow> give_up ''unexpected reply to channel''))"

definition roster_entry :: "'w seat \<Rightarrow> string \<Rightarrow> ('w, member_lobby) cmd" where
  "roster_entry S name = from_store (\<lambda>s. ok_or [''not a member of lobby '' @ name]
     (find_roster (k_roster (e_codecs (se_env S))) (se_root S) name s))"

definition seal_post :: "'w seat \<Rightarrow> bytes \<Rightarrow> member_lobby \<Rightarrow> string \<Rightarrow> ('w, bytes \<times> bytes) cmd" where
  "seal_post S nonce l t =
     bindS (lift_result (ok_or [''lobby roster holds a corrupt key''] (key_bytes (seat_crates S) (ml_key_hex l)))) (\<lambda>key.
       lift_result (map_err (\<lambda>e. [''could not encrypt the post'', err_text e])
         (lobby_encrypt (seat_crates S) nonce key (utf8_bytes t))))"

definition post_via :: "'w asker \<Rightarrow> string \<Rightarrow> member_lobby \<Rightarrow> bytes \<times> bytes \<Rightarrow> ('w, unit) cmd" where
  "post_via call name l sealed = bindS (call (AppLobby (Post name (ml_key_hex l) (fst sealed) (snd sealed)))) (\<lambda>r. case r of
       AppLobby (Posted _ k) \<Rightarrow> say (''posted to '' @ name @ '' (relayed to '' @ show_nat k @ '' member(s)).'')
     | AppLobby (Refuse msg) \<Rightarrow> give_up (''the lobby refused the post: '' @ msg)
     | _ \<Rightarrow> give_up ''unexpected reply to post'')"

definition cmd_lobby_post :: "'w seat \<Rightarrow> bytes \<Rightarrow> string \<Rightarrow> string \<Rightarrow> path option \<Rightarrow> ('w, unit) cmd" where
  "cmd_lobby_post S nonce name t boot =
     bindS (roster_entry S name) (\<lambda>l.
     bindS (seal_post S nonce l t) (\<lambda>sealed.
     bindS (mesh_client S (ml_host_alias l) boot) (\<lambda>peer. post_via (request S peer) name l sealed)))"

definition show_log :: "'w seat \<Rightarrow> string \<Rightarrow> member_lobby \<Rightarrow> ('w, unit) cmd" where
  "show_log S name l d = (let ls = read_lobby (se_root S) name (dk_store d) in
     say_all (if ls = [] then [''lobby '' @ name @ '' (host '' @ ml_host_fingerprint l @ '') has no received posts logged yet.'']
       else map log_row ls) d)"

definition cmd_lobby_log :: "'w seat \<Rightarrow> string \<Rightarrow> ('w, unit) cmd" where
  "cmd_lobby_log S name =
     bindS (roster_entry S name) (show_log S name)"

definition cmd_lobby_members :: "'w seat \<Rightarrow> string \<Rightarrow> path option \<Rightarrow> ('w, unit) cmd" where
  "cmd_lobby_members S name boot =
     bindS (roster_entry S name) (\<lambda>l.
     bindS (mesh_client S (ml_host_alias l) boot) (\<lambda>peer.
     bindS (request S peer (AppLobby (Members name))) (\<lambda>r. case r of
         AppLobby (MemberList fps) \<Rightarrow> say_all (if fps = [] then [''<none>''] else fps)
       | _ \<Rightarrow> give_up ''unexpected reply to members'')))"

definition cmd_transfers :: "'w seat \<Rightarrow> ('w, unit) cmd" where
  "cmd_transfers S =
     bindS (from_store (\<lambda>s. map_err (\<lambda>e. [''could not scan inbound transfers'', file_display e])
         (list_transfers (k_state (e_codecs (se_env S))) (se_root S) s))) (\<lambda>ts.
       say_all (if ts = [] then [''No inbound transfers recorded on this device yet.'']
         else map (\<lambda>t. sum_id t @ [CHR 0x09] @ sum_name t @ [CHR 0x09] @ show_nat (sum_verified t) @ ''/''
           @ show_nat (sum_total t) @ [CHR 0x09] @ show_nat (sum_lost t) @ '' lost'' @ [CHR 0x09]
           @ (if sum_verified t = sum_total t then ''complete'' else ''incomplete'')) ts))"

section \<open>Facts about the desk\<close>

lemma cmd_ok_iff [bind_simps]:
  "on_files m d = (d', Inr a) \<longleftrightarrow> (\<exists>s. m (dk_store d) = (s, Inr a) \<and> d' = d\<lparr>dk_store := s\<rparr>)"
  "on_mesh n d = (d', Inr b) \<longleftrightarrow> (\<exists>w. n (dk_world d) = (w, Inr b) \<and> d' = d\<lparr>dk_world := w\<rparr>)"
  "from_store f d = (d', Inr c) \<longleftrightarrow> f (dk_store d) = Inr c \<and> d' = d"
  "give_up t d = (d', Inr c) \<longleftrightarrow> False"
  by (auto simp: on_files_def on_mesh_def from_store_def give_up_def raise_def split: prod.splits)

lemma say_all_store: "say_all ts d = (d', r) \<Longrightarrow> dk_store d' = dk_store d \<and> dk_world d' = dk_world d \<and> r = Inr ()"
  by (induction ts arbitrary: d) (auto simp: bindS_def say_def ret_def)

lemma context_ok: "context_of t m s = (s', Inr a) \<longleftrightarrow> m s = (s', Inr a)" "anyhow m s = (s', Inr a) \<longleftrightarrow> m s = (s', Inr a)"
  by (simp_all add: context_of_def anyhow_def map_errS_ok)

text \<open>Reaching a device touches no file, and the peer is the one on record under the name given.\<close>

lemma mesh_client_ok:
  assumes "mesh_client S dev boot d = (d', Inr peer)"
  shows "\<exists>ds r. read_devices (se_devices S) (se_root S) (dk_store d) = Inr ds \<and> r \<in> set ds \<and> dr_identity r = peer
      \<and> (dr_alias r = dev \<or> fingerprint (seat_crates S) peer = dev)"
    "same_file p (dk_store d) (dk_store d')" "st_rfault (dk_store d') = st_rfault (dk_store d)"
proof -
  from assms obtain ds r s where ds: "read_devices (se_devices S) (se_root S) (dk_store d) = Inr ds"
    and r: "dir_resolve (seat_crates S) dev ds = Some r" "peer = dr_identity r"
    and s: "fs_mkdirs (se_root S) (dk_store d) = (s, Inr ())" "dk_store d' = s"
    by (auto simp: mesh_client_def bindS_ok_iff bind_simps context_ok ret_def split: option.splits)
  from dir_resolve_mem [OF r(1)] ds r(2)
  show "\<exists>ds r. read_devices (se_devices S) (se_root S) (dk_store d) = Inr ds \<and> r \<in> set ds \<and> dr_identity r = peer
      \<and> (dr_alias r = dev \<or> fingerprint (seat_crates S) peer = dev)" by blast
  show "same_file p (dk_store d) (dk_store d')" "st_rfault (dk_store d') = st_rfault (dk_store d)"
    using same_file_mkdirs [OF s(1)] fs_mkdirs_faults [OF s(1)] s(2) by simp_all
qed

lemma request_ok: "request S peer f d = (d', Inr r) \<longleftrightarrow>
    (\<exists>w. ask (se_mesh S) peer f (dk_world d) = (w, Inr r) \<and> d' = d\<lparr>dk_world := w\<rparr>)"
  by (simp add: request_def bind_simps context_ok)

section \<open>Joining a lobby\<close>

lemma cmd_join_ok:
  assumes "cmd_join S name dev key boot d = (d', Inr u)"
  shows "\<exists>d1 peer d2 name' title wel. mesh_client S dev boot d = (d1, Inr peer)
    \<and> request S peer (AppLobby (Join name key)) d1 = (d2, Inr (AppLobby (Joined name' title wel)))
    \<and> record_join S dev key peer name' title wel d2 = (d', Inr u)"
proof -
  from assms obtain d1 peer d2 f where r: "mesh_client S dev boot d = (d1, Inr peer)"
    "request S peer (AppLobby (Join name key)) d1 = (d2, Inr f)"
    and b: "(case f of AppLobby (Joined name' title wel) \<Rightarrow> record_join S dev key peer name' title wel
          | AppLobby (Refuse msg) \<Rightarrow> give_up (dev @ '' refused the lobby key: '' @ msg)
          | _ \<Rightarrow> give_up ''unexpected reply to join'') d2 = (d', Inr u)"
    unfolding cmd_join_def bindS_ok_iff if_split [of "\<lambda>m. m d = (d', Inr u)"] cmd_ok_iff by blast
  then obtain name' title wel where "f = AppLobby (Joined name' title wel)"
    "record_join S dev key peer name' title wel d2 = (d', Inr u)"
    by (cases f; simp only: app_frame.case cmd_ok_iff)
      (rename_tac g, case_tac g; simp only: app_frame.case lobby_frame.case cmd_ok_iff; blast)
  with r show ?thesis by blast
qed

text \<open>A join that succeeds leaves one new fact in the roster. The device on record under the
  name given answered the key with an admission, and under the name it answered with, the roster
  now holds that device and that key; every other name is as it was.\<close>

theorem join_recorded:
  assumes "cmd_join S name dev key boot d = (d', Inr ())" and "codec_ok (k_roster (e_codecs (se_env S)))"
    and "\<not> st_rfault (dk_store d) (roster_path (se_root S))"
  shows "\<exists>ds r name' l w w'. read_devices (se_devices S) (se_root S) (dk_store d) = Inr ds \<and> r \<in> set ds
    \<and> (dr_alias r = dev \<or> fingerprint (seat_crates S) (dr_identity r) = dev)
    \<and> ask (se_mesh S) (dr_identity r) (AppLobby (Join name key)) w
        = (w', Inr (AppLobby (Joined name' (ml_title l) (ml_welcome l))))
    \<and> ml_name l = name' \<and> ml_host_alias l = dev \<and> ml_key_hex l = key
    \<and> ml_host_fingerprint l = seat_finger S (dr_identity r)
    \<and> (\<forall>n. find_roster (k_roster (e_codecs (se_env S))) (se_root S) n (dk_store d')
        = (if n = name' then Some l else find_roster (k_roster (e_codecs (se_env S))) (se_root S) n (dk_store d)))"
proof -
  let ?R = "k_roster (e_codecs (se_env S))"
  from cmd_join_ok [OF assms(1)] obtain d1 peer d2 name' title wel where m: "mesh_client S dev boot d = (d1, Inr peer)"
    and q: "request S peer (AppLobby (Join name key)) d1 = (d2, Inr (AppLobby (Joined name' title wel)))"
    and j: "record_join S dev key peer name' title wel d2 = (d', Inr ())" by blast
  let ?l = "\<lparr>ml_name = name', ml_host_alias = dev, ml_host_fingerprint = seat_finger S peer, ml_key_hex = key,
     ml_title = title, ml_welcome = wel\<rparr>"
  from j have a: "add_to_roster ?R (se_root S) ?l (dk_store d2) = (dk_store d', Inr ())"
    unfolding record_join_def by (auto simp: bindS_ok_iff cmd_ok_iff context_ok dest!: say_all_store)
  from q obtain w' where w': "ask (se_mesh S) peer (AppLobby (Join name key)) (dk_world d1) = (w', Inr (AppLobby (Joined name' title wel)))"
    and st: "dk_store d2 = dk_store d1" by (auto simp: request_ok)
  have rd: "doc_readable (roster_path (se_root S)) (dk_store d2)"
    using st mesh_client_ok(3) [OF m] assms(3) by (simp add: doc_readable_def)
  have old: "load_roster ?R (se_root S) (dk_store d2) = load_roster ?R (se_root S) (dk_store d)"
    unfolding load_roster_def st using mesh_client_ok(2) [OF m] by (rule load_doc_same)
  have "load_roster ?R (se_root S) (dk_store d') = roster_with ?l (load_roster ?R (se_root S) (dk_store d2))"
    using a rd assms(2) unfolding add_to_roster_def by (intro roster.load_save) auto
  then have "find_roster ?R (se_root S) n (dk_store d')
      = (if n = name' then Some ?l else find_roster ?R (se_root S) n (dk_store d))" for n
    by (simp add: find_roster_def roster_with_find old)
  with mesh_client_ok(1) [OF m] w' show ?thesis by (force intro: exI [of _ ?l])
qed

text \<open>Witness: device \<open>core\<close> hosts lobby \<open>l\<close>; the reply carries a title and no welcome.\<close>

definition join_lobby :: member_lobby where
  "join_lobby = \<lparr>ml_name = ''l'', ml_host_alias = ''core'', ml_host_fingerprint = [CHR 0x07], ml_key_hex = ''k'',
     ml_title = ''T'', ml_welcome = []\<rparr>"

definition join_mesh :: "string \<Rightarrow> unit mesh" where
  "join_mesh name = \<lparr>reach = (\<lambda>_ _. ret ()), ask = (\<lambda>_ _. ret (AppLobby (Joined name ''T'' [])))\<rparr>"

definition join_seat :: "string \<Rightarrow> unit seat" where
  "join_seat name = \<lparr>se_env = (demo_env 0)\<lparr>e_codecs := demo_app_codecs\<lparr>k_roster := table_codec [[join_lobby]]\<rparr>\<rparr>,
     se_mesh = join_mesh name, se_devices = table_codec [[demo_device]], se_bootstrap = table_codec [[]],
     se_root = [''h''], se_cwd = [], se_identity = demo_signer\<rparr>"

definition join_desk :: "unit desk" where
  "join_desk = \<lparr>dk_store = \<lparr>st_files = [([''h'', ''devices.json''], []), ([''h'', ''bootstrap.json''], [])], st_dirs = [[''h''], [''h'', ''lobbies'']],
     st_wfault = (\<lambda>_. None), st_rfault = (\<lambda>_. False)\<rparr>, dk_world = (), dk_out = []\<rparr>"

lemma join_recorded_witness:
  "find_roster (table_codec [[join_lobby]]) [''h''] ''l'' (dk_store (fst (cmd_join (join_seat ''l'') ''l'' ''core'' ''k'' None join_desk)))
     = Some join_lobby"
proof -
  let ?S = "join_seat ''l''" and ?r = "cmd_join (join_seat ''l'') ''l'' ''core'' ''k'' None join_desk"
  have "snd ?r = Inr ()" by code_simp
  then have r: "?r = (fst ?r, Inr ())" by (metis prod.collapse)
  have k: "k_roster (e_codecs (se_env ?S)) = table_codec [[join_lobby]]" "se_root ?S = [''h'']"
    by (simp_all add: join_seat_def demo_env_def demo_app_codecs_def)
  have rd: "\<not> st_rfault (dk_store join_desk) (roster_path [''h''])" by (simp add: join_desk_def)
  have "read_devices (se_devices ?S) [''h''] (dk_store join_desk) = Inr [demo_device]" by code_simp
  with join_recorded [OF r, unfolded k, OF table_codec_ok rd] obtain name' l w w' where
    a: "ask (se_mesh ?S) (dr_identity demo_device) (AppLobby (Join ''l'' ''k'')) w
        = (w', Inr (AppLobby (Joined name' (ml_title l) (ml_welcome l))))"
    and l: "ml_name l = name'" "ml_host_alias l = ''core''" "ml_key_hex l = ''k''"
      "ml_host_fingerprint l = seat_finger ?S (dr_identity demo_device)"
    and f: "find_roster (table_codec [[join_lobby]]) [''h''] name' (dk_store (fst ?r)) = Some l"
    by auto
  have "name' = ''l''" "ml_title l = ''T''" "ml_welcome l = []"
    using a by (simp_all add: join_seat_def join_mesh_def ret_def)
  moreover have "seat_finger ?S (dr_identity demo_device) = [CHR 0x07]" by code_simp
  ultimately have "l = join_lobby" using l by (simp add: join_lobby_def)
  with f \<open>name' = ''l''\<close> show ?thesis by simp
qed

text \<open>What the record trusts: a host that is asked to admit to one lobby and answers with the name of
  another takes that other lobby's place in the roster.\<close>

lemma join_takes_over:
  "map ml_name (load_roster (table_codec [[join_lobby]]) [''h'']
     (dk_store (fst (cmd_join (join_seat ''l'') ''other'' ''core'' ''k'' None join_desk)))) = [''l'']"
  by code_simp

section \<open>The token nobody can redeem\<close>

lemma load_identity_home: "load_identity seed root s = (s', Inr i) \<Longrightarrow> default_node_home i = root @ [''identity'']"
  by (auto simp: load_identity_def load_or_generate_def default_node_home_def butlast_append bindS_ok_iff map_errS_ok ret_def Let_def
      split: if_splits sum.splits)

lemma cmd_pair_ok:
  assumes "cmd_pair S raw ttl boot d = (d', Inr (token, home))"
  shows "\<exists>s1. issue_token (seat_crates S) (k_pending (e_codecs (se_env S))) raw (e_now (se_env S)) (se_root S) ttl (dk_store d)
        = (s1, Inr token) \<and> fs_mkdirs home s1 = (dk_store d', Inr ())"
    "home = default_node_home (se_identity S)"
  using assms by (auto simp: cmd_pair_def bindS_ok_iff cmd_ok_iff context_ok ret_def say_def Let_def)

lemma issue_token_ok:
  assumes "issue_token C P raw now root ttl s = (s', Inr token)" and "codec_ok P"
  shows "disk_token P root s' = Some \<lparr>pt_token = token, pt_expires_at = now + token_ttl ttl, pt_used = False\<rparr>"
    "q \<noteq> root @ [''pair.tmp''] \<Longrightarrow> q \<noteq> pending_path root \<Longrightarrow> file_at s' q = file_at s q"
proof -
  from assms(1) have w: "write_pending P root \<lparr>pt_token = token, pt_expires_at = now + token_ttl ttl, pt_used = False\<rparr> s
      = (s', Inr ())"
    by (auto simp: issue_token_def Let_def bindS_ok_iff ret_def)
  show "disk_token P root s' = Some \<lparr>pt_token = token, pt_expires_at = now + token_ttl ttl, pt_used = False\<rparr>"
    using write_pending_ok(1) [OF w assms(2)] .
  assume "q \<noteq> root @ [''pair.tmp'']" "q \<noteq> pending_path root"
  then show "file_at s' q = file_at s q"
    using save_doc_frame [OF w [unfolded write_pending_def]] by (simp add: pending_path_def)
qed

text \<open>C37: the token that \<open>neonet pair\<close> prints cannot be redeemed at the node the command then runs.
  The token is stored, live, under the root; but the node's home is the directory of the key file,
  where the handler looks, so presenting the right token is refused like a wrong one (unless an old
  token lies there).\<close>

theorem pair_command_strands_token:
  assumes "load_identity seed (se_root S) s = (dk_store d, Inr (se_identity S))"
    and "cmd_pair S raw ttl boot d = (d', Inr (token, home))"
    and "codec_ok (k_pending (e_codecs (se_env S)))"
    and "file_at (dk_store d) (pending_path (se_root S @ [''identity''])) = None"
    and "n_home n = home" and "n_store n = dk_store d'"
  shows "disk_token (k_pending (e_codecs (se_env S))) (se_root S) (dk_store d')
      = Some \<lparr>pt_token = token, pt_expires_at = e_now (se_env S) + token_ttl ttl, pt_used = False\<rparr>
    \<and> handle_pair E req (Redeem token) n
      = reply_then E req (AppPair (PError ''token is invalid, expired, or already used'')) None n"
proof -
  note home = cmd_pair_ok(2) [OF assms(2)] load_identity_home [OF assms(1)]
  obtain s1 where t: "issue_token (seat_crates S) (k_pending (e_codecs (se_env S))) raw (e_now (se_env S)) (se_root S) ttl
      (dk_store d) = (s1, Inr token)" and m: "fs_mkdirs home s1 = (dk_store d', Inr ())"
    using cmd_pair_ok(1) [OF assms(2)] by blast
  note i = issue_token_ok [OF t assms(3)]
  have "file_at (dk_store d') (pending_path home) = None"
    using i(2) [of "pending_path home"] fs_mkdirs_files [OF m] assms(4) home by (simp add: pending_path_def)
  then have "consume_token P now home tk (dk_store d') = (dk_store d', Inr False)" for P now tk
    by (auto simp: consume_token_def fs_read_def ok_or_def)
  then have "on_store (consume_token P now home tk) n = (n, Inr False)" for P now tk
    using assms(5,6) by (simp add: on_store_def)
  then show ?thesis using assms(5) i(1) fs_mkdirs_files [OF m] by (simp add: handle_pair_def disk_token_def)
qed

definition pair_desk :: "unit desk" where
  "pair_desk = \<lparr>dk_store = fst (load_identity (replicate 32 7) [''h''] (dk_store join_desk)), dk_world = (), dk_out = []\<rparr>"

definition pair_seat :: "unit seat" where
  "pair_seat = (join_seat [])\<lparr>se_env := (demo_env 100)\<lparr>e_codecs := demo_app_codecs\<lparr>k_pending := demo_pc\<rparr>\<rparr>,
     se_identity := \<lparr>signing_key = replicate 32 7, key_path = [''h'', ''identity'', ''identity.key'']\<rparr>\<rparr>"

lemma pair_command_strands_token_witness:
  "let d' = fst (cmd_pair pair_seat [65] None None pair_desk); n = (demo_node (dk_store d'))\<lparr>n_home := [''h'', ''identity'']\<rparr> in
     snd (cmd_pair pair_seat [65] None None pair_desk) = Inr (''A'', [''h'', ''identity''])
     \<and> handle_pair pair_env (demo_request \<lparr>public_key = [66]\<rparr>) (Redeem ''A'') n
       = reply_then pair_env (demo_request \<lparr>public_key = [66]\<rparr>)
           (AppPair (PError ''token is invalid, expired, or already used'')) None n"
proof -
  let ?r = "cmd_pair pair_seat [65] None None pair_desk"
  have v: "snd ?r = Inr (''A'', [''h'', ''identity''])" by code_simp
  then have r: "?r = (fst ?r, Inr (''A'', [''h'', ''identity'']))" by (metis prod.collapse)
  have s: "se_root pair_seat = [''h'']" "k_pending (e_codecs (se_env pair_seat)) = demo_pc"
    "se_identity pair_seat = \<lparr>signing_key = replicate 32 7, key_path = [''h'', ''identity'', ''identity.key'']\<rparr>"
    by (simp_all add: pair_seat_def join_seat_def)
  have "snd (load_identity (replicate 32 7) [''h''] (dk_store join_desk)) = Inr (se_identity pair_seat)" by code_simp
  then have l: "load_identity (replicate 32 7) (se_root pair_seat) (dk_store join_desk) = (dk_store pair_desk, Inr (se_identity pair_seat))"
    unfolding s(1) by (simp add: pair_desk_def prod_eq_iff)
  have c: "codec_ok (k_pending (e_codecs (se_env pair_seat)))" by (simp add: s demo_pc_def table_codec_ok)
  have f: "file_at (dk_store pair_desk) (pending_path (se_root pair_seat @ [''identity''])) = None" by code_simp
  from pair_command_strands_token [OF l r c f] v show ?thesis unfolding Let_def by simp
qed

text \<open>What a pull trusts: without an output argument the file goes where the stored manifest's name
  leads from the current directory, an absolute name included; for an empty file no key is needed.\<close>

lemma restore_follows_name:
  "file_at (dk_store (fst (restore_file (join_seat []) (replicate 32 7) None
     (demo_manifest\<lparr>fm_name := ''/etc/passwd'', fm_total_size := 0, fm_chunks := []\<rparr>, [])
     (join_desk\<lparr>dk_store := (dk_store join_desk)\<lparr>st_dirs := [[''h''], [''etc'']]\<rparr>\<rparr>)))) [''etc'', ''passwd''] = Some []"
  by code_simp

end
