(* ===== verification/Dispatch.thy ===== *)
theory Dispatch
  imports AppStorage AppCore AppRendezvous AppLobby AppBurrow AppFiles AppPair
begin

text \<open>
  \<open>src/app/mod.rs\<close>: \<open>handle\<close>, which dispatches an inbound message to the handler of its frame, and
  \<open>Client\<close>, whose pump matches replies to waiting calls and hands everything else to \<open>handle\<close>.

  The lemmas say which files of the node's home no message can touch, and under which condition on the
  names a peer chooses; without it a peer can name itself an operator. Then: what a pump does with a
  message, and that an id is answered once.
\<close>

section \<open>Dispatch\<close>

definition raw_text :: "env \<Rightarrow> message \<Rightarrow> bytes \<Rightarrow> string" where
  "raw_text E m b = ''message '' @ hex_encode (e_crates E) (m_id m) @ '' from '' @ finger E (m_sender m) @ '': '' @
     (case utf8_decode b of Some t \<Rightarrow> t
      | None \<Rightarrow> ''non-utf8 payload ('' @ show_nat (length (m_payload m)) @ '' bytes)'')"

definition handle :: "env \<Rightarrow> message \<Rightarrow> handler" where
  "handle E m n = (case frame_decode (k_app (e_codecs E)) (m_payload m) of
       AppRaw b \<Rightarrow> (n, Inr (Some (raw_text E m b)))
     | AppFiles f \<Rightarrow> handle_files E m f n
     | AppBurrow f \<Rightarrow> handle_burrow E m f n
     | AppStorage f \<Rightarrow> handle_storage E m f n
     | AppCore f \<Rightarrow> handle_core E m f n
     | AppRendezvous f \<Rightarrow> handle_rendezvous E m f n
     | AppPair f \<Rightarrow> handle_pair E m f n
     | AppLobby f \<Rightarrow> handle_lobby E m f n
     | AppChannel f \<Rightarrow> handle_channel E m f n)"

section \<open>The client\<close>

text \<open>The ids that callers wait for, and the answers they were given.\<close>

record client =
  cl_node :: node
  cl_waiting :: "bytes list"
  cl_answers :: "(bytes \<times> message) list"

text \<open>The first half of \<open>call\<close>; \<open>id\<close> is the fresh id of the request. The second half waits for the
  answer under that id.\<close>

definition client_call :: "env \<Rightarrow> bytes \<Rightarrow> public_identity \<Rightarrow> app_frame \<Rightarrow> (client, io_error, bytes) op" where
  "client_call E mid peer f c = (case bindR (frame_encode (k_app (e_codecs E)) f) (\<lambda>b.
         message_new (k_message (e_codecs E)) mid (node_public E (cl_node c)) peer b) of
       Inl e \<Rightarrow> (c, Inl e)
     | Inr m \<Rightarrow> (let c1 = c\<lparr>cl_waiting := mid # removeAll mid (cl_waiting c)\<rparr> in
         (case send_raw E m (cl_node c1) of
            (n, Inl e) \<Rightarrow> (c1\<lparr>cl_node := n\<rparr>, Inl e)
          | (n, Inr _) \<Rightarrow> (c1\<lparr>cl_node := n\<rparr>, Inr mid))))"

definition pump :: "env \<Rightarrow> message \<Rightarrow> client \<Rightarrow> client \<times> string option" where
  "pump E m c =
     (if m_id m \<in> set (cl_waiting c)
      then (c\<lparr>cl_waiting := removeAll (m_id m) (cl_waiting c), cl_answers := cl_answers c @ [(m_id m, m)]\<rparr>, None)
      else (case handle E m (cl_node c) of
          (n, Inr t) \<Rightarrow> (c\<lparr>cl_node := n\<rparr>, map_option (\<lambda>t. ''[neonet] '' @ t) t)
        | (n, Inl e) \<Rightarrow> (c\<lparr>cl_node := n\<rparr>, Some (''[neonet] error handling inbound message: '' @ io_display e))))"


section \<open>Files no message touches\<close>

text \<open>Apart from these, a file directly in the node's home is written by no handler.\<close>

definition peer_written :: "string list" where
  "peer_written = [''revocations.json'', ''revocations.tmp'', ''rendezvous.json'', ''rendezvous.tmp'', ''pair.json'',
     ''pair.tmp'', ''paired.json'', ''paired.tmp'', ''forked'']"

text \<open>The names a frame makes the node use are plain: its file ids, and the file name of the manifest
  under which a chunk arrives.\<close>

definition named_plainly :: "env \<Rightarrow> node \<Rightarrow> app_frame \<Rightarrow> bool" where
  "named_plainly E n g \<longleftrightarrow> (case g of
       AppFiles (FAnnounce fid m sender) \<Rightarrow> plain_name fid
     | AppFiles (FChunk fid c) \<Rightarrow> plain_name fid \<and>
         (case load_received_manifest (k_manifest (e_codecs E)) (n_home n) fid (n_store n) of
            Inr m \<Rightarrow> plain_name (fm_name m) | Inl _ \<Rightarrow> True)
     | AppStorage (StoreChunks fid m cs) \<Rightarrow> plain_name fid
     | _ \<Rightarrow> True)"

lemma preserves_map_err: "preserves R m \<Longrightarrow> preserves R (map_errS g m)"
  using map_errS_state by (fastforce simp: preserves_def)

lemma on_store_keeps:
  assumes "preserves (same_file q) m" and "on_store m n = (n', r)"
  shows "same_file q (n_store n) (n_store n') \<and> n_home n' = n_home n"
  using assms by (cases "m (n_store n)") (auto simp: on_store_def dest: preservesD)

lemma append_log_keeps:
  assumes "q \<noteq> path_join dir name"
  shows "preserves (same_file q) (append_log now dir name sender t)"
  unfolding append_log_def using assms
  by (intro same_file_rules preservesI [of "fs_open_append _"])
    (auto simp: fs_open_append_def store_simps intro!: same_file_env split: if_splits option.splits)

lemma announce_keeps:
  assumes "plain_name fid"
  shows "preserves (same_file (home @ [x])) (accept_announce E home fid m)"
proof -
  have "preserves (same_file (home @ [x])) (write_received_manifest MC home fid m)" for MC
    using assms by (intro preservesI)
      (auto simp: write_received_manifest_def transfer_dir_def transfers_dir_def path_join_plain
        intro: same_file_save_under)
  then show ?thesis unfolding accept_announce_def by (intro same_file_rules)
qed

lemma chunk_keeps:
  assumes "receive_chunk C MC SC home fid c s = (s', r)" and "plain_name fid"
    and "\<And>m. load_received_manifest MC home fid s = Inr m \<Longrightarrow> plain_name (fm_name m)"
  shows "same_file (home @ [x]) s s'"
proof (cases "load_received_manifest MC home fid s")
  case (Inl e)
  then show ?thesis using assms(1) by (simp add: receive_chunk_def Let_def bindS_def)
next
  case (Inr m)
  let ?q = "home @ [x]"
  have dir: "transfer_dir home fid = home @ [''incoming'', fid]"
    using assms(2) by (simp add: transfer_dir_def transfers_dir_def path_join_plain)
  note paths = dir cache_paths
  have st: "chunk_stored C home fid m c s t \<Longrightarrow> same_file ?q s t" for t
    by (simp add: chunk_stored_def paths)
  have sv: "save_transfer_state SC home fid t s1 = (s2, y) \<Longrightarrow> same_file ?q s1 s2" for t s1 s2 y
    by (auto simp: paths intro: same_file_save_state)
  have fin: "finish_transfer C (transfer_dir home fid) m t s1 = (s2, y) \<Longrightarrow> same_file ?q s1 s2" for t s1 s2 y
    using assms(3) [OF Inr] by (auto simp: paths path_join_plain intro: same_file_finish)
  from assms(1) Inr show ?thesis
  proof (cases rule: receive_chunk_cases)
    case (refused e)
    then show ?thesis by (simp add: paths)
  next
    case (again t)
    then show ?thesis using st by simp
  next
    case (unsaved s2 t e)
    from same_file_trans [OF st [OF unsaved(1)] sv [OF unsaved(5)]] show ?thesis .
  next
    case (saved s2 t s3)
    from same_file_trans [OF st [OF saved(1)] same_file_trans [OF sv [OF saved(4)] fin [OF saved(5)]]]
    show ?thesis .
  qed
qed

text \<open>Each handler in turn.\<close>

definition keeps :: "string \<Rightarrow> node \<Rightarrow> node \<Rightarrow> bool" where
  "keeps x n n' \<longleftrightarrow> same_file (n_home n @ [x]) (n_store n) (n_store n') \<and> n_home n' = n_home n"

lemma keeps_same: "n_store n' = n_store n \<Longrightarrow> n_home n' = n_home n \<Longrightarrow> keeps x n n'"
  by (simp add: keeps_def)

lemma keeps_reply: "reply_then E req g h n1 = (n', r) \<Longrightarrow> keeps x n n1 \<Longrightarrow> keeps x n n'"
  by (auto simp: keeps_def dest: reply_thenD)

lemma keeps_reply_self: "reply_then E req g h n = (n', r) \<Longrightarrow> keeps x n n'"
  by (auto simp: keeps_def dest: reply_thenD)

lemma keeps_on_store:
  "on_store m n = (n', r) \<Longrightarrow> preserves (same_file (n_home n @ [x])) m \<Longrightarrow> keeps x n n'"
  unfolding keeps_def by (rule on_store_keeps)

lemma keeps_refl [simp]: "keeps x n n"
  by (simp add: keeps_def)

lemma files_fail_keeps: "files_fail E req fid e n1 = (n', r) \<Longrightarrow> keeps x n n1 \<Longrightarrow> keeps x n n'"
  by (auto simp: files_fail_def intro: keeps_reply split: if_splits)

lemma files_keeps:
  assumes "handle_files E req f n = (n', r)" and "named_plainly E n (AppFiles f)"
  shows "keeps x n n'"
proof (cases f)
  case (FAnnounce fid m sender)
  obtain n1 y where a: "on_store (accept_announce E (n_home n) fid m) n = (n1, y)"
    by (cases "on_store (accept_announce E (n_home n) fid m) n")
  from assms(2) FAnnounce have "keeps x n n1"
    by (intro keeps_on_store [OF a] announce_keeps) (simp add: named_plainly_def)
  with assms(1) FAnnounce a show ?thesis
    by (cases y) (auto simp: handle_files_def intro: files_fail_keeps keeps_reply)
next
  case (FChunk fid c)
  let ?m = "receive_chunk (e_crates E) (k_manifest (e_codecs E)) (k_state (e_codecs E)) (n_home n) fid c"
  obtain s1 y where c: "?m (n_store n) = (s1, y)" by (cases "?m (n_store n)")
  have "same_file (n_home n @ [x]) (n_store n) s1"
    using assms(2) FChunk by (intro chunk_keeps [OF c]) (simp_all add: named_plainly_def)
  then have k: "keeps x n (n\<lparr>n_store := s1\<rparr>)" by (simp add: keeps_def)
  from assms(1) FChunk c show ?thesis
    by (auto simp: handle_files_def on_store_def k intro: files_fail_keeps [OF _ k] keeps_reply [OF _ k]
        split: sum.splits receive_status.splits bool.splits)
next
  case (FStatusRequest fid)
  with assms(1) show ?thesis
    by (auto simp: handle_files_def intro: files_fail_keeps keeps_reply split: sum.splits)
qed (use assms(1) in \<open>auto simp: handle_files_def\<close>)

lemma peer_docs_keep:
  assumes "x \<notin> set peer_written"
  shows "preserves (same_file (home @ [x])) (consume_token P now home token)"
    and "preserves (same_file (home @ [x])) (record_pairing C L now home i)"
    and "preserves (same_file (home @ [x])) (revoke_identity E home i)"
    and "preserves (same_file (home @ [x])) (rz_register E home i addr ttl)"
proof -
  have doc: "preserves (same_file (home @ [x])) (save_doc c (home @ [t]) (home @ [p]) v)"
    if "x \<noteq> t" "x \<noteq> p" "t \<noteq> p" for c t p and v :: 'v
    using that by (intro same_file_doc) simp_all
  have pend: "preserves (same_file (home @ [x])) (write_pending P home t)" for t
    unfolding write_pending_def pending_path_def using assms by (intro doc) (auto simp: peer_written_def)
  show "preserves (same_file (home @ [x])) (consume_token P now home token)"
    using pend by (auto simp: preserves_def consume_token_alt ret_def bindS_def
        split: option.splits if_splits prod.splits sum.splits)
  have led: "preserves (same_file (home @ [x])) (save_ledger L home v)" for v
    unfolding save_ledger_def ledger_path_def using assms by (intro doc) (auto simp: peer_written_def)
  show "preserves (same_file (home @ [x])) (record_pairing C L now home i)"
    using led by (auto simp: preserves_def record_pairing_def Let_def split: if_splits)
  show "preserves (same_file (home @ [x])) (revoke_identity E home i)"
    using assms by (intro preservesI) (auto simp: revoke_identity_def add_revoked_def write_revoked_def
      revocations_tmp revocations_path_def peer_written_def dest!: preservesD [OF doc, rotated -1])
  show "preserves (same_file (home @ [x])) (rz_register E home i addr ttl)"
    using assms by (intro preservesI) (auto simp: rz_register_def write_records_def Let_def
      records_tmp records_path_def peer_written_def dest!: preservesD [OF doc, rotated -1])
qed

lemma pair_keeps:
  assumes "handle_pair E req f n = (n', r)" and "x \<notin> set peer_written"
  shows "keeps x n n'"
proof (cases f)
  case (Redeem token)
  obtain n1 y where a: "on_store (consume_token (k_pending (e_codecs E)) (e_now E) (n_home n) token) n = (n1, y)"
    by (cases "on_store (consume_token (k_pending (e_codecs E)) (e_now E) (n_home n) token) n")
  have k: "keeps x n n1" by (rule keeps_on_store [OF a peer_docs_keep(1) [OF assms(2)]])
  show ?thesis
  proof (cases "y = Inr True")
    case True
    obtain n2 z where b: "on_store (record_pairing (e_crates E) (k_ledger (e_codecs E)) (e_now E) (n_home n1)
        (m_sender req)) n1 = (n2, z)" by fastforce
    have "keeps x n1 n2" by (rule keeps_on_store [OF b peer_docs_keep(2) [OF assms(2)]])
    with k have "keeps x n n2" by (auto simp: keeps_def intro: same_file_trans)
    with assms(1) Redeem a b True show ?thesis
      by (cases z) (auto simp: handle_pair_def bindS_def intro: keeps_reply)
  qed (use assms(1) Redeem a k in \<open>cases y, auto simp: handle_pair_def intro: keeps_reply split: bool.splits\<close>)
qed (use assms(1) in \<open>auto simp: handle_pair_def\<close>)

lemma log_keeps:
  "preserves (same_file (home @ [x])) (append_lobby now home name sender t)"
  "preserves (same_file (home @ [x])) (append_channel now home sender t)"
  unfolding append_lobby_def append_channel_def
  by (intro append_log_keeps, simp add: path_join_plain log_name_plain)+

lemma channel_keeps:
  assumes "handle_channel E req f n = (n', r)"
  shows "keeps x n n'"
proof (cases f)
  case (ChSend t)
  obtain n1 y where a: "on_store (append_channel (e_now E) (n_home n) (finger E (m_sender req)) t) n = (n1, y)"
    by fastforce
  have k: "keeps x n n1" by (rule keeps_on_store [OF a log_keeps(2)])
  show ?thesis using assms ChSend a k
    by (cases y) (auto simp: handle_channel_def bindS_def intro: keeps_reply)
qed (use assms in \<open>auto simp: handle_channel_def\<close>)

lemma relay_post_keeps:
  assumes "relay_post E req name nonce ct t ms n = (n', r)"
  shows "keeps x n n'"
proof -
  obtain n1 y where a: "on_store (append_lobby (e_now E) (n_home n) name (finger E (m_sender req)) t) n = (n1, y)"
    by fastforce
  have k: "keeps x n n1" by (rule keeps_on_store [OF a log_keeps(1)])
  have rel: "relay_all E p i is n1 = (n2, c) \<Longrightarrow> keeps x n n2" for p i "is" n2 c
    using relay_all_frame(2,3) k by (fastforce simp: keeps_def)
  show ?thesis using assms a k
    by (cases y) (auto simp: relay_post_def bindS_def lift_result_def intro: keeps_reply rel
        split: sum.splits prod.splits)
qed

lemma lobby_keeps:
  assumes "handle_lobby E req f n = (n', r)"
  shows "keeps x n n'"
proof -
  have ref: "refuse E req msg n = (n', r) \<Longrightarrow> keeps x n n'" for msg
    by (auto simp: refuse_def intro: keeps_reply)
  have host: "keeps x n (put_host name st n)" for name st by (simp add: keeps_def put_host_def)
  show ?thesis
  proof (cases f)
    case (Join name key)
    then show ?thesis using assms ref keeps_reply [OF _ host]
      by (auto simp: handle_lobby_def split: join_decision.splits)
  next
    case (Post name key nonce ct)
    then show ?thesis using assms ref relay_post_keeps
      by (auto simp: handle_lobby_def split: option.splits if_splits sum.splits)
  next
    case (Relay name nonce ct)
    have log: "bindS (on_store (append_lobby (e_now E) (n_home n) name s t)) (\<lambda>_. ret h) n = (n', r) \<Longrightarrow> keeps x n n'"
      for s t and h :: handling
      by (auto elim!: bindS_cases simp: ret_def intro: keeps_on_store [OF _ log_keeps(1)])
    show ?thesis using assms Relay log
      by (auto simp: handle_lobby_def Let_def split: option.splits if_splits sum.splits)
  next
    case (Leave name)
    then show ?thesis using assms keeps_reply [OF _ host] keeps_reply_self
      by (auto simp: handle_lobby_def split: option.splits)
  qed (use assms in \<open>auto simp: handle_lobby_def intro: keeps_reply\<close>)
qed

lemma core_keeps:
  assumes "handle_core E req f n = (n', r)" and "hex_text (e_crates E)" and "x \<notin> set peer_written"
  shows "keeps x n n'"
  using assms(1)
proof (cases rule: handle_core_cases)
  case (2 h b y)
  from preservesD [OF take_chunk_keeps [OF assms(2)] 2(1)] 2(2) show ?thesis by (simp add: keeps_def)
next
  case (3 i y)
  from preservesD [OF peer_docs_keep(3) [OF assms(3)] 3(1)] 3(2) show ?thesis by (simp add: keeps_def)
qed (simp add: keeps_same)

lemma rendezvous_keeps:
  assumes "handle_rendezvous E req f n = (n', r)" and "x \<notin> set peer_written"
  shows "keeps x n n'"
  using assms(1)
proof (cases rule: handle_rendezvous_cases)
  case (2 addr ttl sig y)
  from preservesD [OF peer_docs_keep(4) [OF assms(2)] 2(3)] 2(4) show ?thesis by (simp add: keeps_def)
qed (simp add: keeps_same)

lemma storage_keeps:
  assumes "handle_storage E req f n = (n', r)" and "hex_names (e_crates E)"
    and "named_plainly E n (AppStorage f)"
  shows "keeps x n n'"
  using assms(1)
proof (cases rule: handle_storage_cases)
  case (2 fid m cs y)
  from assms(3) 2(1) have "plain_name fid" by (simp add: named_plainly_def)
  then have "preserves (same_file (n_home n @ [x])) (store_chunks E (n_home n) (m_sender req) fid m cs)"
    by (intro same_file_store assms(2)) (simp add: blob_dir_plain)
  from preservesD [OF this 2(3)] 2(2) show ?thesis by (simp add: keeps_def)
qed (simp add: keeps_same)

lemma burrow_keeps:
  assumes "handle_burrow E req f n = (n', r)" and "x \<notin> set peer_written"
  shows "keeps x n n'"
proof -
  have "\<not> prefix (fork_root n) (n_home n @ [x])"
    using assms(2) by (auto simp: fork_root_def peer_written_def)
  then have "same_file (n_home n @ [x]) (n_store n) (n_store n')"
    using handle_burrow_store [OF assms(1)] fork_share_same preservesD by fastforce
  moreover have "n_home n' = n_home n"
  proof (cases f)
    case (BFork p)
    then show ?thesis using assms(1) by (auto simp: handle_burrow_def on_store_def dest!: reply_thenD split: prod.splits sum.splits)
  next
    case (BForkResult p ok e)
    then show ?thesis using assms(1) by (cases ok) (auto simp: handle_burrow_def)
  qed (use assms(1) in \<open>auto simp: handle_burrow_def split: sum.splits dest: reply_thenD\<close>)
  ultimately show ?thesis by (simp add: keeps_def)
qed

lemma handle_keeps:
  assumes "handle E m n = (n', r)" and "hex_text (e_crates E)" and "hex_names (e_crates E)"
    and "named_plainly E n (frame_decode (k_app (e_codecs E)) (m_payload m))" and y: "y \<notin> set peer_written"
  shows "keeps y n n'"
proof (cases "frame_decode (k_app (e_codecs E)) (m_payload m)")
  case (AppRaw b)
  then show ?thesis using assms(1) by (simp add: handle_def)
next
  case (AppFiles f)
  then show ?thesis using assms(1,4) files_keeps by (simp add: handle_def)
next
  case (AppBurrow f)
  then show ?thesis using assms(1) y burrow_keeps by (simp add: handle_def)
next
  case (AppStorage f)
  then show ?thesis using assms(1,3,4) storage_keeps by (simp add: handle_def)
next
  case (AppCore f)
  then show ?thesis using assms(1,2) y core_keeps by (simp add: handle_def)
next
  case (AppRendezvous f)
  then show ?thesis using assms(1) y rendezvous_keeps by (simp add: handle_def)
next
  case (AppPair f)
  then show ?thesis using assms(1) y pair_keeps by (simp add: handle_def)
next
  case (AppLobby f)
  then show ?thesis using assms(1) lobby_keeps by (simp add: handle_def)
next
  case (AppChannel f)
  then show ?thesis using assms(1) channel_keeps by (simp add: handle_def)
qed

text \<open>C2: what no message can touch. Whatever message a node handles, of whatever application, as long
  as the names the peer chose are plain, every file directly in the node's home outside a short
  list of files that handlers write (revocations, presence records, pairing, forks) is as before and
  readable as before: the identity, the pins, the devices, the operators. In particular nobody becomes
  or stops being an operator by sending messages.\<close>

theorem private_files_untouched:
  assumes "handle E m n = (n', r)" and "hex_text (e_crates E)" and "hex_names (e_crates E)"
    and "named_plainly E n (frame_decode (k_app (e_codecs E)) (m_payload m))" and "x \<notin> set peer_written"
  shows "same_file (n_home n @ [x]) (n_store n) (n_store n') \<and> n_home n' = n_home n
    \<and> operators E (n_home n) (n_store n') = operators E (n_home n) (n_store n)"
proof -
  note keep = handle_keeps [OF assms(1-4)]
  from keep [of "''operators.json''"]
  have "same_file (operators_path (n_home n)) (n_store n) (n_store n')"
    by (simp add: keeps_def operators_path_def peer_written_def)
  then have "operators E (n_home n) (n_store n') = operators E (n_home n) (n_store n)"
    unfolding operators_def by (rule load_doc_same)
  with keep [OF assms(5)] show ?thesis by (simp add: keeps_def)
qed


section \<open>Names that are not plain\<close>

text \<open>A one-chunk file called \<open>../../operators.json\<close>, offered and sent by a device nobody trusts. Its content
  is the operators document that names that device.\<close>

definition intruder :: public_identity where "intruder = \<lparr>public_key = [66]\<rparr>"

definition intruder_manifest :: file_manifest where
  "intruder_manifest = \<lparr>fm_version = 1, fm_name = ''../../operators.json'', fm_total_size = 2, fm_chunk_size = 2,
     fm_chunks = [[1, 0]], fm_signer = intruder, fm_signature = [66]\<rparr>"

definition intruder_frames :: "app_frame list" where
  "intruder_frames = [AppFiles (FAnnounce ''t'' intruder_manifest ''B''),
     AppFiles (FChunk ''t'' \<lparr>ck_index = 0, ck_hash = [1, 0], ck_data = [1, 0]\<rparr>)]"

definition dispatch_env :: env where
  "dispatch_env = core_env\<lparr>e_codecs := (e_codecs core_env)\<lparr>k_app := table_codec intruder_frames,
     k_manifest := table_codec [intruder_manifest\<lparr>fm_signature := replicate 64 0\<rparr>, intruder_manifest],
     k_state := table_codec [\<lparr>ts_manifest = intruder_manifest, ts_verified = [0], ts_lost = []\<rparr>]\<rparr>\<rparr>"

definition intruder_message :: "nat \<Rightarrow> message" where
  "intruder_message k = (demo_request intruder)\<lparr>m_payload := replicate k 1\<rparr>"

definition idle_node :: node where
  "idle_node = demo_node (fresh_store [''h''])"

definition announced_node :: node where
  "announced_node = fst (handle dispatch_env (intruder_message 0) idle_node)"

text \<open>What the two frames do to the store.\<close>

lemma files_fail_store: "n_store (fst (files_fail E req fid e n)) = n_store n"
  by (simp add: files_fail_def handler_defs)

lemma announce_store:
  assumes "frame_decode (k_app (e_codecs E)) (m_payload req) = AppFiles (FAnnounce fid m sender)"
  shows "n_store (fst (handle E req n)) = fst (accept_announce E (n_home n) fid m (n_store n))"
  using assms by (auto simp: handle_def handle_files_def on_store_def handler_defs files_fail_store split: prod.splits sum.splits)

lemma chunk_store:
  assumes "frame_decode (k_app (e_codecs E)) (m_payload req) = AppFiles (FChunk fid c)"
  shows "n_store (fst (handle E req n)) = fst (receive_chunk (e_crates E) (k_manifest (e_codecs E))
    (k_state (e_codecs E)) (n_home n) fid c (n_store n))"
  using assms by (auto simp: handle_def handle_files_def on_store_def handler_defs files_fail_store
      split: prod.splits sum.splits receive_status.splits bool.splits)

definition intruder_store :: store where
  "intruder_store = fst (accept_announce dispatch_env [''h''] ''t'' intruder_manifest (fresh_store [''h'']))"

lemma intruder_decodes:
  "frame_decode (k_app (e_codecs dispatch_env)) (m_payload (intruder_message 0)) = AppFiles (FAnnounce ''t'' intruder_manifest ''B'')"
  "frame_decode (k_app (e_codecs dispatch_env)) (m_payload (intruder_message 1)) =
     AppFiles (FChunk ''t'' \<lparr>ck_index = 0, ck_hash = [1, 0], ck_data = [1, 0]\<rparr>)"
  by (simp_all add: frame_decode_def dispatch_env_def table_codec_def intruder_message_def intruder_frames_def)

lemma announced_store: "n_store announced_node = intruder_store"
  unfolding announced_node_def announce_store [OF intruder_decodes(1)]
  by (simp add: intruder_store_def idle_node_def)

lemma announced_home: "n_home announced_node = [''h'']"
  by (simp add: announced_node_def handle_def intruder_decodes(1) handle_files_def idle_node_def on_store_def
      handler_defs files_fail_def split: prod.split sum.split)

definition overwritten_store :: store where
  "overwritten_store = fst (receive_chunk (e_crates dispatch_env) (k_manifest (e_codecs dispatch_env))
     (k_state (e_codecs dispatch_env)) [''h''] ''t'' \<lparr>ck_index = 0, ck_hash = [1, 0], ck_data = [1, 0]\<rparr> intruder_store)"

lemma overwritten:
  "n_store (fst (handle dispatch_env (intruder_message 1) announced_node)) = overwritten_store"
  unfolding chunk_store [OF intruder_decodes(2)] by (simp add: overwritten_store_def announced_store announced_home)

lemma any_peer_becomes_operator:
  "operators dispatch_env [''h''] (n_store idle_node) = {}
   \<and> operators dispatch_env [''h''] (n_store (fst (handle dispatch_env (intruder_message 1) announced_node)))
     = {finger dispatch_env intruder}"
proof
  show "operators dispatch_env [''h''] (n_store idle_node) = {}" by code_simp
  have "file_at overwritten_store [''h'', ''operators.json''] = Some [1, 0]" by code_simp
  moreover have "\<not> st_rfault overwritten_store [''h'', ''operators.json'']" by code_simp
  moreover have "dec (fingerprints dispatch_env) [1, 0] = Some {''a42''}"
    by (simp add: fingerprints_def dispatch_env_def core_env_def line_codec_def demo_app_codecs_def)
  moreover have "finger dispatch_env intruder = ''a42''" by code_simp
  moreover have "\<not> is_dir overwritten_store [''h'', ''operators.json'']" by code_simp
  ultimately show "operators dispatch_env [''h'']
      (n_store (fst (handle dispatch_env (intruder_message 1) announced_node))) = {finger dispatch_env intruder}"
    unfolding overwritten by (simp add: operators_def load_doc_def operators_path_def fs_read_def ok_or_def)
qed

text \<open>The announcement alone, under the same plain id, is covered by the theorem.\<close>

lemma private_files_untouched_witness:
  "same_file [''h'', ''identity.key''] (n_store idle_node) (n_store announced_node)
   \<and> file_at (n_store announced_node) [''h'', ''incoming'', ''t'', ''manifest.json''] = Some [1]"
proof
  let ?p = "handle dispatch_env (intruder_message 0) idle_node"
  have e: "e_crates dispatch_env = hex_crates" by (simp add: dispatch_env_def core_env_simps)
  have fr: "frame_decode (k_app (e_codecs dispatch_env)) (m_payload (intruder_message 0)) = intruder_frames ! 0"
    by code_simp
  have "named_plainly dispatch_env idle_node (intruder_frames ! 0)"
    by (simp add: named_plainly_def intruder_frames_def plain_name_def)
  then have nm: "named_plainly dispatch_env idle_node
      (frame_decode (k_app (e_codecs dispatch_env)) (m_payload (intruder_message 0)))" by (simp only: fr)
  have r: "?p = (announced_node, snd ?p)" by (simp add: announced_node_def)
  have x: "''identity.key'' \<notin> set peer_written" by (simp add: peer_written_def)
  have h: "n_home idle_node = [''h'']" by (simp add: idle_node_def)
  from private_files_untouched [OF r _ _ nm x] show "same_file [''h'', ''identity.key''] (n_store idle_node) (n_store announced_node)"
    by (simp add: e h hex_crates_text hex_crates_names)
  show "file_at (n_store announced_node) [''h'', ''incoming'', ''t'', ''manifest.json''] = Some [1]"
    unfolding announced_store by code_simp
qed

section \<open>Calls and their answers\<close>

datatype client_event = Call bytes public_identity app_frame | Arrival message

fun client_step :: "env \<Rightarrow> client_event \<Rightarrow> client \<Rightarrow> client" where
  "client_step E (Call mid peer f) c = fst (client_call E mid peer f c)"
| "client_step E (Arrival m) c = fst (pump E m c)"

definition client_run :: "env \<Rightarrow> client_event list \<Rightarrow> node \<Rightarrow> client" where
  "client_run E es n = fold (client_step E) es \<lparr>cl_node = n, cl_waiting = [], cl_answers = []\<rparr>"

fun call_ids :: "client_event list \<Rightarrow> bytes list" where
  "call_ids [] = []"
| "call_ids (Call mid _ _ # es) = mid # call_ids es"
| "call_ids (Arrival _ # es) = call_ids es"

lemma call_ids_append: "call_ids (es @ es') = call_ids es @ call_ids es'"
  by (induction es rule: call_ids.induct) simp_all

definition answers_ok :: "client_event list \<Rightarrow> client \<Rightarrow> bool" where
  "answers_ok es c \<longleftrightarrow> distinct (map fst (cl_answers c)) \<and> set (cl_waiting c) \<subseteq> set (call_ids es)
     \<and> set (cl_waiting c) \<inter> fst ` set (cl_answers c) = {}
     \<and> (\<forall>(i, m) \<in> set (cl_answers c). m_id m = i \<and> Arrival m \<in> set es \<and> i \<in> set (call_ids es))"

lemma client_step_ok:
  assumes "answers_ok es c" and "distinct (call_ids (es @ [e]))"
  shows "answers_ok (es @ [e]) (client_step E e c)"
proof (cases e)
  case (Call mid peer f)
  have "cl_answers (client_step E e c) = cl_answers c \<and>
      (cl_waiting (client_step E e c) = cl_waiting c \<or> cl_waiting (client_step E e c) = mid # removeAll mid (cl_waiting c))"
    using Call by (auto simp: client_call_def Let_def split: sum.splits prod.splits)
  moreover have "mid \<notin> set (call_ids es)" using assms(2) Call by (simp add: call_ids_append)
  ultimately show ?thesis using assms(1) Call by (fastforce simp: answers_ok_def call_ids_append)
next
  case (Arrival m)
  show ?thesis
  proof (cases "m_id m \<in> set (cl_waiting c)")
    case True
    then show ?thesis using assms(1) Arrival by (auto simp: answers_ok_def call_ids_append pump_def)
  next
    case False
    then have "cl_answers (client_step E e c) = cl_answers c \<and> cl_waiting (client_step E e c) = cl_waiting c"
      using Arrival by (auto simp: pump_def split: prod.splits sum.splits)
    then show ?thesis using assms(1) Arrival by (fastforce simp: answers_ok_def call_ids_append)
  qed
qed

text \<open>C30: every call is answered at most once. With a fresh id for every call, whatever messages arrive and
  in whatever order, no id is answered twice, each answer is a message that arrived and carries the
  id of a call made before, and a call that was answered is no longer waiting.\<close>

theorem calls_answered_once:
  assumes "distinct (call_ids es)" and "client_run E es n = c"
  shows "distinct (map fst (cl_answers c)) \<and> set (cl_waiting c) \<inter> fst ` set (cl_answers c) = {}
    \<and> (\<forall>(i, m) \<in> set (cl_answers c). m_id m = i \<and> Arrival m \<in> set es \<and> i \<in> set (call_ids es))"
proof -
  have "distinct (call_ids es) \<Longrightarrow> answers_ok es (client_run E es n)"
  proof (induction es rule: rev_induct)
    case Nil
    then show ?case by (simp add: client_run_def answers_ok_def)
  next
    case (snoc e es)
    then have "answers_ok es (client_run E es n)" by (simp add: call_ids_append)
    from client_step_ok [OF this snoc.prems] show ?case by (simp add: client_run_def)
  qed
  with assms show ?thesis by (simp add: answers_ok_def)
qed

text \<open>The answer need not come from the peer that was asked.\<close>

definition asked_env :: env where
  "asked_env = dispatch_env\<lparr>e_codecs := (e_codecs dispatch_env)\<lparr>k_message := raw_message\<rparr>\<rparr>"

lemma calls_answered_once_witness:
  "let c = client_run asked_env [Call [1] \<lparr>public_key = [7]\<rparr> (intruder_frames ! 0), Arrival (intruder_message 1)] idle_node
   in cl_answers c = [([1], intruder_message 1)] \<and> m_sender (intruder_message 1) \<noteq> \<lparr>public_key = [7]\<rparr>
     \<and> distinct (map fst (cl_answers c))"
proof -
  let ?es = "[Call [1] \<lparr>public_key = [7]\<rparr> (intruder_frames ! 0), Arrival (intruder_message 1)]"
  let ?c = "client_run asked_env ?es idle_node"
  have "enc (k_app (e_codecs asked_env)) (intruder_frames ! 0) = Some []"
    by (simp add: asked_env_def dispatch_env_def table_codec_def intruder_frames_def)
  then have "cl_answers ?c = [([1], intruder_message 1)]"
    by (simp add: client_run_def client_call_def frame_encode_def ok_or_def message_new_def validate_size_def asked_env_def
        raw_message_def MAX_MESSAGE_SIZE_def send_raw_def pump_def intruder_message_def demo_request_def bind_simps Let_def)
  moreover have "m_sender (intruder_message 1) \<noteq> \<lparr>public_key = [7]\<rparr>" by code_simp
  moreover have "distinct (map fst (cl_answers ?c))"
    using calls_answered_once [of ?es asked_env idle_node ?c] by simp
  ultimately show ?thesis by (simp only: Let_def simp_thms)
qed

end
