(* ===== verification/Serve.thy ===== *)
theory Serve
  imports Commands Dispatch NodeNet Flasher Ssh
begin

text \<open>
  The rest of \<open>run\<close> in \<open>src/main.rs\<close>: the commands that need no mesh client, sending a file, and the
  commands that end in a loop over the node's inbox (\<open>core\<close>, \<open>serve\<close>, \<open>edge\<close>, \<open>host\<close>, \<open>pair\<close>). The sockets are
  those of \<open>NodeNet\<close>; here the loop is a function of the messages that reach the node.
\<close>

section \<open>Commands without a mesh\<close>

definition SOFTWARE_VERSION :: string where "SOFTWARE_VERSION = ''0.1.0''"

definition cmd_whoami :: "'w seat \<Rightarrow> ('w, unit) cmd" where
  "cmd_whoami S = (let i = public_of (seat_crates S) (se_identity S) in
     say_all [''NeoNet '' @ SOFTWARE_VERSION, ''identity fingerprint: '' @ seat_finger S i,
       ''public key: '' @ hex_encode (seat_crates S) (public_key i),
       ''identity key: /'' @ join_with ''/'' (key_path (se_identity S))])"

definition device_rows :: "'w seat \<Rightarrow> resolution_directory \<Rightarrow> string list" where
  "device_rows S ds = (if ds = [] then [''No devices configured yet.'']
     else map (\<lambda>(alias, fp). alias @ [CHR 0x09] @ fp) (devices (seat_crates S) ds))"

definition cmd_devices :: "'w seat \<Rightarrow> ('w, unit) cmd" where
  "cmd_devices S = bindS (from_store (read_devices (se_devices S) (se_root S))) (\<lambda>ds. say_all (device_rows S ds))"

text \<open>\<open>ssh\<close> runs the program and yields its exit code, if it has one; it belongs to the world.\<close>

type_synonym 'w runner = "string list \<Rightarrow> ('w, io_error, nat option) op"

definition cmd_nsh :: "'w runner \<Rightarrow> 'w seat \<Rightarrow> string \<Rightarrow> string list \<Rightarrow> ('w, nat option) cmd" where
  "cmd_nsh ssh S dev cmd =
     bindS (from_store (read_devices (se_devices S) (se_root S))) (\<lambda>ds.
     bindS (lift_result (map_err (\<lambda>e. [''could not resolve or run a session to '' @ dev, err_text e])
         (connect (seat_crates S) ds dev cmd))) (\<lambda>args.
       on_mesh (context_of (''could not resolve or run a session to '' @ dev) (ssh args))))"

definition cmd_connect :: "'w runner \<Rightarrow> 'w seat \<Rightarrow> string \<Rightarrow> ('w, unit) cmd" where
  "cmd_connect ssh S dev = bindS (cmd_nsh ssh S dev []) (\<lambda>_. ret ())"

section \<open>Sending a file\<close>

text \<open>What is said of the receiver's last state; nothing when it recorded lost chunks.\<close>

definition sent_text :: "string \<Rightarrow> string \<Rightarrow> transfer_state \<Rightarrow> string option" where
  "sent_text fname dev t =
     (let share = show_nat (length (ts_verified t)) @ '' of '' @ show_nat (length (fm_chunks (ts_manifest t))) @ '' chunks verified'' in
      if ts_complete t then Some (''sent '' @ fname @ '' to '' @ dev @ '': '' @ share)
      else if ts_lost t = [] then Some (''partially sent '' @ fname @ '' to '' @ dev @ '': '' @ share)
      else None)"

text \<open>\<open>None\<close>: out of fuel. \<open>late\<close> says when the two minutes are over.\<close>

definition send_to ::
    "nat \<Rightarrow> (nat \<Rightarrow> bool) \<Rightarrow> 'w push \<Rightarrow> 'w seat \<Rightarrow> public_identity \<Rightarrow> path \<Rightarrow> 'w desk \<Rightarrow>
     ('w desk \<times> (chain + transfer_state)) option" where
  "send_to fuel late tell S peer p d =
     map_option (\<lambda>(w, r). (d\<lparr>dk_world := w\<rparr>, map_err (\<lambda>e. [err_text e]) r))
       (let r = file_reading p (dk_store d) in
        send_file_and_wait fuel late (se_env S) (se_identity S) (if p = [] then None else Some (last p)) r r
          (ask (se_mesh S) peer) tell (dk_world d))"

definition cmd_send ::
    "nat \<Rightarrow> (nat \<Rightarrow> bool) \<Rightarrow> (public_identity \<Rightarrow> 'w push) \<Rightarrow> 'w seat \<Rightarrow> string \<Rightarrow> string \<Rightarrow> path option \<Rightarrow> 'w desk \<Rightarrow>
     ('w desk \<times> (chain + unit)) option" where
  "cmd_send fuel late tell S dev name boot d =
     (let p = path_join (se_cwd S) name in
      if \<not> fs_exists (dk_store d) p then Some (d, Inl [''file not found: '' @ name])
      else (case mesh_client S dev boot d of
          (d1, Inl e) \<Rightarrow> Some (d1, Inl e)
        | (d1, Inr peer) \<Rightarrow> map_option (\<lambda>(d2, r). bindS (lift_result r)
              (\<lambda>t. case sent_text name dev t of Some x \<Rightarrow> say x | None \<Rightarrow> ret ()) d2)
            (send_to fuel late (tell peer) S peer p d1)))"

section \<open>The flasher's commands\<close>

definition cmd_ensure :: "build_tool \<Rightarrow> host \<Rightarrow> 'w seat \<Rightarrow> path option \<Rightarrow> ('w, unit) cmd" where
  "cmd_ensure cargo h S dir = bindS (on_files (anyhow (ensure cargo h
     (Some (case dir of Some p \<Rightarrow> p | None \<Rightarrow> se_cwd S))))) say"

definition cmd_author :: "flashed_bundle codec \<Rightarrow> bytes \<Rightarrow> 'w seat \<Rightarrow> path \<Rightarrow> ('w, unit) cmd" where
  "cmd_author B raw S dir = bindS (on_files (anyhow (flash_author (seat_crates S) (k_pending (e_codecs (se_env S))) B raw
       (e_now (se_env S)) (se_root S) dir (se_identity S)))) (\<lambda>b.
     say_all [''flashed '' @ BUNDLE_FILE @ '' bundle into /'' @ join_with ''/'' (dir @ [BUNDLE_FILE]),
       ''source: '' @ fs_fingerprint (fb_source b) @ '' (alias '' @ fs_alias (fb_source b) @ '')''])"

definition ascii_lower :: "string \<Rightarrow> string" where
  "ascii_lower s = map (\<lambda>c. let n = (of_char c :: nat) in if 65 \<le> n \<and> n \<le> 90 then char_of (n + 32) else c) s"

text \<open>\<open>answer\<close> is what reading a line from the terminal gives.\<close>

definition confirm_by :: "bool \<Rightarrow> io_error + string \<Rightarrow> flashed_source \<Rightarrow> io_error + bool" where
  "confirm_by yes answer src = (if yes then Inr True
     else bindR answer (\<lambda>l. let a = ascii_lower (trim_matches is_whitespace l) in Inr (a = ''y'' \<or> a = ''yes'')))"

definition cmd_adopt ::
    "flashed_bundle codec \<Rightarrow> 'w seat \<Rightarrow> path \<Rightarrow> bool \<Rightarrow> io_error + string \<Rightarrow> ('w, unit) cmd" where
  "cmd_adopt B S dir yes answer = bindS (on_files (anyhow (adopt (seat_crates S) (k_ledger (e_codecs (se_env S))) B
       (se_devices S) (e_now (se_env S)) (se_root S) dir (confirm_by yes answer)))) (\<lambda>y.
     say (if as_trusted y then ''paired & trusted '' @ fs_alias (as_source y) @ '' ('' @ fs_fingerprint (as_source y) @ '')''
       else ''skipped -- no trust recorded''))"

section \<open>Serving\<close>

definition failed_text :: "env \<Rightarrow> message \<Rightarrow> io_error \<Rightarrow> string" where
  "failed_text E m e = ''[neonet] message '' @ hex_encode (e_crates E) (m_id m) @ '' from '' @ finger E (m_sender m)
     @ '' failed to handle: '' @ io_display e"

definition dispatch_message :: "env \<Rightarrow> message \<Rightarrow> node \<Rightarrow> node \<times> string list" where
  "dispatch_message E m n = (case handle E m n of
       (n', Inr None) \<Rightarrow> (n', [])
     | (n', Inr (Some t)) \<Rightarrow> (n', [t])
     | (n', Inl e) \<Rightarrow> (n', [failed_text E m e]))"

text \<open>The inbox loop, over the messages with the times they are handled at.\<close>

fun serve_inbox :: "env \<Rightarrow> (u64 \<times> message) list \<Rightarrow> node \<Rightarrow> node \<times> string list" where
  "serve_inbox E [] n = (n, [])"
| "serve_inbox E ((t, m) # ms) n = (case dispatch_message (at_time E t) m n of (n1, ls) \<Rightarrow>
     (case serve_inbox E ms n1 of (n2, ls') \<Rightarrow> (n2, ls @ ls')))"

definition run_server :: "env \<Rightarrow> string \<Rightarrow> (u64 \<times> message) list \<Rightarrow> node \<Rightarrow> node \<times> string list" where
  "run_server E addr ms n = (case serve_inbox E ms n of (n', ls) \<Rightarrow>
     (n', [''NeoNet listening on '' @ addr, ''identity fingerprint: '' @ finger E (node_public E n),
        ''public key: '' @ hex_encode (e_crates E) (public_key (node_public E n))] @ ls))"

definition run_edge :: "env \<Rightarrow> bootstrap_entry list \<Rightarrow> (u64 \<times> message) list \<Rightarrow> node \<Rightarrow> node \<times> string list" where
  "run_edge E es ms n = (case serve_inbox E ms n of (n', ls) \<Rightarrow>
     (n', [''NeoNet edge identity: '' @ finger E (node_public E n),
        ''connecting to '' @ show_nat (length es) @ '' configured core node(s)...''] @ ls))"

section \<open>The commands that serve\<close>

text \<open>\<open>Node::new\<close>: a node whose home is the directory of the key file.\<close>

definition open_node :: "'w seat \<Rightarrow> ('w, node) cmd" where
  "open_node S = (let home = default_node_home (se_identity S) in
     bindS (on_files (context_of ''could not initialize node'' (fs_mkdirs home))) (\<lambda>_ d.
       (d, Inr \<lparr>n_identity = se_identity S, n_home = home, n_store = dk_store d, n_outbox = [], n_hosts = []\<rparr>)))"

definition read_bootstrap :: "'w seat \<Rightarrow> path \<Rightarrow> ('w, bootstrap_entry list) cmd" where
  "read_bootstrap S p = from_store (\<lambda>s. map_err (\<lambda>_. [''could not load bootstrap file''])
     (load_bootstrap (seat_crates S) (se_bootstrap S) p s))"

definition cmd_core :: "string list codec \<Rightarrow> 'w seat \<Rightarrow> path option \<Rightarrow> ('w, node \<times> allow_list) cmd" where
  "cmd_core J S allow_file = bindS (from_store (load_allow_list (seat_crates S) J allow_file)) (\<lambda>al.
     bindS (open_node S) (\<lambda>n. ret (n, al)))"

definition cmd_edge :: "'w seat \<Rightarrow> path \<Rightarrow> ('w, node \<times> bootstrap_entry list) cmd" where
  "cmd_edge S p = bindS (read_bootstrap S p) (\<lambda>es. bindS (open_node S) (\<lambda>n. ret (n, es)))"

definition host_lines :: "string \<Rightarrow> string \<Rightarrow> string option \<Rightarrow> string option \<Rightarrow> nat option \<Rightarrow> string \<Rightarrow> string list" where
  "host_lines name fp title welcome cap key_hex =
     [''hosting lobby '' @ name @ '' ('' @ (case title of Some t \<Rightarrow> t | None \<Rightarrow> name) @ '')'']
     @ (case welcome of Some w \<Rightarrow> [''welcome message: '' @ w] | None \<Rightarrow> [])
     @ (case cap of Some c \<Rightarrow> [''seat cap: '' @ show_nat c @ '' members (the host does not count)''] | None \<Rightarrow> [])
     @ [''  '' @ key_hex, ''members run: neonet join '' @ debug_str name @ '' '' @ fp @ '' '' @ key_hex]"

text \<open>\<open>raw\<close> is the fresh key.\<close>

definition cmd_host ::
    "'w seat \<Rightarrow> bytes \<Rightarrow> string \<Rightarrow> string option \<Rightarrow> string option \<Rightarrow> nat option \<Rightarrow> path option \<Rightarrow>
     ('w, node \<times> string \<times> bootstrap_entry list) cmd" where
  "cmd_host S raw name title welcome cap boot =
     bindS (read_bootstrap S (case boot of Some p \<Rightarrow> p | None \<Rightarrow> se_root S @ [''bootstrap.json''])) (\<lambda>es.
     let key_hex = hex_encode (seat_crates S) raw in
     bindS (open_node S) (\<lambda>n.
     let n' = register_host name key_hex \<lparr>lo_title = or_empty title, lo_welcome = or_empty welcome, lo_max_members = cap\<rparr> n in
     bindS (say_all (host_lines name (seat_finger S (node_public (se_env S) n)) title welcome cap key_hex)) (\<lambda>_.
       ret (n', key_hex, es))))"

section \<open>Facts\<close>

text \<open>A confirmation that is not a clear yes trusts nobody: no file changes.\<close>

lemma adopt_default_no:
  assumes "answer = Inr l" and "ascii_lower (trim_matches is_whitespace l) \<notin> {''y'', ''yes''}"
  shows "dk_store (fst (cmd_adopt B S dir False answer d)) = dk_store d"
proof -
  have no: "confirm_by False answer src = Inr False" for src
    using assms by (simp add: confirm_by_def Let_def)
  have "fst (adopt C L B D now root dir (confirm_by False answer) s) = s" for C L D now root s
    by (simp add: adopt_def no split: sum.split)
  then have "dk_store (fst (on_files (anyhow (adopt (seat_crates S) (k_ledger (e_codecs (se_env S))) B
       (se_devices S) (e_now (se_env S)) (se_root S) dir (confirm_by False answer))) d)) = dk_store d"
    by (simp add: on_files_def anyhow_def map_errS_def split: prod.split) (metis fst_conv)
  then show ?thesis by (auto simp: cmd_adopt_def bindS_def say_def split: prod.splits sum.splits)
qed

text \<open>A server that handles a sequence of messages whose names are plain keeps its private files.\<close>

fun plain_run :: "env \<Rightarrow> (u64 \<times> message) list \<Rightarrow> node \<Rightarrow> bool" where
  "plain_run E [] n \<longleftrightarrow> True"
| "plain_run E ((t, m) # ms) n \<longleftrightarrow> named_plainly (at_time E t) n (frame_decode (k_app (e_codecs E)) (m_payload m))
     \<and> plain_run E ms (fst (dispatch_message (at_time E t) m n))"

lemma dispatch_message_node: "fst (dispatch_message E m n) = fst (handle E m n)"
  by (auto simp: dispatch_message_def split: prod.splits sum.splits option.splits)

lemma server_keeps_private:
  assumes "plain_run E ms n" and "hex_text (e_crates E)" and "hex_names (e_crates E)" and "x \<notin> set peer_written"
  shows "keeps x n (fst (serve_inbox E ms n))"
  using assms(1)
proof (induction ms arbitrary: n)
  case Nil
  then show ?case by simp
next
  case (Cons tm ms)
  obtain t m where tm: "tm = (t, m)" by fastforce
  let ?E = "at_time E t"
  let ?n1 = "fst (dispatch_message ?E m n)"
  have h: "handle ?E m n = (?n1, snd (handle ?E m n))" by (simp add: dispatch_message_node)
  have "keeps x n ?n1" using Cons.prems assms(2-4) by (intro handle_keeps [OF h]) (simp_all add: tm)
  moreover have "keeps x ?n1 (fst (serve_inbox E ms ?n1))" using Cons.IH Cons.prems by (simp add: tm)
  moreover have "fst (serve_inbox E (tm # ms) n) = fst (serve_inbox E ms ?n1)"
    by (simp add: tm split: prod.split)
  ultimately show ?case by (auto simp: keeps_def intro: same_file_trans)
qed

lemma serve_inbox_append:
  "serve_inbox E (ms @ ms') n = (case serve_inbox E ms n of (n1, ls) \<Rightarrow>
     (case serve_inbox E ms' n1 of (n2, ls') \<Rightarrow> (n2, ls @ ls')))"
  by (induction ms arbitrary: n) (auto split: prod.splits)

lemma open_node_ok:
  assumes "open_node S d = (d', Inr n)"
  shows "n_home n = default_node_home (se_identity S)" "n_hosts n = []" "n_identity n = se_identity S"
  using assms by (auto simp: open_node_def Let_def bindS_ok_iff)



end
