(* ===== verification/Repl.thy ===== *)
theory Repl
  imports Serve Shell SysInfo Update
begin

text \<open>
  The interactive shell of \<open>src/main.rs\<close> (the arm of \<open>run\<close> without a command): one mesh session for all
  lines, a history, one definition per command of the prompt, and the messages that the session's node
  receives between lines. A command that fails prints its
  error in red and the shell goes on, which is \<open>shown\<close>. The session's node keeps its state under the
  root. \<open>None\<close> as the result of a command means that the fuel of a paging or polling loop ran out.

  Texts are rendered in ASCII and cut to their first clause. \<open>help\<close>, \<open>clear\<close> and \<open>reboot\<close> only
  print a screen, and are turns that print nothing here. Errors that carry the debug rendering of a reply or
  of an error are cut likewise.
\<close>

section \<open>The shell's state\<close>

record 'w shell =
  sh_desk :: "'w desk"
  sh_history :: history
  sh_clock :: bool
  sh_hosts :: "((path \<times> string) \<times> host_state) list"

type_synonym 'w act = "'w shell \<Rightarrow> 'w shell option"

text \<open>What the shell is connected to. \<open>rg_send\<close> hands messages to the session's router, \<open>rg_wait\<close> waits eight seconds for a route, \<open>rg_redial\<close> dials the
  bootstrap list in the background.\<close>

record 'w rig =
  rg_seat :: "'w seat"
  rg_wait :: "public_identity \<Rightarrow> 'w \<Rightarrow> 'w \<times> bool"
  rg_redial :: "bootstrap_entry list \<Rightarrow> 'w \<Rightarrow> 'w"
  rg_tell :: "public_identity \<Rightarrow> 'w push"
  rg_ssh :: "'w runner"
  rg_kill :: "string \<Rightarrow> ('w, io_error, bool) op"
  rg_spawn :: "string \<Rightarrow> string list \<Rightarrow> (store, io_error, u32) op"
  rg_tool :: "'w tool"
  rg_update :: update_env
  rg_daemons :: "daemon list codec"
  rg_keys :: "string list codec"
  rg_pretty :: "string list \<Rightarrow> string"
  rg_fuel :: nat
  rg_late :: "nat \<Rightarrow> bool"
  rg_uname :: "bytes option"
  rg_os :: string
  rg_send :: "message list \<Rightarrow> 'w \<Rightarrow> 'w"

text \<open>What a line draws from outside: the time, fresh nonces, and a fresh key, token or seed.\<close>

record draw =
  w_now :: u64
  w_micros :: nat
  w_nonce :: "nat \<Rightarrow> bytes"
  w_seed :: bytes

definition seat_at :: "'w rig \<Rightarrow> draw \<Rightarrow> 'w seat" where
  "seat_at R w = (rg_seat R)\<lparr>se_env := at_time (se_env (rg_seat R)) (w_now w)\<rparr>"

definition RED :: string where "RED = esc ''1;31''"

definition chain_head :: "chain \<Rightarrow> string" where
  "chain_head e = (case e of [] \<Rightarrow> [] | t # _ \<Rightarrow> t)"

text \<open>A failure that is printed and passed over.\<close>

definition tolerate :: "('w, unit) cmd \<Rightarrow> ('w, unit) cmd" where
  "tolerate m d = (case m d of (d1, Inl e) \<Rightarrow> say (RED @ chain_head e @ RESET) d1 | (d1, Inr u) \<Rightarrow> (d1, Inr u))"

definition shown :: "('w, unit) cmd \<Rightarrow> 'w act" where
  "shown m sh = Some (sh\<lparr>sh_desk := fst (tolerate m (sh_desk sh))\<rparr>)"

text \<open>The same for a command with fuel.\<close>

definition shown_fuel :: "('w desk \<Rightarrow> ('w desk \<times> (chain + unit)) option) \<Rightarrow> 'w act" where
  "shown_fuel m sh = Option.bind (m (sh_desk sh)) (\<lambda>r. shown (\<lambda>_. r) sh)"

section \<open>The session\<close>

definition word :: "string list \<Rightarrow> nat \<Rightarrow> string" where
  "word ws i = (if i < length ws then ws ! i else [])"

definition wait_route :: "'w rig \<Rightarrow> public_identity \<Rightarrow> 'w desk \<Rightarrow> 'w desk \<times> bool" where
  "wait_route R i d = (case rg_wait R i (dk_world d) of (w, ok) \<Rightarrow> (d\<lparr>dk_world := w\<rparr>, ok))"

text \<open>\<open>ShellMesh::open\<close>: without a bootstrap list nothing is dialled.\<close>

definition session_open :: "'w rig \<Rightarrow> 'w desk \<Rightarrow> 'w desk \<times> (chain + unit)" where
  "session_open R = bindS (on_files (anyhow (fs_mkdirs (se_root (rg_seat R))))) (\<lambda>_ d.
     (case load_bootstrap (seat_crates (rg_seat R)) (se_bootstrap (rg_seat R)) (se_root (rg_seat R) @ [''bootstrap.json'']) (dk_store d) of
        Inr es \<Rightarrow> (d\<lparr>dk_world := rg_redial R es (dk_world d)\<rparr>, Inr ())
      | Inl _ \<Rightarrow> (d, Inr ())))"

text \<open>\<open>ShellMesh::peer\<close>: resolve, wait for a route, and dial once more if there is none.\<close>

definition session_peer :: "'w rig \<Rightarrow> string \<Rightarrow> ('w, public_identity) cmd" where
  "session_peer R dev =
     bindS (from_store (read_devices (se_devices (rg_seat R)) (se_root (rg_seat R)))) (\<lambda>ds d.
     case dir_resolve (seat_crates (rg_seat R)) dev ds of
       None \<Rightarrow> give_up (''device '' @ dev @ '' not found'') d
     | Some r \<Rightarrow>
         (let i = dr_identity r; no_route = ''no route to device '' @ dev in
          case wait_route R i d of
            (d1, True) \<Rightarrow> (d1, Inr i)
          | (d1, False) \<Rightarrow>
              (let d2 = (case load_bootstrap (seat_crates (rg_seat R)) (se_bootstrap (rg_seat R))
                      (se_root (rg_seat R) @ [''bootstrap.json'']) (dk_store d1) of
                    Inr es \<Rightarrow> d1\<lparr>dk_world := rg_redial R es (dk_world d1)\<rparr> | Inl _ \<Rightarrow> d1) in
               case wait_route R i d2 of
                 (d3, True) \<Rightarrow> (d3, Inr i)
               | (d3, False) \<Rightarrow> give_up no_route d3)))"

text \<open>\<open>ShellMesh::call\<close>\<close>

definition session_call :: "'w rig \<Rightarrow> string \<Rightarrow> 'w asker" where
  "session_call R dev f = bindS (session_peer R dev) (\<lambda>i.
     on_mesh (context_of (''no reply from '' @ dev) (ask (se_mesh (rg_seat R)) i f)))"

text \<open>Listing and reading a peer's share over the session.\<close>

definition reaching :: "string \<Rightarrow> 'w asker \<Rightarrow> 'w asker" where
  "reaching dev call f = map_errS (\<lambda>e. [dev @ '' unreachable: '' @ chain_head e]) (call f)"

definition shell_remote_list :: "'w rig \<Rightarrow> string \<Rightarrow> string \<Rightarrow> ('w, (string \<times> entry_kind \<times> u64) list) cmd" where
  "shell_remote_list R dev path = bindS (reaching dev (session_call R dev) (AppBurrow (BList path))) (\<lambda>r. case r of
       AppBurrow (BListing _ es) \<Rightarrow> ret (map (\<lambda>x. (en_name x, en_kind x, en_size x)) es)
     | AppBurrow (BError _ msg) \<Rightarrow> give_up msg
     | _ \<Rightarrow> give_up (''unexpected reply from '' @ dev))"

definition shell_remote_read :: "'w rig \<Rightarrow> string \<Rightarrow> string \<Rightarrow> ('w, bytes) cmd" where
  "shell_remote_read R dev path = bindS (reaching dev (session_call R dev) (AppBurrow (BRead path))) (\<lambda>r. case r of
       AppBurrow (BContent _ b) \<Rightarrow> ret b
     | AppBurrow (BError _ msg) \<Rightarrow> give_up msg
     | _ \<Rightarrow> give_up (''unexpected reply from '' @ dev))"

text \<open>The session's node, and what its pump does with a message that arrives between two lines, when
  no call is waiting: the same dispatch as in a serving node.\<close>

definition session_node :: "'w seat \<Rightarrow> 'w shell \<Rightarrow> node" where
  "session_node S sh = (seat_node S (dk_store (sh_desk sh)))\<lparr>n_hosts := sh_hosts sh\<rparr>"

definition shell_inbox :: "'w rig \<Rightarrow> draw \<Rightarrow> message \<Rightarrow> 'w shell \<Rightarrow> 'w shell" where
  "shell_inbox R w m sh = (let S = seat_at R w; d = sh_desk sh in
     case pump (se_env S) m \<lparr>cl_node = session_node S sh, cl_waiting = [], cl_answers = []\<rparr> of (c, t) \<Rightarrow>
       (let n = cl_node c in
        sh\<lparr>sh_hosts := n_hosts n,
           sh_desk := d\<lparr>dk_store := n_store n, dk_world := rg_send R (n_outbox n) (dk_world d),
             dk_out := dk_out d @ (case t of None \<Rightarrow> [] | Some x \<Rightarrow> [x])\<rparr>\<rparr>))"

text \<open>\<open>reload_identity\<close>, which panics when the identity cannot be read.\<close>

definition reload_identity :: "'w rig \<Rightarrow> bytes \<Rightarrow> ('w, identity) cmd" where
  "reload_identity R seed = on_files (map_errS (\<lambda>_. [''panic: identity file vanished during the shell session''])
     (load_or_generate seed (se_root (rg_seat R) @ [''identity''])))"

section \<open>Local commands\<close>

definition t_echo :: "string list \<Rightarrow> 'w act" where
  "t_echo args = shown (say (join_with '' '' args))"

definition t_history :: "'w act" where
  "t_history sh = shown (say_all (h_entries (sh_history sh))) sh"

definition t_clock :: "'w act" where
  "t_clock sh = shown (say (''prompt time '' @ (if \<not> sh_clock sh then ''on'' else ''off''))) (sh\<lparr>sh_clock := \<not> sh_clock sh\<rparr>)"

definition t_sysinfo :: "'w rig \<Rightarrow> 'w seat \<Rightarrow> 'w act" where
  "t_sysinfo R S sh = shown (say_all (system_info (se_cwd S) (rg_uname R) (rg_os R) (dk_store (sh_desk sh)))) sh"

definition t_whoami :: "'w seat \<Rightarrow> 'w act" where
  "t_whoami S = (let fp = seat_finger S (public_of (seat_crates S) (se_identity S)) in
     shown (say_all [''NeoNet '' @ SOFTWARE_VERSION, ''device id: '' @ GREEN @ short_id fp @ RESET, ''full id: '' @ fp,
       ''credentials: /'' @ join_with ''/'' (key_path (se_identity S))]))"

definition t_devices :: "'w seat \<Rightarrow> 'w act" where
  "t_devices S = shown (cmd_devices S)"

definition t_nsh :: "'w rig \<Rightarrow> 'w seat \<Rightarrow> string list \<Rightarrow> 'w act" where
  "t_nsh R S args = (if word args 0 = [] then shown (say ''usage: nsh ALIAS [CMD...]'')
     else shown (bindS (cmd_nsh (rg_ssh R) S (word args 0) (tl args)) (\<lambda>_. ret ())))"

definition t_connect :: "'w rig \<Rightarrow> 'w seat \<Rightarrow> string list \<Rightarrow> 'w act" where
  "t_connect R S args = (if word args 0 = [] then shown (say ''usage: connect ALIAS  (hand off to your ssh binary)'')
     else shown (cmd_connect (rg_ssh R) S (word args 0)))"

section \<open>Channels, folders and files\<close>

definition t_channel :: "'w rig \<Rightarrow> 'w seat \<Rightarrow> string list \<Rightarrow> 'w act" where
  "t_channel R S args = (case args of
       [] \<Rightarrow> shown (say ''usage: channel ALIAS [MSG]'')
     | alias # rest \<Rightarrow> shown (\<lambda>d.
         (let known = (case read_devices (se_devices S) (se_root S) (dk_store d) of
              Inr ds \<Rightarrow> dir_resolve (seat_crates S) alias ds \<noteq> None | Inl _ \<Rightarrow> False) in
          if \<not> known then give_up (alias @ '' is not a known device'') d
          else bindS (session_peer R alias) (\<lambda>peer. case words_text rest of
              None \<Rightarrow> show_channel S peer
            | Some t \<Rightarrow> bindS (session_call R alias (AppChannel (ChSend t))) (\<lambda>r. case r of
                  AppChannel (ChAck at) \<Rightarrow>
                    say (GREEN @ ''channel message '' @ t @ '' acked at '' @ dec_digits (unat at) @ RESET)
                | _ \<Rightarrow> give_up ''unexpected reply'')) d)))"

definition t_browse :: "'w rig \<Rightarrow> string list \<Rightarrow> 'w act" where
  "t_browse R args = (if word args 0 = [] then shown (say ''usage: browse ALIAS [PATH]'')
     else shown (browse_via (session_call R (word args 0)) (if 1 < length args then Some (args ! 1) else None)))"

definition t_fork :: "'w rig \<Rightarrow> 'w seat \<Rightarrow> string list \<Rightarrow> 'w act" where
  "t_fork R S args = (if word args 0 = [] \<or> word args 1 = [] then shown (say ''usage: fork ALIAS PATH  (one-shot)'')
     else shown (fork_via S (session_call R (word args 0)) (word args 1)))"

definition t_send :: "'w rig \<Rightarrow> 'w seat \<Rightarrow> string list \<Rightarrow> 'w act" where
  "t_send R S args sh = (let dev = word args 0; fname = word args 1; p = path_join (se_cwd S) fname in
     if dev = [] \<or> fname = [] then shown (say ''usage: send ALIAS FILE  (resumable)'') sh
     else if \<not> fs_exists (dk_store (sh_desk sh)) p then shown (say (''no such local file: '' @ fname)) sh
     else shown_fuel (\<lambda>d. case session_peer R dev d of
         (d1, Inl e) \<Rightarrow> Some (d1, Inl e)
       | (d1, Inr peer) \<Rightarrow> map_option (\<lambda>(d2, r). bindS (lift_result r) (\<lambda>t. case sent_text fname dev t of
             Some x \<Rightarrow> say (if ts_complete t then GREEN @ x @ RESET else x)
           | None \<Rightarrow> give_up (''failed to send '' @ fname @ '' to '' @ dev @ '': some chunks were lost'')) d2)
           (send_to (rg_fuel R) (rg_late R) (rg_tell R peer) S peer p d1)) sh)"

definition t_transfers :: "'w seat \<Rightarrow> 'w act" where
  "t_transfers S = shown (cmd_transfers S)"

definition t_store_push :: "'w rig \<Rightarrow> 'w seat \<Rightarrow> draw \<Rightarrow> string list \<Rightarrow> 'w act" where
  "t_store_push R S w args sh = (let dev = word args 1; fname = word args 2; p = path_join (se_cwd S) fname in
     if dev = [] \<or> fname = [] then shown (say ''usage: store push ALIAS FILE'') sh
     else if \<not> fs_exists (dk_store (sh_desk sh)) p then shown (say (''no such local file: '' @ fname)) sh
     else shown (bindS (session_peer R dev) (\<lambda>peer. bindS (push_to S (w_nonce w) (w_seed w) dev p peer) (\<lambda>_. ret ()))) sh)"

definition t_store_pull :: "'w rig \<Rightarrow> 'w seat \<Rightarrow> draw \<Rightarrow> string list \<Rightarrow> 'w act" where
  "t_store_pull R S w args = (let dev = word args 1; fid = word args 2;
       out = (if 3 < length args then Some (path_join (se_cwd S) (args ! 3)) else None) in
     if dev = [] \<or> fid = [] then shown (say ''usage: store pull ALIAS FILEID [OUTPUT]'')
     else shown_fuel (\<lambda>d. case session_peer R dev d of
         (d1, Inl e) \<Rightarrow> Some (d1, Inl e)
       | (d1, Inr peer) \<Rightarrow> map_option (\<lambda>(d2, r).
             bindS (bindS (lift_result r) (restore_file S (w_seed w) out)) (\<lambda>_. ret ()) d2)
           (pull_cmd (rg_fuel R) S peer fid d1)))"

definition t_store :: "'w rig \<Rightarrow> 'w seat \<Rightarrow> draw \<Rightarrow> string list \<Rightarrow> 'w act" where
  "t_store R S w args = (if word args 0 = ''push'' then t_store_push R S w args
     else if word args 0 = ''pull'' then t_store_pull R S w args
     else shown (say ''usage: store push ALIAS FILE    |    store pull ALIAS FILEID [OUTPUT]''))"

definition t_replicate :: "'w rig \<Rightarrow> 'w seat \<Rightarrow> string list \<Rightarrow> 'w act" where
  "t_replicate R S args = (let src = word args 0; dst = word args 1; fid = word args 2 in
     if src = [] \<or> dst = [] \<or> fid = [] then shown (say ''usage: replicate SRC DST FILEID  (copy a stored file between cores)'')
     else shown_fuel (\<lambda>d. case read_devices (se_devices S) (se_root S) (dk_store d) of
         Inl e \<Rightarrow> Some (d, Inl e)
       | Inr ds \<Rightarrow> (case dir_resolve (seat_crates S) dst ds of
           None \<Rightarrow> Some (d, Inl [''device '' @ dst @ '' not found in devices.json''])
         | Some r \<Rightarrow> (case session_peer R src d of
             (d1, Inl e) \<Rightarrow> Some (d1, Inl e)
           | (d1, Inr peer) \<Rightarrow> copy_between (rg_fuel R) S src peer dst (dr_identity r) fid d1))))"

section \<open>Presence, pairing and revocation\<close>

definition t_register :: "'w rig \<Rightarrow> 'w seat \<Rightarrow> string list \<Rightarrow> 'w act" where
  "t_register R S args = (let dev = word args 0; addr = word args 1 in
     if dev = [] \<or> addr = [] then shown (say ''usage: register RENDEZVOUS_ALIAS ADDR [TTL_SECS]'')
     else if CHR '':'' \<notin> set addr then shown (give_up ''ADDR must be a host:port peers can dial back'')
     else shown (register_via S (session_call R dev) dev addr
       (if 2 < length args then map_option of_nat (parse_nat (2 ^ 32) (args ! 2)) else None)))"

text \<open>The probes of the shell: a probe that fails, or is answered by something else, drops the record.\<close>

fun probe_live :: "'w seat \<Rightarrow> 'w asker \<Rightarrow> endpoint_record list \<Rightarrow> 'w desk \<Rightarrow> 'w desk \<times> endpoint_record list" where
  "probe_live S call [] d = (d, [])"
| "probe_live S call (r # rs) d =
     (case call (AppRendezvous (Probe (seat_finger S (ep_identity r)))) d of
        (d1, Inr (AppRendezvous (ProbeResult _ True))) \<Rightarrow> (case probe_live S call rs d1 of (d2, ls) \<Rightarrow> (d2, r # ls))
      | (d1, Inr (AppRendezvous (ProbeResult _ False))) \<Rightarrow>
          probe_live S call rs (fst (say (record_row S r @ '' (stale)'') d1))
      | (d1, _) \<Rightarrow> probe_live S call rs d1)"

definition t_scan :: "'w rig \<Rightarrow> 'w seat \<Rightarrow> string list \<Rightarrow> 'w act" where
  "t_scan R S args = (let dev = word args 0; active = ''--active'' \<in> set args; f = lowercase (word args 1);
       call = session_call R dev in
     if dev = [] then shown (say ''usage: scan RENDEZVOUS_ALIAS [FILTER] [--active]'')
     else shown (bindS (call (AppRendezvous RList)) (\<lambda>r. case r of
         AppRendezvous (ListResult rs) \<Rightarrow> (\<lambda>d.
           (let hits = scan_hits S f rs; (d1, hits') = (if active then probe_live S call hits d else (d, hits)) in
            say_all (if hits' = [] then [''(no devices registered'' @ (if f = [] then [] else '' matching '' @ f) @ '')'']
              else map (record_row S) hits') d1))
       | AppRendezvous (RError msg) \<Rightarrow> give_up (dev @ '' could not enumerate: '' @ msg)
       | _ \<Rightarrow> give_up ''unexpected reply'')))"

definition t_flash :: "'w rig \<Rightarrow> string list \<Rightarrow> 'w act" where
  "t_flash R args = (if word args 0 = [] \<or> word args 1 = [] then shown (say ''usage: flash ACCEPTOR_ALIAS TOKEN'')
     else shown (flash_via (session_call R (word args 0)) (word args 0) (word args 1)))"

definition t_pairs :: "'w rig \<Rightarrow> 'w seat \<Rightarrow> string list \<Rightarrow> 'w act" where
  "t_pairs R S args = shown (cmd_pairs S (rg_keys R) (rg_pretty R) (''--as-allow'' \<in> set args))"

definition pair_ttl :: "string list \<Rightarrow> u64 option" where
  "pair_ttl args = map_option of_nat (case Option.bind (flag_value args ''--ttl'') (parse_nat (2 ^ 64)) of
       Some t \<Rightarrow> Some t | None \<Rightarrow> (case args of [] \<Rightarrow> None | a # _ \<Rightarrow> parse_nat (2 ^ 64) a))"

text \<open>The token is for the session's own node, whose home is the root.\<close>

definition issue_here :: "'w seat \<Rightarrow> draw \<Rightarrow> u64 option \<Rightarrow> ('w, string) cmd" where
  "issue_here S w ttl = on_files (anyhow (issue_token (seat_crates S) (k_pending (e_codecs (se_env S))) (w_seed w)
     (e_now (se_env S)) (se_root S) ttl))"

definition t_pair :: "'w seat \<Rightarrow> draw \<Rightarrow> string list \<Rightarrow> 'w act" where
  "t_pair S w args = shown (bindS (issue_here S w (pair_ttl args)) (\<lambda>token.
     say_all [''pairing token: '' @ token @ ''  (single use)'', ''this shell is the acceptor'']))"

definition t_revoke :: "'w rig \<Rightarrow> 'w seat \<Rightarrow> draw \<Rightarrow> string list \<Rightarrow> 'w act" where
  "t_revoke R S w args = (let dev = word args 0; hex = word args 1 in
     if dev = [] \<or> hex = [] then shown (say ''usage: revoke DEVICE HEX_PUBLIC_KEY'')
     else shown (
       bindS (lift_result (parse_public_key (seat_crates S) hex)) (\<lambda>k.
       bindS (on_files (next_revocation_epoch (se_root S))) (\<lambda>epoch.
       bindS (reload_identity R (w_seed w)) (\<lambda>me.
         revoke_via (session_call R dev) dev (RevokeBroadcast \<lparr>public_key = k\<rparr> epoch
           (sign_with (seat_crates S) me (revoke_payload epoch \<lparr>public_key = k\<rparr>))))))))"

definition t_operator :: "'w rig \<Rightarrow> 'w seat \<Rightarrow> draw \<Rightarrow> string list \<Rightarrow> 'w act" where
  "t_operator R S w args = (
     if word args 0 = ''add'' then
       (if word args 1 = [] then shown (say ''usage: operator add HEX_PUBLIC_KEY'')
        else shown (
          bindS (lift_result (parse_public_key (seat_crates S) (word args 1))) (\<lambda>_.
          bindS (reload_identity R (w_seed w)) (\<lambda>me. cmd_operator_add (S\<lparr>se_identity := me\<rparr>) (word args 1)))))
     else if word args 0 = ''list'' then
       shown (bindS (reload_identity R (w_seed w)) (\<lambda>me. cmd_operator_list (S\<lparr>se_identity := me\<rparr>)))
     else shown (say ''usage: operator add HEX_PUBLIC_KEY | operator list''))"

section \<open>Lobbies\<close>

definition t_host :: "'w seat \<Rightarrow> draw \<Rightarrow> string list \<Rightarrow> 'w act" where
  "t_host S w args sh = (let name = word args 0; title = flag_value args ''--title''; welcome = flag_value args ''--welcome'';
       cap = flag_usize args ''--max-members''; key_hex = hex_encode (seat_crates S) (w_seed w) in
     if name = [] then shown (say ''usage: host LOBBY [--title T] [--welcome W] [--max-members N]'') sh
     else (let n = register_host name key_hex \<lparr>lo_title = or_empty title, lo_welcome = or_empty welcome, lo_max_members = cap\<rparr>
         (session_node S sh) in
       shown (say_all ([''hosting lobby '' @ name @ '' ('' @ (case title of Some t \<Rightarrow> t | None \<Rightarrow> name) @ '')'']
           @ (case welcome of Some x \<Rightarrow> [''welcome message: '' @ x] | None \<Rightarrow> [])
           @ (case cap of Some c \<Rightarrow> [''seat cap: '' @ show_nat c @ '' members (the host does not count)''] | None \<Rightarrow> [])
           @ [''  lobby key: '' @ key_hex, ''members join with: join '' @ name @ '' <this-device-alias> '' @ key_hex]))
         (sh\<lparr>sh_hosts := n_hosts n\<rparr>)))"

definition joined_here :: "'w seat \<Rightarrow> string \<Rightarrow> string \<Rightarrow> public_identity \<Rightarrow> string \<Rightarrow> string \<Rightarrow> string \<Rightarrow> ('w, unit) cmd" where
  "joined_here S dev key peer name title welcome =
     bindS (tolerate (on_files (anyhow (add_to_roster (k_roster (e_codecs (se_env S))) (se_root S)
         \<lparr>ml_name = name, ml_host_alias = dev, ml_host_fingerprint = seat_finger S peer, ml_key_hex = key,
          ml_title = title, ml_welcome = welcome\<rparr>)))) (\<lambda>_.
       say_all (join_text name title welcome
         @ [''received posts land in /'' @ join_with ''/'' (se_root S @ [''lobbies'', log_name name])]))"

definition t_join :: "'w rig \<Rightarrow> 'w seat \<Rightarrow> string list \<Rightarrow> 'w act" where
  "t_join R S args = (let name = word args 0; dev = word args 1; key = word args 2 in
     if name = [] \<or> dev = [] \<or> key = [] then shown (say ''usage: join LOBBY HOST_KEY_ALIAS LOBBY_KEY'')
     else shown (bindS (session_peer R dev) (\<lambda>peer.
       bindS (request S peer (AppLobby (Join name key))) (\<lambda>r. case r of
           AppLobby (Joined name' title welcome) \<Rightarrow> joined_here S dev key peer name' title welcome
         | AppLobby (Refuse msg) \<Rightarrow> give_up (dev @ '' refused the lobby key: '' @ msg)
         | _ \<Rightarrow> give_up ''unexpected reply''))))"

text \<open>Where a line of \<open>say\<close> or \<open>post\<close> goes: to the lobby named first, if \<open>post\<close> is followed by the name of
  a joined lobby and a text; to the lobby joined last otherwise, with all the words.\<close>

datatype post_target = ToLobby string string | NoText | NoLobby

definition find_post_target :: "'w seat \<Rightarrow> bool \<Rightarrow> string list \<Rightarrow> store \<Rightarrow> post_target" where
  "find_post_target S is_post args s =
     (if is_post \<and> 2 \<le> length args \<and> find_roster (k_roster (e_codecs (se_env S))) (se_root S) (args ! 0) s \<noteq> None
      then ToLobby (args ! 0) (join_with '' '' (tl args))
      else if join_with '' '' args = [] then NoText
      else (case last_roster (k_roster (e_codecs (se_env S))) (se_root S) s of
          Some l \<Rightarrow> ToLobby (ml_name l) (join_with '' '' args) | None \<Rightarrow> NoLobby))"

definition t_post :: "'w rig \<Rightarrow> 'w seat \<Rightarrow> draw \<Rightarrow> bool \<Rightarrow> string list \<Rightarrow> 'w act" where
  "t_post R S w is_post args sh = (case find_post_target S is_post args (dk_store (sh_desk sh)) of
       NoText \<Rightarrow> shown (say ''usage: say TEXT  (active lobby)  |  post LOBBY TEXT'') sh
     | NoLobby \<Rightarrow> shown (give_up ''not a member of any lobby'') sh
     | ToLobby name t \<Rightarrow> shown (bindS (roster_entry S name) (\<lambda>l.
         bindS (seal_post S (w_nonce w 0) l t) (\<lambda>sealed. post_via (session_call R (ml_host_alias l)) name l sealed))) sh)"

definition t_lobby :: "'w rig \<Rightarrow> 'w seat \<Rightarrow> string list \<Rightarrow> 'w act" where
  "t_lobby R S args sh =
     (let chosen = (if 1 < length args then Some (args ! 1)
          else map_option ml_name (last_roster (k_roster (e_codecs (se_env S))) (se_root S) (dk_store (sh_desk sh)))) in
      case chosen of
        None \<Rightarrow> shown (say ''not a member of any lobby yet'') sh
      | Some name \<Rightarrow> shown (bindS (roster_entry S name) (\<lambda>l.
          if word args 0 = ''log'' then show_log S name l
          else if word args 0 = ''members'' then
            bindS (session_call R (ml_host_alias l) (AppLobby (Members name))) (\<lambda>r. case r of
                AppLobby (MemberList fps) \<Rightarrow> say_all (if fps = [] then [''<none>''] else fps)
              | AppLobby (Refuse msg) \<Rightarrow> give_up msg
              | _ \<Rightarrow> give_up ''unexpected reply'')
          else if word args 0 = ''leave'' then
            bindS (session_call R (ml_host_alias l) (AppLobby (Leave name))) (\<lambda>r. case r of
                AppLobby (Left _) \<Rightarrow> say (''left lobby '' @ name @ ''.'')
              | AppLobby (Refuse msg) \<Rightarrow> give_up msg
              | _ \<Rightarrow> give_up ''unexpected reply'')
          else say ''usage: lobby log [NAME] | lobby members [NAME] | lobby leave [NAME]'')) sh)"

section \<open>Daemons and updates\<close>

definition t_daemon :: "'w rig \<Rightarrow> 'w seat \<Rightarrow> draw \<Rightarrow> string \<Rightarrow> string list \<Rightarrow> 'w act" where
  "t_daemon R S w sub args =
     (if args = [] then shown (say (if sub = ''edge'' then ''usage: edge --bootstrap FILE''
         else ''usage: core --listen ADDR [--allow-file FILE]  (serve is an alias)''))
      else shown (bindS (on_files (spawn_daemon (rg_daemons R) (rg_spawn R) (w_micros w) (se_root S) sub args)) (\<lambda>(pid, log).
        say (GREEN @ ''neonet '' @ sub @ '' launched in background (pid '' @ dec_digits (unat pid) @ '') -- log: /''
          @ join_with ''/'' log @ RESET))))"

definition t_daemons :: "'w rig \<Rightarrow> 'w seat \<Rightarrow> 'w act" where
  "t_daemons R S sh = (let ds = list_daemons (rg_daemons R) (se_root S) (dk_store (sh_desk sh)) in
     shown (say_all (if ds = [] then [''no daemons launched from this shell yet'']
       else map (\<lambda>p. dec_digits (unat (d_pid p)) @ [CHR 0x09] @ d_name p @ [CHR 0x09] @ d_log p) ds @ [''stop one with stop PID.''])) sh)"

definition forget_daemon :: "daemon list codec \<Rightarrow> path \<Rightarrow> u32 \<Rightarrow> (store, io_error, unit) op" where
  "forget_daemon K root pid s = save_daemons K root (filter (\<lambda>p. d_pid p \<noteq> pid) (list_daemons K root s)) s"

definition t_stop :: "'w rig \<Rightarrow> 'w seat \<Rightarrow> string list \<Rightarrow> 'w act" where
  "t_stop R S args = (case map_option (\<lambda>k. of_nat k :: u32) (parse_nat (2 ^ 32) (word args 0)) of
       None \<Rightarrow> shown (say ''usage: stop PID  (see daemons)'')
     | Some pid \<Rightarrow> shown (bindS (on_mesh (anyhow (rg_kill R (word args 0)))) (\<lambda>ok.
         if \<not> ok then give_up (''kill did not stop pid '' @ dec_digits (unat pid))
         else bindS (tolerate (on_files (anyhow (forget_daemon (rg_daemons R) (se_root S) pid)))) (\<lambda>_.
           say (''stopped pid '' @ dec_digits (unat pid) @ ''.'')))))"

definition cmd_update :: "'w tool \<Rightarrow> update_env \<Rightarrow> string option \<Rightarrow> string option \<Rightarrow> bool \<Rightarrow> ('w, unit) cmd" where
  "cmd_update T E repo branch release d =
     (case update_run T E (dk_store d) repo branch release \<lparr>u_world = dk_world d, u_log = [], u_printed = []\<rparr> of
        (u, r) \<Rightarrow> (d\<lparr>dk_world := u_world u, dk_out := dk_out d @ u_printed u\<rparr>, r))"

definition t_update :: "'w rig \<Rightarrow> string list \<Rightarrow> 'w act" where
  "t_update R args = shown (cmd_update (rg_tool R) (rg_update R) (flag_value args ''--repo'') (flag_value args ''--branch'')
     (''--release'' \<in> set args))"

section \<open>Lines\<close>

definition silent_commands :: "string list" where
  "silent_commands = [''help'', ''clear'', ''reboot'']"

definition turn :: "'w rig \<Rightarrow> draw \<Rightarrow> string \<Rightarrow> string list \<Rightarrow> 'w act" where
  "turn R w c args = (let S = seat_at R w in
     if c \<in> set silent_commands then Some
     else if c = ''clock'' then t_clock
     else if c = ''echo'' then t_echo args
     else if c = ''history'' then t_history
     else if c = ''sysinfo'' then t_sysinfo R S
     else if c = ''whoami'' then t_whoami S
     else if c = ''devices'' then t_devices S
     else if c = ''channel'' then t_channel R S args
     else if c = ''nsh'' then t_nsh R S args
     else if c = ''connect'' then t_connect R S args
     else if c = ''browse'' then t_browse R args
     else if c = ''fork'' then t_fork R S args
     else if c = ''send'' then t_send R S args
     else if c = ''transfers'' then t_transfers S
     else if c = ''store'' then t_store R S w args
     else if c = ''replicate'' then t_replicate R S args
     else if c = ''register'' then t_register R S args
     else if c = ''scan'' then t_scan R S args
     else if c = ''flash'' then t_flash R args
     else if c = ''pairs'' then t_pairs R S args
     else if c = ''pair'' then t_pair S w args
     else if c = ''revoke'' then t_revoke R S w args
     else if c = ''operator'' then t_operator R S w args
     else if c = ''host'' then t_host S w args
     else if c = ''join'' then t_join R S args
     else if c = ''say'' \<or> c = ''post'' then t_post R S w (c = ''post'') args
     else if c = ''lobby'' then t_lobby R S args
     else if c = ''core'' \<or> c = ''serve'' \<or> c = ''edge'' then t_daemon R S w c args
     else if c = ''daemons'' then t_daemons R S
     else if c = ''stop'' then t_stop R S args
     else if c = ''update'' then t_update R args
     else shown (say_all [RED @ c @ '' is not recognized as a command'' @ RESET, ''Type help for the command list.'']))"

text \<open>One line; the flag says to quit.\<close>

definition shell_line :: "'w rig \<Rightarrow> draw \<Rightarrow> string \<Rightarrow> 'w shell \<Rightarrow> ('w shell \<times> bool) option" where
  "shell_line R w line sh = (let sh1 = sh\<lparr>sh_history := history_push line (sh_history sh)\<rparr> in
     case tokenize line of
       [] \<Rightarrow> Some (sh1, False)
     | c # args \<Rightarrow>
         if ascii_lower c = ''quit'' \<or> ascii_lower c = ''exit'' then Some (sh1, True)
         else map_option (\<lambda>s. (s, False)) (turn R w (ascii_lower c) args sh1))"

text \<open>What happens at the prompt: a line, a key, or a message for the session's node. Messages that
  arrive while a command waits for its answer are part of the command's world.\<close>

datatype input = Line string | Interrupt | Eof | Broken string | Inbound message

fun shell_loop :: "'w rig \<Rightarrow> (input \<times> draw) list \<Rightarrow> 'w act" where
  "shell_loop R [] sh = Some sh"
| "shell_loop R ((Line l, w) # ins) sh = (case shell_line R w l sh of
       None \<Rightarrow> None
     | Some (sh1, quit) \<Rightarrow> if quit then Some sh1 else shell_loop R ins sh1)"
| "shell_loop R ((Interrupt, w) # ins) sh = Option.bind (shown (say ''^C -- use quit to exit.'') sh) (shell_loop R ins)"
| "shell_loop R ((Inbound m, w) # ins) sh = shell_loop R ins (shell_inbox R w m sh)"
| "shell_loop R ((Eof, w) # ins) sh = Some sh"
| "shell_loop R ((Broken e, w) # ins) sh = shown (give_up e) sh"

definition shell_run :: "history codec \<Rightarrow> 'w rig \<Rightarrow> (input \<times> draw) list \<Rightarrow> 'w desk \<Rightarrow> 'w desk option" where
  "shell_run H R ins d = (let root = se_root (rg_seat R); h = history_load H root (dk_store d) in
     case session_open R d of
       (d1, Inl e) \<Rightarrow> Some (fst (say (RED @ ''mesh session failed to start: '' @ chain_head e @ RESET) d1))
     | (d1, Inr _) \<Rightarrow>
         (let d2 = (if fs_exists (dk_store d1) (root @ [''bootstrap.json'']) then d1
            else fst (say (YELLOW @ ''note: no bootstrap.json yet'' @ RESET) d1)) in
          map_option (\<lambda>sh. fst (bindS (say []) (\<lambda>_. bindS (tolerate (on_files (anyhow (history_save H root (sh_history sh)))))
              (\<lambda>_. say ''History saved. Shell closed.'')) (sh_desk sh)))
            (shell_loop R ins \<lparr>sh_desk = d2, sh_history = h, sh_clock = False, sh_hosts = []\<rparr>)))"

section \<open>The shell comes back\<close>

text \<open>Only the three commands with a loop against a peer can fail to return.\<close>

definition patient :: "string \<Rightarrow> bool" where
  "patient c \<longleftrightarrow> c = ''send'' \<or> c = ''store'' \<or> c = ''replicate''"

lemma shown_returns [simp]: "shown m sh \<noteq> None" "\<exists>s. shown m sh = Some s"
  by (simp_all add: shown_def)

lemma branches_return:
  "(b \<Longrightarrow> f sh \<noteq> None) \<Longrightarrow> g sh \<noteq> None \<Longrightarrow> (if b then f else g) sh \<noteq> None"
  "x \<noteq> None \<Longrightarrow> y \<noteq> None \<Longrightarrow> (if b then x else y) \<noteq> None"
  "f sh \<noteq> None \<Longrightarrow> (\<And>a. h a sh \<noteq> None) \<Longrightarrow> (case q of None \<Rightarrow> f | Some a \<Rightarrow> h a) sh \<noteq> None"
  "x \<noteq> None \<Longrightarrow> (\<And>a. z a \<noteq> None) \<Longrightarrow> (case q of None \<Rightarrow> x | Some a \<Rightarrow> z a) \<noteq> None"
  "f sh \<noteq> None \<Longrightarrow> (\<And>a as. k a as sh \<noteq> None) \<Longrightarrow> (case ws of [] \<Rightarrow> f | a # as \<Rightarrow> k a as) sh \<noteq> None"
  "(\<And>n t. u n t \<noteq> None) \<Longrightarrow> x \<noteq> None \<Longrightarrow> y \<noteq> None \<Longrightarrow>
     (case tgt of ToLobby n t \<Rightarrow> u n t | NoText \<Rightarrow> x | NoLobby \<Rightarrow> y) \<noteq> None"
  by (simp_all split: option.split list.split post_target.split)

lemma turns_return:
  "t_history sh \<noteq> None" "t_clock sh \<noteq> None" "t_daemons R S sh \<noteq> None" "t_lobby R S args sh \<noteq> None"
  "t_post R S w b args sh \<noteq> None" "t_host S w args sh \<noteq> None" "t_channel R S args sh \<noteq> None"
  "t_stop R S args sh \<noteq> None" "t_echo args sh \<noteq> None" "t_whoami S sh \<noteq> None" "t_devices S sh \<noteq> None"
  "t_nsh R S args sh \<noteq> None" "t_connect R S args sh \<noteq> None" "t_browse R args sh \<noteq> None"
  "t_fork R S args sh \<noteq> None" "t_transfers S sh \<noteq> None" "t_register R S args sh \<noteq> None"
  "t_scan R S args sh \<noteq> None" "t_flash R args sh \<noteq> None" "t_pairs R S args sh \<noteq> None"
  "t_pair S w args sh \<noteq> None" "t_revoke R S w args sh \<noteq> None" "t_operator R S w args sh \<noteq> None"
  "t_join R S args sh \<noteq> None" "t_daemon R S w c args sh \<noteq> None" "t_update R args sh \<noteq> None"
  "t_sysinfo R S sh \<noteq> None"
  unfolding t_sysinfo_def t_history_def t_clock_def t_daemons_def t_lobby_def t_post_def t_host_def t_channel_def
    t_stop_def t_echo_def t_whoami_def t_devices_def t_nsh_def t_connect_def t_browse_def t_fork_def
    t_transfers_def t_register_def t_scan_def t_flash_def t_pairs_def t_pair_def t_revoke_def t_operator_def
    t_join_def t_daemon_def t_update_def Let_def
  by (intro shown_returns branches_return)+

lemma turn_returns:
  assumes "\<not> patient c"
  shows "turn R w c args sh \<noteq> None"
  unfolding turn_def Let_def
  by (intro branches_return turns_return shown_returns) (use assms in \<open>simp_all add: patient_def\<close>)

definition impatient :: "input \<Rightarrow> bool" where
  "impatient i \<longleftrightarrow> (case i of Line l \<Rightarrow> (case tokenize l of c # _ \<Rightarrow> \<not> patient (ascii_lower c) | [] \<Rightarrow> True) | _ \<Rightarrow> True)"

definition quits :: "string \<Rightarrow> bool" where
  "quits l \<longleftrightarrow> (case tokenize l of c # _ \<Rightarrow> ascii_lower c = ''quit'' \<or> ascii_lower c = ''exit'' | [] \<Rightarrow> False)"

lemma shell_line_returns: "impatient (Line l) \<Longrightarrow> shell_line R w l sh \<noteq> None"
proof (cases "tokenize l")
  case (Cons c args)
  assume "impatient (Line l)"
  with Cons turn_returns [of "ascii_lower c" R w args] show ?thesis
    by (auto simp: shell_line_def impatient_def Let_def)
qed (simp add: shell_line_def Let_def)

lemma shell_loop_returns: "list_all (impatient \<circ> fst) ins \<Longrightarrow> shell_loop R ins sh \<noteq> None"
proof (induction R ins sh rule: shell_loop.induct)
  case (2 R l w ins sh)
  then have "shell_line R w l sh \<noteq> None" by (intro shell_line_returns) simp
  then obtain sh1 q where r: "shell_line R w l sh = Some (sh1, q)" by auto
  show ?case
  proof (cases q)
    case False
    with 2(1) [OF r refl] 2(2) r show ?thesis by simp
  qed (simp add: r)
next
  case (3 R w ins sh)
  then show ?case by (auto simp: shown_def)
qed simp_all

lemma shell_loop_quit:
  "quits l \<Longrightarrow> shell_loop R (ins @ (Line l, w) # rest) sh = shell_loop R (ins @ [(Line l, w)]) sh"
proof (induction R ins sh rule: shell_loop.induct)
  case (1 R sh)
  then show ?case by (auto simp: shell_line_def quits_def Let_def split: list.splits)
next
  case (2 R l' w' ins sh)
  then show ?case by (auto split: option.split prod.split)
next
  case (3 R w' ins sh)
  then show ?case by (cases "shown (say ''^C -- use quit to exit.'') sh") simp_all
qed simp_all


section \<open>Pairing at the prompt\<close>

lemma shown_says:
  assumes "m (sh_desk sh) = (d', Inr x)"
  obtains sh' where "shown (bindS m (\<lambda>t. say_all (f t))) sh = Some sh'" "dk_store (sh_desk sh') = dk_store d'"
proof -
  obtain d2 r where y: "say_all (f x) d' = (d2, r)" by fastforce
  show ?thesis
    by (rule that, simp only: shown_def) (use assms y say_all_store [OF y] in \<open>simp_all add: tolerate_def bindS_def\<close>)
qed

text \<open>What the two events do to the disk: the line issues, the message consumes and records.\<close>

lemma pair_line:
  assumes "tokenize l = ''pair'' # args"
    and "issue_here (seat_at R w) w (pair_ttl args) (sh_desk sh) = (d', Inr token)"
  obtains sh1 where "shell_line R w l sh = Some (sh1, False)" "dk_store (sh_desk sh1) = dk_store d'"
proof -
  have c: "ascii_lower ''pair'' = ''pair''" by code_simp
  have t: "turn R w ''pair'' args = t_pair (seat_at R w) w args"
    by (simp add: turn_def silent_commands_def)
  have "issue_here (seat_at R w) w (pair_ttl args) (sh_desk (sh\<lparr>sh_history := history_push l (sh_history sh)\<rparr>)) = (d', Inr token)"
    using assms(2) by simp
  from shown_says [of "issue_here (seat_at R w) w (pair_ttl args)", OF this] obtain sh1 where
    "t_pair (seat_at R w) w args (sh\<lparr>sh_history := history_push l (sh_history sh)\<rparr>) = Some sh1"
    "dk_store (sh_desk sh1) = dk_store d'" unfolding t_pair_def by metis
  then show ?thesis using assms(1) that by (simp add: shell_line_def Let_def c t)
qed

lemma redeem_inbox:
  assumes "frame_decode (k_app (e_codecs E)) (m_payload m) = AppPair (Redeem token)"
    and "consume_token (k_pending (e_codecs E)) (e_now E) (se_root (rg_seat R)) token (dk_store (sh_desk sh)) = (s1, Inr True)"
    and "record_pairing (e_crates E) (k_ledger (e_codecs E)) (e_now E) (se_root (rg_seat R)) (m_sender m) s1 = (s2, Inr ())"
    and "E = se_env (seat_at R w)"
  shows "dk_store (sh_desk (shell_inbox R w m sh)) = s2"
proof -
  let ?n = "session_node (seat_at R w) sh"
  have n: "n_home ?n = se_root (rg_seat R)" "n_store ?n = dk_store (sh_desk sh)"
    by (simp_all add: session_node_def seat_node_def seat_at_def)
  obtain n' r where h: "handle E m ?n = (n', r)" by fastforce
  then have "n_store n' = s2"
    using assms(1-3) by (auto simp: handle_def handle_pair_def on_store_def bindS_def n dest!: reply_thenD)
  then show ?thesis
    using h assms(4) by (cases r) (simp_all add: shell_inbox_def pump_def Let_def)
qed

text \<open>C39: a token issued at the prompt can be redeemed at the prompt. Whoever presents, while the shell is
  open and before the expiry, the token that \<open>pair\<close> issued is in the pairing ledger when the shell asks
  for the next line, provided that the disk takes the two documents.\<close>

theorem shell_token_redeemed:
  fixes R :: "'w rig" and sh :: "'w shell"
  defines "K \<equiv> e_codecs (se_env (rg_seat R))" and "C \<equiv> e_crates (se_env (rg_seat R))" and "root \<equiv> se_root (rg_seat R)"
    and "disk \<equiv> dk_store (sh_desk sh)"
  assumes "tokenize l = ''pair'' # args"
    and "snd (issue_here (seat_at R w) w (pair_ttl args) (sh_desk sh)) = Inr token"
    and "frame_decode (k_app K) (m_payload m) = AppPair (Redeem token)" and "w_now w' < w_now w + token_ttl (pair_ttl args)"
    and "codec_ok (k_pending K)" and "codec_ok (k_ledger K)"
    and "doc_healthy (root @ [''pair.tmp'']) (pending_path root) disk" and "doc_readable (pending_path root) disk"
    and "doc_healthy (root @ [''paired.tmp'']) (ledger_path root) disk" and "\<not> st_rfault disk (ledger_path root)"
    and "enc (k_pending K) \<lparr>pt_token = token, pt_expires_at = w_now w + token_ttl (pair_ttl args), pt_used = True\<rparr> \<noteq> None"
    and "doc_storable (k_ledger K) (load_ledger (k_ledger K) root disk @ [\<lparr>pd_fingerprint = fingerprint C (m_sender m),
        pd_public_key = public_key (m_sender m), pd_paired_at = w_now w'\<rparr>])"
  shows "\<exists>sh'. shell_loop R [(Line l, w), (Inbound m, w')] sh = Some sh'
    \<and> is_paired C (k_ledger K) root (m_sender m) (dk_store (sh_desk sh'))"
proof -
  let ?E = "se_env (seat_at R w')"
  have E: "e_codecs (se_env (seat_at R v)) = K" "e_crates (se_env (seat_at R v)) = C" "e_now (se_env (seat_at R v)) = w_now v"
    "se_root (seat_at R v) = root" "seat_crates (seat_at R v) = C" for v
    by (simp_all add: seat_at_def at_time_def K_def C_def root_def seat_crates_def)
  obtain d' where d': "issue_here (seat_at R w) w (pair_ttl args) (sh_desk sh) = (d', Inr token)"
    using assms(6) by (metis prod.collapse)
  from pair_line [OF assms(5) d'] obtain sh1 where
    l: "shell_line R w l sh = Some (sh1, False)" and sh1: "dk_store (sh_desk sh1) = dk_store d'" by blast
  have i: "issue_token C (k_pending K) (w_seed w) (w_now w) root (pair_ttl args) disk = (dk_store d', Inr token)"
    using d' by (auto simp: issue_here_def cmd_ok_iff context_ok E disk_def)
  from issued_token_accepted [OF i assms(9,11,12,15,8)] obtain s1 where
    c: "consume_token (k_pending K) (w_now w') root token (dk_store d') = (s1, Inr True)" by blast
  note keep = issue_token_env [OF i] consume_token_env [OF c]
  from assms(13,16) obtain s2 where r: "record_pairing C (k_ledger K) (w_now w') root (m_sender m) s1 = (s2, Inr ())"
    using record_pairing_total [of root s1 "k_ledger K" C "m_sender m" "w_now w'"] by (auto simp: keep)
  have "dk_store (sh_desk (shell_inbox R w' m sh1)) = s2"
    using assms(7) c r by (intro redeem_inbox [where E = ?E]) (simp_all add: E sh1 flip: root_def)
  moreover have "is_paired C (k_ledger K) root (m_sender m) s2"
    using record_pairing_ok [OF r assms(10)] assms(14) by (simp add: keep)
  ultimately show ?thesis using l by simp
qed

section \<open>What the prompt gets wrong\<close>

text \<open>\<open>post LOBBY TEXT\<close> with a lobby that was not joined goes, lobby name and all, to the lobby that was
  joined last; \<open>scan ALIAS --active\<close> takes the flag for a filter, and no record has it.\<close>

lemma post_strays:
  assumes "find_roster (k_roster (e_codecs (se_env S))) (se_root S) name s = None"
    and "last_roster (k_roster (e_codecs (se_env S))) (se_root S) s = Some l" and "name \<noteq> []"
  shows "find_post_target S True (name # ws) s = ToLobby (ml_name l) (join_with '' '' (name # ws))"
  using assms by (cases ws) (auto simp: find_post_target_def)

lemma scan_active_empty:
  assumes "\<And>r. r \<in> set rs \<Longrightarrow> CHR ''-'' \<notin> set (lowercase (seat_finger S (ep_identity r)))
    \<and> CHR ''-'' \<notin> set (lowercase (ep_address r))"
  shows "scan_hits S (lowercase ''--active'') rs = []"
proof -
  have l: "lowercase ''--active'' = ''--active''" by code_simp
  have "\<not> has_infix ''--active'' t" if "CHR ''-'' \<notin> set t" for t
    using that by (auto simp: has_infix_def sublist_def)
  then show ?thesis unfolding scan_hits_def l using assms by simp
qed

section \<open>A shell for closed examples\<close>

definition demo_draw :: draw where
  "demo_draw = \<lparr>w_now = 100, w_micros = 7, w_nonce = (\<lambda>i. [of_nat i]), w_seed = [65]\<rparr>"

definition shell_seat :: "unit seat" where
  "shell_seat = (join_seat [])\<lparr>se_env := at_time pair_env 100\<rparr>"

definition shell_desk :: "unit desk" where
  "shell_desk = \<lparr>dk_store = fresh_store [''h''], dk_world = (), dk_out = []\<rparr>"

definition shell_rig :: "unit rig" where
  "shell_rig = \<lparr>rg_seat = shell_seat, rg_wait = (\<lambda>_ w. (w, True)), rg_redial = (\<lambda>_ w. w), rg_tell = (\<lambda>_ _. ret ()),
     rg_ssh = (\<lambda>_. ret None), rg_kill = (\<lambda>_. ret True), rg_spawn = (\<lambda>_ _. ret 9), rg_tool = (\<lambda>_ w. (w, None)),
     rg_update = \<lparr>ue_exe = None, ue_cwd = None, ue_repo = None, ue_branch = None\<rparr>, rg_daemons = no_codec,
     rg_keys = no_codec, rg_pretty = (\<lambda>_. []), rg_fuel = 0, rg_late = (\<lambda>_. True),
     rg_uname = None, rg_os = ''linux'',
     rg_send = (\<lambda>_ w. w)\<rparr>"


definition prompt_rig :: "unit rig" where
  "prompt_rig = shell_rig\<lparr>rg_seat := shell_seat\<lparr>se_env := pair_env\<lparr>e_codecs :=
     (e_codecs pair_env)\<lparr>k_app := table_codec [AppPair (Redeem ''A'')]\<rparr>\<rparr>\<rparr>\<rparr>"

definition prompt_shell :: "unit shell" where
  "prompt_shell = \<lparr>sh_desk = shell_desk, sh_history = \<lparr>h_entries = []\<rparr>, sh_clock = False, sh_hosts = []\<rparr>"

lemma shell_token_redeemed_witness:
  "\<exists>sh'. shell_loop prompt_rig [(Line ''pair'', demo_draw), (Inbound (demo_request \<lparr>public_key = [66]\<rparr>), demo_draw\<lparr>w_now := 101\<rparr>)]
      prompt_shell = Some sh'
    \<and> is_paired demo_crates pair_codec [''h''] \<lparr>public_key = [66]\<rparr> (dk_store (sh_desk sh'))"
proof -
  let ?R = prompt_rig and ?w' = "demo_draw\<lparr>w_now := 101\<rparr>" and ?m = "demo_request \<lparr>public_key = [66]\<rparr>"
  have K: "k_pending (e_codecs (se_env (rg_seat ?R))) = demo_pc" "k_ledger (e_codecs (se_env (rg_seat ?R))) = pair_codec"
    "k_app (e_codecs (se_env (rg_seat ?R))) = table_codec [AppPair (Redeem ''A'')]"
    "e_crates (se_env (rg_seat ?R)) = demo_crates" "se_root (rg_seat ?R) = [''h'']"
    "dk_store (sh_desk prompt_shell) = fresh_store [''h'']"
    "w_now demo_draw = 100" "w_now ?w' = 101" "m_sender ?m = \<lparr>public_key = [66]\<rparr>" "m_payload ?m = []"
    by (simp_all add: prompt_rig_def pair_env_simps shell_seat_def join_seat_def prompt_shell_def shell_desk_def
        demo_draw_def demo_request_def)
  have t: "tokenize ''pair'' = ''pair'' # []" by code_simp
  have i: "snd (issue_here (seat_at ?R demo_draw) demo_draw (pair_ttl []) (sh_desk prompt_shell)) = Inr ''A''" by code_simp
  have f: "frame_decode (table_codec [AppPair (Redeem ''A'')]) [] = AppPair (Redeem ''A'')" by code_simp
  have n: "(101 :: u64) < 100 + token_ttl (pair_ttl [])" by code_simp
  have c: "codec_ok demo_pc" "codec_ok pair_codec" by (simp_all add: pair_codec_def demo_pc_def table_codec_ok)
  have h: "doc_healthy ([''h''] @ [''pair.tmp'']) (pending_path [''h'']) (fresh_store [''h''])"
    "doc_readable (pending_path [''h'']) (fresh_store [''h''])"
    "doc_healthy ([''h''] @ [''paired.tmp'']) (ledger_path [''h'']) (fresh_store [''h''])"
    "\<not> st_rfault (fresh_store [''h'']) (ledger_path [''h''])"
    by (simp_all add: doc_healthy_def writable_def doc_readable_def fresh_store_def pending_path_def ledger_path_def
        is_dir_def prefixes_of_def)
  have e: "enc demo_pc \<lparr>pt_token = ''A'', pt_expires_at = 100 + token_ttl (pair_ttl []), pt_used = True\<rparr> \<noteq> None"
    by code_simp
  have d: "doc_storable pair_codec (load_ledger pair_codec [''h''] (fresh_store [''h'']) @ [\<lparr>pd_fingerprint =
      fingerprint demo_crates \<lparr>public_key = [66]\<rparr>, pd_public_key = public_key \<lparr>public_key = [66]\<rparr>, pd_paired_at = 101\<rparr>])"
    by code_simp
  from shell_token_redeemed [of _ "[]" ?R demo_draw prompt_shell "''A''" ?m ?w', unfolded K, OF t i f n c h e d]
  show ?thesis .
qed

end
